(* ===== verification/Prelude.thy ===== *)
theory Prelude
  imports Main "HOL-Library.Word"
begin

text \<open>
  Shared vocabulary of the development: bytes, little-endian integers, in-place
  overwriting of a byte vector, and the outcome of generated code.  The machine
  integers of the generated model are the LLVM types \<open>t_int\<close> (32 bits),
  \<open>t_int64\<close>, \<open>t_intptr\<close> and \<open>t_chunkid\<close> (64 bits).
\<close>

named_theorems byte_simps \<open>rewriting of byte vectors\<close>
named_theorems outcome_simps \<open>rewriting of outcomes\<close>

type_synonym byte = "8 word"
type_synonym bytes = "byte list"
type_synonym u32 = "32 word"
type_synonym u64 = "64 word"

subsection \<open>Little-endian integers\<close>

fun le_nat :: "bytes \<Rightarrow> nat" where
  "le_nat [] = 0"
| "le_nat (b # bs) = unat b + 256 * le_nat bs"

fun nat_le :: "nat \<Rightarrow> nat \<Rightarrow> bytes" where
  "nat_le 0 v = []"
| "nat_le (Suc n) v = word_of_nat (v mod 256) # nat_le n (v div 256)"

lemma unat_less_power: "unat (w :: 'a::len word) < 2 ^ LENGTH('a)"
  by (rule unsigned_less)

lemma unat_byte_bound: "unat (b :: byte) < 256"
  using unat_less_power [of b] by simp

lemma length_nat_le [simp, byte_simps]: "length (nat_le n v) = n"
  by (induction n arbitrary: v) auto

lemma le_nat_bound: "le_nat bs < 256 ^ length bs"
proof (induction bs)
  case Nil
  show ?case by simp
next
  case (Cons b bs)
  have "unat b + 256 * le_nat bs < 256 + 256 * le_nat bs"
    using unat_byte_bound [of b] by simp
  also have "\<dots> \<le> 256 * 256 ^ length bs"
    using Cons.IH by simp
  finally show ?case by simp
qed

lemma unat_of_nat_byte [simp]: "unat (word_of_nat (v mod 256) :: byte) = v mod 256"
  by (simp add: unat_of_nat)

lemma le_nat_nat_le [byte_simps]: "le_nat (nat_le n v) = v mod 256 ^ n"
proof (induction n arbitrary: v)
  case 0
  show ?case by simp
next
  case (Suc n)
  have "v mod 256 + 256 * (v div 256 mod 256 ^ n) = v mod (256 * 256 ^ n)"
    by (simp add: mod_mult2_eq)
  with Suc.IH [of "v div 256"] show ?case by simp
qed

lemma nat_le_le_nat [byte_simps]: "nat_le (length bs) (le_nat bs) = bs"
proof (induction bs)
  case Nil
  show ?case by simp
next
  case (Cons b bs)
  have "(unat b + 256 * le_nat bs) mod 256 = unat b"
    using unat_byte_bound [of b] by simp
  moreover have "(unat b + 256 * le_nat bs) div 256 = le_nat bs"
    using unat_byte_bound [of b] by simp
  ultimately show ?case
    using Cons.IH by simp
qed

definition bytes_u32 :: "u32 \<Rightarrow> bytes" where
  "bytes_u32 w = nat_le 4 (unat w)"

definition bytes_u64 :: "u64 \<Rightarrow> bytes" where
  "bytes_u64 w = nat_le 8 (unat w)"

definition u32_of :: "bytes \<Rightarrow> u32" where
  "u32_of bs = word_of_nat (le_nat bs)"

definition u64_of :: "bytes \<Rightarrow> u64" where
  "u64_of bs = word_of_nat (le_nat bs)"

lemma length_bytes_word [simp, byte_simps]:
  "length (bytes_u32 w) = 4" "length (bytes_u64 w') = 8"
  by (simp_all add: bytes_u32_def bytes_u64_def)

lemma u32_of_bytes_u32 [simp, byte_simps]: "u32_of (bytes_u32 w) = w"
  using unat_less_power [of w] by (simp add: u32_of_def bytes_u32_def le_nat_nat_le)

lemma u64_of_bytes_u64 [simp, byte_simps]: "u64_of (bytes_u64 w) = w"
  using unat_less_power [of w] by (simp add: u64_of_def bytes_u64_def le_nat_nat_le)

lemma bytes_u64_u64_of: "length bs = 8 \<Longrightarrow> bytes_u64 (u64_of bs) = bs"
proof -
  assume len: "length bs = 8"
  with le_nat_bound [of bs] have "le_nat bs < 2 ^ 64" by simp
  then have "unat (u64_of bs) = le_nat bs"
    by (simp add: u64_of_def unat_of_nat)
  with len show "bytes_u64 (u64_of bs) = bs"
    using nat_le_le_nat [of bs] by (simp add: bytes_u64_def)
qed

subsection \<open>Parts of a byte vector\<close>

definition bytes_at :: "nat \<Rightarrow> nat \<Rightarrow> 'a list \<Rightarrow> 'a list" where
  "bytes_at off n bs = take n (drop off bs)"

definition put_at :: "nat \<Rightarrow> 'a list \<Rightarrow> 'a list \<Rightarrow> 'a list" where
  "put_at off d bs = take off bs @ d @ drop (off + length d) bs"

lemma length_bytes_at [byte_simps]: "off + n \<le> length bs \<Longrightarrow> length (bytes_at off n bs) = n"
  by (simp add: bytes_at_def)

lemma length_put_at [byte_simps]: "off + length d \<le> length bs \<Longrightarrow> length (put_at off d bs) = length bs"
  by (simp add: put_at_def)

lemma bytes_at_put_at_same [byte_simps]:
  "off \<le> length bs \<Longrightarrow> bytes_at off (length d) (put_at off d bs) = d"
  by (simp add: bytes_at_def put_at_def)

lemma nth_put_at:
  assumes "off + length d \<le> length bs" and "i < length bs"
  shows "put_at off d bs ! i = (if off \<le> i \<and> i < off + length d then d ! (i - off) else bs ! i)"
  using assms by (auto simp: put_at_def nth_append min_def)

lemma bytes_at_put_at_disjoint [byte_simps]:
  assumes "off' + n \<le> off \<or> off + length d \<le> off'"
    and "off + length d \<le> length bs" and "off' + n \<le> length bs"
  shows "bytes_at off' n (put_at off d bs) = bytes_at off' n bs"
proof (rule nth_equalityI)
  show "length (bytes_at off' n (put_at off d bs)) = length (bytes_at off' n bs)"
    using assms by (simp add: byte_simps)
next
  fix i
  assume "i < length (bytes_at off' n (put_at off d bs))"
  with assms have "i < n" by (simp add: byte_simps)
  then show "bytes_at off' n (put_at off d bs) ! i = bytes_at off' n bs ! i"
    using assms nth_put_at [of off d bs "off' + i"]
    by (auto simp: bytes_at_def length_put_at)
qed

lemma put_at_whole: "length d = length bs \<Longrightarrow> put_at 0 d bs = d"
  by (simp add: put_at_def)

lemma bytes_at_append1 [byte_simps]: "bytes_at 0 n (xs @ ys) = xs" if "n = length xs"
  using that by (simp add: bytes_at_def)

lemma bytes_at_append2 [byte_simps]: "bytes_at off n (xs @ ys) = bytes_at (off - length xs) n ys"
  if "length xs \<le> off"
  using that by (simp add: bytes_at_def)

text \<open>Zero padding up to a length, as a store of a narrow value into zeroed storage.\<close>

definition zpad :: "nat \<Rightarrow> bytes \<Rightarrow> bytes" where
  "zpad n bs = bs @ replicate (n - length bs) 0"

lemma length_zpad [simp, byte_simps]: "length (zpad n bs) = max n (length bs)"
  by (simp add: zpad_def)

lemma take_zpad [byte_simps]: "take (length bs) (zpad n bs) = bs"
  by (simp add: zpad_def)

subsection \<open>Outcomes\<close>

text \<open>
  What a piece of generated code does: it runs on (\<open>Ok\<close>), it branches to the block
  \<open>end_no_report\<close> (\<open>NoReport\<close>), or the generator or the generated code stops with an
  assertion, an abort or an access outside an object (\<open>Fail\<close>).
\<close>

datatype failure =
    Assertion | AbortCall | Unsupported | BadAccess | UnknownValue | TooManyArguments

datatype 'a outcome = Ok 'a | NoReport | Fail failure

primrec obind :: "'a outcome \<Rightarrow> ('a \<Rightarrow> 'b outcome) \<Rightarrow> 'b outcome" where
  "obind (Ok x) f = f x"
| "obind NoReport f = NoReport"
| "obind (Fail e) f = Fail e"

lemma obind_Ok_iff [outcome_simps]:
  "obind x f = Ok y \<longleftrightarrow> (\<exists>a. x = Ok a \<and> f a = Ok y)"
  by (cases x) auto

lemma obind_OkE:
  assumes "obind x f = Ok y"
  obtains a where "x = Ok a" and "f a = Ok y"
  using assms by (cases x) auto

lemma obind_cong [fundef_cong]:
  "x = x' \<Longrightarrow> (\<And>a. x' = Ok a \<Longrightarrow> f a = g a) \<Longrightarrow> obind x f = obind x' g"
  by (cases x') auto

definition of_option :: "failure \<Rightarrow> 'a option \<Rightarrow> 'a outcome" where
  "of_option e x = (case x of None \<Rightarrow> Fail e | Some a \<Rightarrow> Ok a)"

lemma of_option_Ok_iff [outcome_simps]: "of_option e x = Ok a \<longleftrightarrow> x = Some a"
  by (cases x) (auto simp: of_option_def)

primrec omap :: "('a \<Rightarrow> 'b outcome) \<Rightarrow> 'a list \<Rightarrow> 'b list outcome" where
  "omap f [] = Ok []"
| "omap f (x # xs) = obind (f x) (\<lambda>y. obind (omap f xs) (\<lambda>ys. Ok (y # ys)))"

lemma omap_length: "omap f xs = Ok ys \<Longrightarrow> length ys = length xs"
  by (induction xs arbitrary: ys) (auto simp: outcome_simps)

lemma omap_cong [fundef_cong]:
  "xs = ys \<Longrightarrow> (\<And>x. x \<in> set ys \<Longrightarrow> f x = g x) \<Longrightarrow> omap f xs = omap g ys"
  by (induction ys arbitrary: xs) auto

end
