(* ===== verification/Type_Store.thy ===== *)
theory Type_Store
  imports Prelude
begin

text \<open>
  The tree store of include/llmc/treestore.h: a \<open>TypeInstance\<close> is a byte vector with an
  identifier, a \<open>TypeStore\<close> is a deduplicating, append-only numbering of such vectors, and a
  \<open>TreeStore\<close> is one \<open>TypeStore\<close> per type number.  Data is modelled by content: a null
  pointer is the empty vector, an external instance is one whose buffer is owned by the
  caller and is copied when the instance is moved into a container.
\<close>

section \<open>Type instances\<close>

record type_instance =
  ti_data :: bytes
  ti_length :: nat
  ti_id :: nat
  ti_external :: bool

definition type_instance_eq :: "type_instance \<Rightarrow> type_instance \<Rightarrow> bool" where
  "type_instance_eq a b =
     (if ti_length a \<noteq> ti_length b then False
      else take (ti_length a) (ti_data a) = take (ti_length a) (ti_data b))"

definition type_instance_new :: "bytes \<Rightarrow> bool \<Rightarrow> type_instance" where
  "type_instance_new d ext = \<lparr>ti_data = d, ti_length = length d, ti_id = 0, ti_external = ext\<rparr>"

definition type_instance_move :: "type_instance \<Rightarrow> type_instance \<times> type_instance" where
  "type_instance_move other =
     (let this = \<lparr>ti_data = (if ti_external other then take (ti_length other) (ti_data other)
                              else ti_data other),
                  ti_length = ti_length other, ti_id = ti_id other, ti_external = False\<rparr>
      in if ti_external other then (this, other\<lparr>ti_id := 0, ti_length := 0\<rparr>)
         else (this, other\<lparr>ti_data := [], ti_id := 0, ti_length := 0\<rparr>))"

definition type_instance_move_assign :: "type_instance \<Rightarrow> type_instance \<times> type_instance" where
  "type_instance_move_assign other =
     (let this = \<lparr>ti_data = (if ti_external other then take (ti_length other) (ti_data other)
                              else ti_data other),
                  ti_length = ti_length other, ti_id = ti_id other, ti_external = False\<rparr>
      in if ti_external other then (this, other\<lparr>ti_id := 0\<rparr>)
         else (this, other\<lparr>ti_data := [], ti_length := 0, ti_id := 0\<rparr>))"

definition type_instance_clone :: "type_instance \<Rightarrow> type_instance" where
  "type_instance_clone ti =
     fst (type_instance_move (type_instance_new (take (ti_length ti) (ti_data ti)) False))"

definition ti_wf :: "type_instance \<Rightarrow> bool" where
  "ti_wf ti \<longleftrightarrow> ti_length ti = length (ti_data ti)"

lemma type_instance_eq_wf:
  "ti_wf a \<Longrightarrow> ti_wf b \<Longrightarrow> type_instance_eq a b \<longleftrightarrow> ti_data a = ti_data b"
  by (auto simp: type_instance_eq_def ti_wf_def)

lemma type_instance_new_wf [simp]:
  "ti_wf (type_instance_new d e)" "ti_data (type_instance_new d e) = d"
  "ti_length (type_instance_new d e) = length d"
  by (simp_all add: type_instance_new_def ti_wf_def)

lemma type_instance_move_fst [simp]:
  assumes "ti_wf ti"
  shows "ti_wf (fst (type_instance_move ti))"
    and "ti_data (fst (type_instance_move ti)) = ti_data ti"
    and "ti_id (fst (type_instance_move ti)) = ti_id ti"
  using assms by (auto simp: type_instance_move_def ti_wf_def Let_def)

lemma type_instance_clone_data [simp]:
  "ti_wf ti \<Longrightarrow> ti_data (type_instance_clone ti) = ti_data ti"
  "ti_wf ti \<Longrightarrow> ti_wf (type_instance_clone ti)"
  using type_instance_move_fst [of "type_instance_new (take (ti_length ti) (ti_data ti)) False"]
  by (simp_all add: type_instance_clone_def) (simp_all add: ti_wf_def)

lemma ti_wf_id [simp]: "ti_wf (ti\<lparr>ti_id := n\<rparr>) = ti_wf ti"
  by (simp add: ti_wf_def)

section \<open>One numbering: TypeStore\<close>

text \<open>
  \<open>ts_refs\<close> is the vector \<open>_typeInstancesRef\<close>, whose slot 0 is the null pointer pushed by the
  constructor; \<open>ts_set\<close> is the unordered set \<open>_typeInstances\<close>, which holds no two equal
  elements and whose order plays no role.
\<close>

record type_store =
  ts_refs :: "type_instance option list"
  ts_set :: "type_instance list"

definition type_store_new :: type_store where
  "type_store_new = \<lparr>ts_refs = [None], ts_set = []\<rparr>"

definition type_store_insert :: "type_instance \<Rightarrow> type_store \<Rightarrow> (type_instance \<times> bool) \<times> type_store" where
  "type_store_insert ti ts =
     (let id = length (ts_refs ts); ti' = ti\<lparr>ti_id := id\<rparr>
      in case find (type_instance_eq ti') (ts_set ts) of
           Some old \<Rightarrow> ((old, False), ts)
         | None \<Rightarrow>
             (let new = fst (type_instance_move ti')
              in ((new, True),
                  ts\<lparr>ts_refs := ts_refs ts @ [Some new], ts_set := ts_set ts @ [new]\<rparr>)))"

definition type_store_find :: "nat \<Rightarrow> type_store \<Rightarrow> type_instance outcome" where
  "type_store_find i ts =
     (if i < length (ts_refs ts)
      then of_option Assertion (ts_refs ts ! i)
      else Fail Assertion)"

definition type_store_size :: "type_store \<Rightarrow> nat" where
  "type_store_size ts = length (ts_refs ts) - 1"

text \<open>
  The invariant of a numbering: slot 0 is null, slot \<open>i > 0\<close> points to the element with
  identifier \<open>i\<close>, and the slots enumerate the set without repetition of content.
\<close>

definition type_store_inv :: "type_store \<Rightarrow> bool" where
  "type_store_inv ts \<longleftrightarrow>
     ts_refs ts = None # map Some (ts_set ts)
     \<and> list_all ti_wf (ts_set ts)
     \<and> map ti_id (ts_set ts) = [1..<length (ts_refs ts)]
     \<and> distinct (map ti_data (ts_set ts))"

lemma type_store_new_inv [simp]: "type_store_inv type_store_new"
  by (simp add: type_store_inv_def type_store_new_def)

lemma type_store_inv_length: "type_store_inv ts \<Longrightarrow> length (ts_refs ts) = Suc (length (ts_set ts))"
  by (simp add: type_store_inv_def)

lemma type_store_inv_ids:
  assumes "type_store_inv ts" and "i < length (ts_set ts)"
  shows "ti_id (ts_set ts ! i) = Suc i"
proof -
  from assms(1) have "map ti_id (ts_set ts) = [1..<Suc (length (ts_set ts))]"
    by (simp add: type_store_inv_def del: upt_Suc)
  then have "map ti_id (ts_set ts) ! i = [1..<Suc (length (ts_set ts))] ! i"
    by (rule arg_cong)
  with assms(2) show ?thesis by (simp del: upt_Suc)
qed

lemma find_type_instance_None:
  assumes "list_all ti_wf xs" and "ti_wf ti"
  shows "find (type_instance_eq ti) xs = None \<longleftrightarrow> ti_data ti \<notin> ti_data ` set xs"
  using assms by (auto simp: find_None_iff list_all_iff type_instance_eq_wf)

lemma find_type_instance_Some:
  assumes "list_all ti_wf xs" and "ti_wf ti" and "find (type_instance_eq ti) xs = Some old"
  shows "old \<in> set xs \<and> ti_data old = ti_data ti"
proof -
  from assms(3) obtain i where "i < length xs" "type_instance_eq ti (xs ! i)" "old = xs ! i"
    by (auto simp: find_Some_iff)
  with assms(1,2) show ?thesis
    using type_instance_eq_wf [of ti old] by (auto simp: list_all_length)
qed

lemma type_store_insert_cases:
  assumes "type_store_inv ts" and "ti_wf ti"
  obtains (old) old where "type_store_insert ti ts = ((old, False), ts)"
      "old \<in> set (ts_set ts)" "ti_data old = ti_data ti"
  | (new) new where "type_store_insert ti ts =
        ((new, True), ts\<lparr>ts_refs := ts_refs ts @ [Some new], ts_set := ts_set ts @ [new]\<rparr>)"
      "ti_data ti \<notin> ti_data ` set (ts_set ts)" "ti_data new = ti_data ti" "ti_wf new"
      "ti_id new = length (ts_refs ts)"
proof (cases "find (type_instance_eq (ti\<lparr>ti_id := length (ts_refs ts)\<rparr>)) (ts_set ts)")
  case None
  then have "ti_data ti \<notin> ti_data ` set (ts_set ts)"
    using assms find_type_instance_None [of "ts_set ts" "ti\<lparr>ti_id := length (ts_refs ts)\<rparr>"]
    by (simp add: type_store_inv_def)
  with None assms show thesis
    by (intro new [of "fst (type_instance_move (ti\<lparr>ti_id := length (ts_refs ts)\<rparr>))"])
      (simp_all add: type_store_insert_def Let_def)
next
  case (Some x)
  then have "x \<in> set (ts_set ts) \<and> ti_data x = ti_data ti"
    using assms find_type_instance_Some [of "ts_set ts" "ti\<lparr>ti_id := length (ts_refs ts)\<rparr>"]
    by (simp add: type_store_inv_def)
  with Some show thesis
    by (intro old [of x]) (simp_all add: type_store_insert_def)
qed

lemma type_store_insert_inv:
  assumes "type_store_inv ts" and "ti_wf ti"
  shows "type_store_inv (snd (type_store_insert ti ts))"
  using assms(1,2)
proof (cases rule: type_store_insert_cases)
  case old
  with assms show ?thesis by simp
next
  case (new new)
  with assms(1) show ?thesis
    by (auto simp: type_store_inv_def)
qed

definition ts_contents :: "type_store \<Rightarrow> bytes list" where
  "ts_contents ts = map ti_data (ts_set ts)"

lemma type_store_find_contents:
  assumes "type_store_inv ts" and "0 < i" and "i \<le> length (ts_contents ts)"
  shows "\<exists>ti. type_store_find i ts = Ok ti \<and> ti_data ti = ts_contents ts ! (i - 1) \<and> ti_id ti = i"
proof -
  from assms obtain j where j: "i = Suc j" "j < length (ts_set ts)"
    by (cases i) (auto simp: ts_contents_def)
  with assms(1) have "ts_refs ts ! i = Some (ts_set ts ! j)"
    by (simp add: type_store_inv_def)
  with j assms(1) type_store_inv_ids [OF assms(1) j(2)] show ?thesis
    by (simp add: type_store_find_def type_store_inv_length ts_contents_def of_option_def)
qed

lemma type_store_insert_contents:
  assumes "type_store_inv ts" and "ti_wf ti"
  shows "ts_contents (snd (type_store_insert ti ts)) =
           (if ti_data ti \<in> set (ts_contents ts) then ts_contents ts
            else ts_contents ts @ [ti_data ti])"
  using assms
proof (cases rule: type_store_insert_cases)
  case (old old)
  then have "ti_data ti \<in> set (ts_contents ts)"
    by (metis image_eqI list.set_map ts_contents_def)
  with old show ?thesis by simp
next
  case new
  then show ?thesis by (auto simp: ts_contents_def)
qed

lemma type_store_insert_id:
  assumes "type_store_inv ts" and "ti_wf ti"
  shows "0 < ti_id (fst (fst (type_store_insert ti ts))) \<and>
    ti_id (fst (fst (type_store_insert ti ts))) \<le> length (ts_contents (snd (type_store_insert ti ts))) \<and>
    ts_contents (snd (type_store_insert ti ts)) ! (ti_id (fst (fst (type_store_insert ti ts))) - 1)
      = ti_data ti \<and>
    ti_data (fst (fst (type_store_insert ti ts))) = ti_data ti"
  using assms
proof (cases rule: type_store_insert_cases)
  case (old old)
  then obtain j where "j < length (ts_set ts)" "ts_set ts ! j = old"
    by (auto simp: in_set_conv_nth)
  with old type_store_inv_ids [OF assms(1), of j] show ?thesis
    by (auto simp: ts_contents_def)
next
  case (new new)
  with type_store_inv_length [OF assms(1)] show ?thesis
    by (simp add: ts_contents_def nth_append)
qed

lemma type_store_insert_new_iff:
  assumes "type_store_inv ts" and "ti_wf ti"
  shows "snd (fst (type_store_insert ti ts)) \<longleftrightarrow> ti_data ti \<notin> set (ts_contents ts)"
  using assms
proof (cases rule: type_store_insert_cases)
  case (old old)
  then have "ti_data ti \<in> set (ts_contents ts)"
    by (metis image_eqI list.set_map ts_contents_def)
  with old show ?thesis by simp
next
  case new
  then show ?thesis by (auto simp: ts_contents_def)
qed

section \<open>One numbering per type: TreeStore\<close>

type_synonym tree_store = "type_store list"

definition tree_store_new :: tree_store where
  "tree_store_new = [type_store_new]"

definition tree_store_resize :: "nat \<Rightarrow> tree_store \<Rightarrow> tree_store" where
  "tree_store_resize n db = db @ replicate (n - length db) type_store_new"

definition tree_store_insert ::
  "nat \<Rightarrow> type_instance \<Rightarrow> tree_store \<Rightarrow> (type_instance \<times> bool) \<times> tree_store" where
  "tree_store_insert type ti db =
     (let db' = (if length db \<le> type then tree_store_resize (type + 1) db else db);
          res = type_store_insert ti (db' ! type)
      in (fst res, db'[type := snd res]))"

definition tree_store_find :: "nat \<Rightarrow> nat \<Rightarrow> tree_store \<Rightarrow> type_instance outcome" where
  "tree_store_find type i db =
     (if type < length db then type_store_find i (db ! type) else Fail BadAccess)"

definition tree_store_inv :: "tree_store \<Rightarrow> bool" where
  "tree_store_inv db \<longleftrightarrow> list_all type_store_inv db"

text \<open>The contents of a type: nothing when the type has not been used yet.\<close>

definition tree_contents :: "nat \<Rightarrow> tree_store \<Rightarrow> bytes list" where
  "tree_contents type db = (if type < length db then ts_contents (db ! type) else [])"

lemma tree_store_new_inv [simp]: "tree_store_inv tree_store_new"
  by (simp add: tree_store_inv_def tree_store_new_def)

lemma ts_contents_new [simp]: "ts_contents type_store_new = []"
  by (simp add: ts_contents_def type_store_new_def)

lemma tree_contents_new [simp]: "tree_contents t tree_store_new = []"
  by (simp add: tree_contents_def tree_store_new_def)

lemma tree_store_grow:
  fixes type db
  defines "db' \<equiv> (if length db \<le> type then tree_store_resize (type + 1) db else db)"
  shows "type < length db'" and "tree_store_inv db \<Longrightarrow> tree_store_inv db'"
    and "tree_contents t db' = tree_contents t db"
    and "ts_contents (db' ! type) = tree_contents type db"
  by (auto simp: db'_def tree_store_resize_def tree_store_inv_def tree_contents_def nth_append
      list_all_iff)

lemma tree_store_insert_props:
  fixes type t :: nat
  assumes "tree_store_inv db" and "ti_wf ti"
  defines "res \<equiv> tree_store_insert type ti db"
  shows "tree_store_inv (snd res)"
    and "tree_contents type (snd res) =
          (if ti_data ti \<in> set (tree_contents type db) then tree_contents type db
           else tree_contents type db @ [ti_data ti])"
    and "t \<noteq> type \<Longrightarrow> tree_contents t (snd res) = tree_contents t db"
    and "0 < ti_id (fst (fst res))"
    and "ti_id (fst (fst res)) \<le> length (tree_contents type (snd res))"
    and "tree_contents type (snd res) ! (ti_id (fst (fst res)) - 1) = ti_data ti"
    and "snd (fst res) \<longleftrightarrow> ti_data ti \<notin> set (tree_contents type db)"
    and "ti_data (fst (fst res)) = ti_data ti"
proof -
  define db' where "db' = (if length db \<le> type then tree_store_resize (type + 1) db else db)"
  note grow = tree_store_grow [where type = type and db = db, folded db'_def]
  have inv': "type_store_inv (db' ! type)"
    using grow(1,2) assms(1) by (simp add: tree_store_inv_def list_all_length)
  have res: "res = (fst (type_store_insert ti (db' ! type)),
      db'[type := snd (type_store_insert ti (db' ! type))])"
    by (simp add: res_def tree_store_insert_def db'_def Let_def)
  have contents: "tree_contents type (snd res) = ts_contents (snd (type_store_insert ti (db' ! type)))"
    using grow(1) by (simp add: res tree_contents_def)
  show "tree_store_inv (snd res)"
    using grow(1,2) assms(1,2) type_store_insert_inv [OF inv' assms(2)]
    by (auto simp: res tree_store_inv_def list_all_length nth_list_update)
  show "t \<noteq> type \<Longrightarrow> tree_contents t (snd res) = tree_contents t db"
    using grow(3) [of t] by (auto simp: res tree_contents_def)
  show "tree_contents type (snd res) =
          (if ti_data ti \<in> set (tree_contents type db) then tree_contents type db
           else tree_contents type db @ [ti_data ti])"
    using type_store_insert_contents [OF inv' assms(2)] contents by (simp add: grow(4))
  show "0 < ti_id (fst (fst res))"
    "ti_id (fst (fst res)) \<le> length (tree_contents type (snd res))"
    "tree_contents type (snd res) ! (ti_id (fst (fst res)) - 1) = ti_data ti"
    "ti_data (fst (fst res)) = ti_data ti"
    using type_store_insert_id [OF inv' assms(2)] by (simp_all only: contents) (simp_all add: res)
  show "snd (fst res) \<longleftrightarrow> ti_data ti \<notin> set (tree_contents type db)"
    using type_store_insert_new_iff [OF inv' assms(2)] by (simp add: res grow(4))
qed

lemma tree_store_find_contents:
  assumes "tree_store_inv db" and "0 < i" and "i \<le> length (tree_contents type db)"
  shows "\<exists>ti. tree_store_find type i db = Ok ti \<and> ti_data ti = tree_contents type db ! (i - 1)
           \<and> ti_id ti = i"
proof -
  from assms have "type < length db"
    by (simp add: tree_contents_def split: if_splits)
  with assms show ?thesis
    using type_store_find_contents [of "db ! type" i]
    by (simp add: tree_store_find_def tree_contents_def tree_store_inv_def list_all_length)
qed

end
