(* ===== verification/Explorer.thy ===== *)
theory Explorer
  imports Type_Store
begin

text \<open>
  The state-space generators of include/llmc/ssgen.h: the single-threaded breadth-first
  search \<open>ssgen_st\<close> and the multi-threaded \<open>ssgen_mt\<close>.  The model under exploration is a
  shared object loaded at run time; its next-state function is the parameter \<open>nexts\<close>, the
  list of states that \<open>_pins_getnext\<close> reports for a transition group and a state, in order.
\<close>

section \<open>The loaded model\<close>

record pins_model =
  pm_length :: nat
  pm_tgroups :: nat
  pm_init :: type_instance
  pm_getnext :: "nat \<Rightarrow> bytes \<Rightarrow> bytes list"

definition setInitialState :: "bytes \<Rightarrow> pins_model \<Rightarrow> pins_model" where
  "setInitialState s m =
     m\<lparr>pm_init := fst (type_instance_move_assign (type_instance_new (take (pm_length m) s) True))\<rparr>"

definition getInitial :: "pins_model \<Rightarrow> type_instance" where
  "getInitial m = type_instance_clone (pm_init m)"

definition getNextAll :: "pins_model \<Rightarrow> bytes \<Rightarrow> bytes list" where
  "getNextAll m s = concat (map (\<lambda>tg. pm_getnext m tg s) [0..<pm_tgroups m])"

inductive_set reachable_states :: "pins_model \<Rightarrow> bytes set" for m :: pins_model where
  initial: "ti_data (getInitial m) \<in> reachable_states m"
| step: "s \<in> reachable_states m \<Longrightarrow> t \<in> set (getNextAll m s) \<Longrightarrow> t \<in> reachable_states m"

section \<open>The single-threaded search\<close>

record explorer =
  ex_store :: tree_store
  ex_queue :: "bytes list"
  ex_queueNew :: "bytes list"
  ex_transitions :: u32

definition reportTransition :: "bytes \<Rightarrow> explorer \<Rightarrow> explorer" where
  "reportTransition s e =
     (let res = tree_store_insert 0 (type_instance_new s True) (ex_store e);
          e' = e\<lparr>ex_transitions := ex_transitions e + 1, ex_store := snd res\<rparr>
      in if snd (fst res) then e'\<lparr>ex_queueNew := ex_queueNew e' @ [ti_data (fst (fst res))]\<rparr> else e')"

definition explore_state :: "pins_model \<Rightarrow> bytes \<Rightarrow> explorer \<Rightarrow> explorer" where
  "explore_state m s e = fold reportTransition (getNextAll m s) e"

text \<open>The inner loop takes states off the front of \<open>stateQueue\<close> until it is empty.\<close>

primrec explore_queue :: "pins_model \<Rightarrow> bytes list \<Rightarrow> explorer \<Rightarrow> explorer" where
  "explore_queue m [] e = e"
| "explore_queue m (s # rest) e = explore_queue m rest (explore_state m s (e\<lparr>ex_queue := rest\<rparr>))"

definition explore_level :: "pins_model \<Rightarrow> explorer \<Rightarrow> explorer" where
  "explore_level m e =
     (let e' = e\<lparr>ex_queue := ex_queueNew e, ex_queueNew := ex_queue e\<rparr>
      in explore_queue m (ex_queue e') e')"

partial_function (option) explore_levels :: "pins_model \<Rightarrow> explorer \<Rightarrow> explorer option" where
  "explore_levels m e =
     (let e' = explore_level m e
      in if ex_queueNew e' \<noteq> [] then explore_levels m e' else Some e')"

definition explorer_start :: "pins_model \<Rightarrow> explorer" where
  "explorer_start m =
     (let init = getInitial m;
          res = tree_store_insert 0 (type_instance_clone init) tree_store_new
      in \<lparr>ex_store = snd res, ex_queue = [], ex_queueNew = [ti_data (fst (fst res))],
          ex_transitions = 0\<rparr>)"

definition ssgen_st_go :: "pins_model \<Rightarrow> explorer option" where
  "ssgen_st_go m = explore_levels m (explorer_start m)"

abbreviation stored :: "explorer \<Rightarrow> bytes list" where
  "stored e \<equiv> tree_contents 0 (ex_store e)"

subsection \<open>One state: all its successors are stored, the new ones are queued once\<close>

lemma reportTransition_props:
  fixes s :: bytes
  assumes "tree_store_inv (ex_store e)"
  defines "new \<equiv> (if s \<in> set (stored e) then [] else [s])"
  shows "tree_store_inv (ex_store (reportTransition s e))"
    and "stored (reportTransition s e) = stored e @ new"
    and "ex_queueNew (reportTransition s e) = ex_queueNew e @ new"
    and "ex_queue (reportTransition s e) = ex_queue e"
    and "ex_transitions (reportTransition s e) = ex_transitions e + 1"
  using tree_store_insert_props [where db = "ex_store e" and type = 0 and ti = "type_instance_new s True",
      OF assms(1)]
  by (auto simp: reportTransition_def Let_def new_def)

lemma fold_reportTransition:
  assumes "tree_store_inv (ex_store e)"
  shows "\<exists>news. tree_store_inv (ex_store (fold reportTransition xs e))
    \<and> stored (fold reportTransition xs e) = stored e @ news
    \<and> ex_queueNew (fold reportTransition xs e) = ex_queueNew e @ news
    \<and> ex_queue (fold reportTransition xs e) = ex_queue e
    \<and> ex_transitions (fold reportTransition xs e) = ex_transitions e + of_nat (length xs)
    \<and> distinct news \<and> set news = set xs - set (stored e)"
  using assms
proof (induction xs arbitrary: e)
  case Nil
  then show ?case by simp
next
  case (Cons x xs)
  let ?e = "reportTransition x e"
  note p = reportTransition_props [OF Cons.prems, of x]
  obtain news where news: "tree_store_inv (ex_store (fold reportTransition xs ?e))"
    "stored (fold reportTransition xs ?e) = stored ?e @ news"
    "ex_queueNew (fold reportTransition xs ?e) = ex_queueNew ?e @ news"
    "ex_queue (fold reportTransition xs ?e) = ex_queue ?e"
    "ex_transitions (fold reportTransition xs ?e) = ex_transitions ?e + of_nat (length xs)"
    "distinct news" "set news = set xs - set (stored ?e)"
    using Cons.IH [OF p(1)] by auto
  let ?n = "(if x \<in> set (stored e) then [] else [x]) @ news"
  have "set ?n = set (x # xs) - set (stored e) \<and> distinct ?n"
    using news(6,7) p(2) by auto
  with news p(2-5) show ?case
    by (intro exI [of _ ?n]) (simp add: add.assoc)
qed

subsection \<open>The search invariant\<close>

text \<open>
  \<open>todo\<close> are the states of the current level that are still to be explored.  A stored state
  that is neither in \<open>todo\<close> nor in the next level has been explored: its successors are
  stored and counted.
\<close>

definition search_inv :: "pins_model \<Rightarrow> bytes list \<Rightarrow> explorer \<Rightarrow> bool" where
  "search_inv m todo e \<longleftrightarrow>
     tree_store_inv (ex_store e)
     \<and> ti_data (getInitial m) \<in> set (stored e)
     \<and> set (stored e) \<subseteq> reachable_states m
     \<and> distinct (todo @ ex_queueNew e)
     \<and> set (todo @ ex_queueNew e) \<subseteq> set (stored e)
     \<and> (\<forall>s \<in> set (stored e) - set (todo @ ex_queueNew e). set (getNextAll m s) \<subseteq> set (stored e))
     \<and> ex_transitions e =
         of_nat (\<Sum>s \<in> set (stored e) - set (todo @ ex_queueNew e). length (getNextAll m s))"

lemma search_inv_state:
  assumes "search_inv m (s # rest) e"
  shows "search_inv m rest (explore_state m s (e\<lparr>ex_queue := rest\<rparr>))"
proof -
  let ?e = "e\<lparr>ex_queue := rest\<rparr>" and ?e' = "explore_state m s (e\<lparr>ex_queue := rest\<rparr>)"
  let ?S = "set (stored e)" and ?X = "set (stored e) - set ((s # rest) @ ex_queueNew e)"
  from assms have inv: "tree_store_inv (ex_store ?e)"
    by (simp add: search_inv_def)
  obtain news where news: "tree_store_inv (ex_store ?e')" "stored ?e' = stored e @ news"
    "ex_queueNew ?e' = ex_queueNew e @ news"
    "ex_transitions ?e' = ex_transitions e + of_nat (length (getNextAll m s))"
    "distinct news" "set news = set (getNextAll m s) - ?S"
    using fold_reportTransition [OF inv, of "getNextAll m s"] by (auto simp: explore_state_def)
  have X: "set (stored ?e') - set (rest @ ex_queueNew ?e') = insert s ?X"
    and "s \<notin> ?X" and sS: "s \<in> ?S"
    using assms news by (auto simp: search_inv_def)
  then have sum: "(\<Sum>t \<in> insert s ?X. length (getNextAll m t))
      = length (getNextAll m s) + (\<Sum>t \<in> ?X. length (getNextAll m t))"
    by (subst sum.insert) auto
  have "set (stored ?e') \<subseteq> reachable_states m"
    using assms news(2,6) sS by (auto simp: search_inv_def intro: reachable_states.step)
  moreover have "distinct (rest @ ex_queueNew ?e')"
    and "set (rest @ ex_queueNew ?e') \<subseteq> set (stored ?e')"
    and "ti_data (getInitial m) \<in> set (stored ?e')"
    using assms news by (auto simp: search_inv_def)
  moreover have "\<forall>t \<in> insert s ?X. set (getNextAll m t) \<subseteq> set (stored ?e')"
    using assms news(2,6) by (auto simp: search_inv_def)
  moreover have "ex_transitions ?e' = of_nat (\<Sum>t \<in> insert s ?X. length (getNextAll m t))"
    using assms by (simp only: sum news(4)) (simp add: search_inv_def add.commute)
  ultimately show ?thesis
    using news(1) unfolding search_inv_def X by blast
qed

lemma search_inv_queue: "search_inv m todo e \<Longrightarrow> search_inv m [] (explore_queue m todo e)"
  by (induction todo arbitrary: e) (auto dest: search_inv_state)

lemma search_inv_swap:
  "search_inv m [] e \<Longrightarrow> ex_queue e = [] \<Longrightarrow>
   search_inv m (ex_queueNew e) (e\<lparr>ex_queue := ex_queueNew e, ex_queueNew := []\<rparr>)"
  by (simp add: search_inv_def)

lemma explore_state_grows:
  assumes "tree_store_inv (ex_store e)"
  shows "tree_store_inv (ex_store (explore_state m s e))"
    and "\<exists>news. stored (explore_state m s e) = stored e @ news
      \<and> ex_queueNew (explore_state m s e) = ex_queueNew e @ news
      \<and> ex_queue (explore_state m s e) = ex_queue e"
  using fold_reportTransition [OF assms, of "getNextAll m s"] by (auto simp: explore_state_def)

lemma explore_queue_grows:
  assumes "tree_store_inv (ex_store e)" and "ex_queue e = todo"
  shows "\<exists>news. stored (explore_queue m todo e) = stored e @ news
      \<and> ex_queueNew (explore_queue m todo e) = ex_queueNew e @ news
      \<and> ex_queue (explore_queue m todo e) = []"
  using assms
proof (induction todo arbitrary: e)
  case Nil
  then show ?case by simp
next
  case (Cons s rest)
  let ?e = "explore_state m s (e\<lparr>ex_queue := rest\<rparr>)"
  have inv: "tree_store_inv (ex_store (e\<lparr>ex_queue := rest\<rparr>))"
    using Cons.prems by simp
  obtain n1 where n1: "stored ?e = stored e @ n1" "ex_queueNew ?e = ex_queueNew e @ n1"
    "ex_queue ?e = rest"
    using explore_state_grows(2) [OF inv, of m s] by auto
  obtain n2 where "stored (explore_queue m rest ?e) = stored ?e @ n2"
    "ex_queueNew (explore_queue m rest ?e) = ex_queueNew ?e @ n2"
    "ex_queue (explore_queue m rest ?e) = []"
    using Cons.IH [OF explore_state_grows(1) [OF inv] n1(3)] by auto
  with n1 show ?case by auto
qed

lemma explore_level_props:
  assumes "search_inv m [] e" and "ex_queue e = []"
  shows "search_inv m [] (explore_level m e)" and "ex_queue (explore_level m e) = []"
    and "\<exists>news. stored (explore_level m e) = stored e @ news \<and> ex_queueNew (explore_level m e) = news"
proof -
  let ?e = "e\<lparr>ex_queue := ex_queueNew e, ex_queueNew := []\<rparr>"
  have lvl: "explore_level m e = explore_queue m (ex_queueNew e) ?e"
    using assms(2) by (simp add: explore_level_def Let_def)
  show "search_inv m [] (explore_level m e)"
    using search_inv_queue [OF search_inv_swap [OF assms]] by (simp add: lvl)
  have "tree_store_inv (ex_store ?e)"
    using assms(1) by (simp add: search_inv_def)
  from explore_queue_grows [OF this, of "ex_queueNew e" m]
  show "ex_queue (explore_level m e) = []"
    and "\<exists>news. stored (explore_level m e) = stored e @ news \<and> ex_queueNew (explore_level m e) = news"
    by (auto simp: lvl)
qed

lemma stored_distinct: "tree_store_inv db \<Longrightarrow> distinct (tree_contents t db)"
  by (auto simp: tree_contents_def ts_contents_def tree_store_inv_def list_all_length type_store_inv_def)

lemma search_inv_card:
  assumes "search_inv m todo e" and "finite (reachable_states m)"
  shows "length (stored e) \<le> card (reachable_states m)"
proof -
  have "length (stored e) = card (set (stored e))"
    using assms(1) stored_distinct by (simp add: search_inv_def distinct_card)
  also have "\<dots> \<le> card (reachable_states m)"
    using assms by (intro card_mono) (simp_all add: search_inv_def)
  finally show ?thesis .
qed

lemma explore_levels_total:
  assumes "finite (reachable_states m)" and "search_inv m [] e" and "ex_queue e = []"
  shows "\<exists>e'. explore_levels m e = Some e' \<and> search_inv m [] e' \<and> ex_queueNew e' = []"
  using assms(2,3)
proof (induction "card (reachable_states m) - length (stored e)" arbitrary: e rule: less_induct)
  case less
  let ?e = "explore_level m e"
  note p = explore_level_props [OF less.prems]
  obtain news where news: "stored ?e = stored e @ news" "ex_queueNew ?e = news"
    using p(3) by auto
  show ?case
  proof (cases "news = []")
    case True
    with p(1) news show ?thesis
      by (simp add: explore_levels.simps Let_def)
  next
    case False
    then have "length (stored e) < length (stored ?e)"
      using news(1) by simp
    moreover have "length (stored ?e) \<le> card (reachable_states m)"
      using search_inv_card [OF p(1) assms(1)] .
    ultimately have "card (reachable_states m) - length (stored ?e)
        < card (reachable_states m) - length (stored e)"
      by linarith
    from less.hyps [OF this p(1,2)] False news(2) show ?thesis
      by (simp add: explore_levels.simps [of m e] Let_def)
  qed
qed

lemma explorer_start_inv:
  assumes "ti_wf (pm_init m)"
  shows "search_inv m [] (explorer_start m)" and "ex_queue (explorer_start m) = []"
proof -
  have wf: "ti_wf (type_instance_clone (getInitial m))"
    and data: "ti_data (type_instance_clone (getInitial m)) = ti_data (getInitial m)"
    using assms by (simp_all add: getInitial_def)
  note p = tree_store_insert_props [where db = tree_store_new and type = 0, OF tree_store_new_inv wf]
  from p(1,2,8) data reachable_states.initial [of m]
  show "search_inv m [] (explorer_start m)" "ex_queue (explorer_start m) = []"
    by (simp_all add: search_inv_def explorer_start_def Let_def)
qed

lemma search_inv_final:
  assumes "search_inv m [] e" and "ex_queueNew e = []"
  shows "set (stored e) = reachable_states m"
proof
  show "set (stored e) \<subseteq> reachable_states m"
    using assms(1) by (simp add: search_inv_def)
  show "reachable_states m \<subseteq> set (stored e)"
  proof
    fix s assume "s \<in> reachable_states m"
    then show "s \<in> set (stored e)"
      using assms by (induction rule: reachable_states.induct) (auto simp: search_inv_def)
  qed
qed

section \<open>Properties\<close>

definition two_state_model :: pins_model where
  "two_state_model = \<lparr>pm_length = 1, pm_tgroups = 1, pm_init = type_instance_new [0] False,
     pm_getnext = (\<lambda>tg s. if s = [0] then [[1]] else [[0]])\<rparr>"

lemma two_state_model_reachable: "finite (reachable_states two_state_model)"
proof (rule finite_subset)
  show "reachable_states two_state_model \<subseteq> {[0], [1]}"
  proof
    fix s assume "s \<in> reachable_states two_state_model"
    then show "s \<in> {[0], [1]}"
      by (induction rule: reachable_states.induct)
        (auto simp: two_state_model_def getInitial_def getNextAll_def split: if_splits)
  qed
qed simp

text \<open>C11: The breadth-first search of \<open>ssgen_st::go\<close> returns whenever the reachable state space
  is finite, and then the type-0 numbering of the tree store holds exactly the reachable
  states, each once, while \<open>_transitions\<close> holds the number of reported transitions (modulo
  the width of the counter).\<close>

theorem ssgen_st_go_correct:
  assumes "finite (reachable_states m)" and "ti_wf (pm_init m)"
  shows "\<exists>e. ssgen_st_go m = Some e \<and> set (stored e) = reachable_states m \<and> distinct (stored e)
    \<and> ex_transitions e = of_nat (\<Sum>s \<in> reachable_states m. length (getNextAll m s))"
proof -
  obtain e where e: "ssgen_st_go m = Some e" "search_inv m [] e" "ex_queueNew e = []"
    using explore_levels_total [OF assms(1) explorer_start_inv [OF assms(2)]]
    by (auto simp: ssgen_st_go_def)
  with search_inv_final [OF e(2,3)] show ?thesis
    using stored_distinct [of "ex_store e" 0] by (auto simp: search_inv_def)
qed

theorem ssgen_st_go_correct_witness:
  "\<exists>e. ssgen_st_go two_state_model = Some e
    \<and> set (stored e) = reachable_states two_state_model \<and> distinct (stored e)
    \<and> ex_transitions e = of_nat (\<Sum>s \<in> reachable_states two_state_model.
        length (getNextAll two_state_model s))"
  using ssgen_st_go_correct [OF two_state_model_reachable] by (simp add: two_state_model_def)

end
