(* ===== verification/Explorer_MT.thy ===== *)
theory Explorer_MT
  imports Explorer
begin

text \<open>
  The multi-threaded search \<open>ssgen_mt\<close> of include/llmc/ssgen.h as a step relation.  Four
  workers share the tree store, one queue and the mutex of the queue.  \<open>getNextQueuedState\<close>
  takes the mutex, looks at the queue, and gives the mutex back when it returns; the push in
  \<open>reportTransition\<close> is done without the mutex.  An access to the queue is not atomic: it
  begins in one step of the worker and ends in another, and other workers run in between.
  When two workers are inside the queue at once (\<open>racing\<close>), the behaviour of the program is
  undefined and the relation has no further steps.  The insertion into the tree store is one
  step: the type store has a lock of its own.
\<close>

datatype worker =
    Fetching
  | Locked
  | Popping
  | Fetched "bytes option"
  | Exploring bytes "bytes list"
  | Inserted bytes bytes "bytes list"
  | Queueing bytes bytes "bytes list"
  | Exited

record explorer_mt =
  mt_store :: tree_store
  mt_queueNew :: "bytes list"
  mt_transitions :: u32
  mt_mutex :: "nat option"
  mt_workers :: "worker list"

definition explorer_mt_start :: "pins_model \<Rightarrow> explorer_mt" where
  "explorer_mt_start m =
     (let init = getInitial m;
          res = tree_store_insert 0 (type_instance_clone init) tree_store_new
      in \<lparr>mt_store = snd res, mt_queueNew = [ti_data (fst (fst res))], mt_transitions = 0,
          mt_mutex = None, mt_workers = replicate 4 Fetching\<rparr>)"

text \<open>The body of \<open>getNextQueuedState\<close>, under the mutex.\<close>

definition getNextQueuedState :: "explorer_mt \<Rightarrow> bytes option \<times> explorer_mt" where
  "getNextQueuedState e =
     (case mt_queueNew e of
        [] \<Rightarrow> (None, e)
      | s # rest \<Rightarrow> (Some s, e\<lparr>mt_queueNew := rest\<rparr>))"

definition set_worker :: "nat \<Rightarrow> worker \<Rightarrow> explorer_mt \<Rightarrow> explorer_mt" where
  "set_worker i w e = e\<lparr>mt_workers := (mt_workers e)[i := w]\<rparr>"

text \<open>The workers that are inside an operation of the queue.\<close>

fun in_queue :: "worker \<Rightarrow> bool" where
  "in_queue Popping = True"
| "in_queue (Queueing s t ts) = True"
| "in_queue _ = False"

definition racing :: "explorer_mt \<Rightarrow> bool" where
  "racing e \<longleftrightarrow> 2 \<le> length (filter in_queue (mt_workers e))"

text \<open>The next step of worker \<open>i\<close>, if it has one: a worker waits while the mutex is taken.\<close>

definition worker_step :: "pins_model \<Rightarrow> nat \<Rightarrow> explorer_mt \<Rightarrow> explorer_mt option" where
  "worker_step m i e =
     (case mt_workers e ! i of
        Fetching \<Rightarrow>
          if mt_mutex e = None then Some (set_worker i Locked (e\<lparr>mt_mutex := Some i\<rparr>)) else None
      | Locked \<Rightarrow> Some (set_worker i Popping e)
      | Popping \<Rightarrow> (let (current, e') = getNextQueuedState e in Some (set_worker i (Fetched current) e'))
      | Fetched current \<Rightarrow>
          Some (set_worker i
            (case current of None \<Rightarrow> Exited | Some s \<Rightarrow> Exploring s (getNextAll m s))
            (e\<lparr>mt_mutex := None\<rparr>))
      | Exploring s [] \<Rightarrow> Some (set_worker i Fetching e)
      | Exploring s (t # ts) \<Rightarrow>
          (let ((ti, new), db) = tree_store_insert 0 (type_instance_new t True) (mt_store e)
           in Some (set_worker i (if new then Inserted s (ti_data ti) ts else Exploring s ts)
                (e\<lparr>mt_store := db, mt_transitions := mt_transitions e + 1\<rparr>)))
      | Inserted s t ts \<Rightarrow> Some (set_worker i (Queueing s t ts) e)
      | Queueing s t ts \<Rightarrow> Some (set_worker i (Exploring s ts) (e\<lparr>mt_queueNew := mt_queueNew e @ [t]\<rparr>))
      | Exited \<Rightarrow> None)"

inductive mt_step :: "pins_model \<Rightarrow> explorer_mt \<Rightarrow> explorer_mt \<Rightarrow> bool" for m :: pins_model where
  work: "\<not> racing e \<Longrightarrow> i < length (mt_workers e) \<Longrightarrow> worker_step m i e = Some e' \<Longrightarrow> mt_step m e e'"

inductive_cases mt_stepE: "mt_step m e e'"

inductive mt_reachable :: "pins_model \<Rightarrow> explorer_mt \<Rightarrow> bool" for m :: pins_model where
  start: "mt_reachable m (explorer_mt_start m)"
| step: "mt_reachable m e \<Longrightarrow> mt_step m e e' \<Longrightarrow> mt_reachable m e'"

text \<open>A schedule names the worker of every step.\<close>

fun run_schedule :: "pins_model \<Rightarrow> nat list \<Rightarrow> explorer_mt \<Rightarrow> explorer_mt option" where
  "run_schedule m [] e = Some e"
| "run_schedule m (i # is) e =
     (if racing e \<or> length (mt_workers e) \<le> i then None
      else Option.bind (worker_step m i e) (run_schedule m is))"

lemma run_schedule_reachable:
  "run_schedule m is e = Some e' \<Longrightarrow> mt_reachable m e \<Longrightarrow> mt_reachable m e'"
proof (induction "is" arbitrary: e)
  case (Cons i "is")
  then obtain e1 where "worker_step m i e = Some e1" "\<not> racing e" "i < length (mt_workers e)"
      "run_schedule m is e1 = Some e'"
    by (auto simp: bind_eq_Some_conv split: if_splits)
  with Cons.IH Cons.prems(2) show ?case
    by (meson mt_reachable.step mt_step.work)
qed simp

subsection \<open>The invariant of the parallel search\<close>

abbreviation mt_stored :: "explorer_mt \<Rightarrow> bytes set" where
  "mt_stored e \<equiv> set (tree_contents 0 (mt_store e))"

fun pending :: "worker \<Rightarrow> bytes set" where
  "pending (Inserted s t ts) = {t}"
| "pending (Queueing s t ts) = {t}"
| "pending _ = {}"

fun in_progress :: "worker \<Rightarrow> bytes set" where
  "in_progress (Fetched (Some s)) = {s}"
| "in_progress (Exploring s ts) = {s}"
| "in_progress (Inserted s t ts) = {s}"
| "in_progress (Queueing s t ts) = {s}"
| "in_progress _ = {}"

text \<open>What a worker still owes: it explores a stored state, and every successor of that state
  is stored already or still on the worker's list.\<close>

abbreviation owes_rest :: "pins_model \<Rightarrow> bytes set \<Rightarrow> bytes \<Rightarrow> bytes list \<Rightarrow> bool" where
  "owes_rest m S s ts \<equiv>
     s \<in> S \<and> set (getNextAll m s) \<subseteq> S \<union> set ts \<and> set ts \<subseteq> set (getNextAll m s)"

fun worker_ok :: "pins_model \<Rightarrow> bytes set \<Rightarrow> worker \<Rightarrow> bool" where
  "worker_ok m S (Fetched (Some s)) = (s \<in> S)"
| "worker_ok m S (Exploring s ts) = owes_rest m S s ts"
| "worker_ok m S (Inserted s t ts) = (t \<in> S \<and> owes_rest m S s ts)"
| "worker_ok m S (Queueing s t ts) = (t \<in> S \<and> owes_rest m S s ts)"
| "worker_ok m S _ = True"

text \<open>A worker that has seen the empty queue leaves its loop.\<close>

definition leaving :: "worker \<Rightarrow> bool" where
  "leaving w \<longleftrightarrow> w = Exited \<or> w = Fetched None"

definition open_states :: "explorer_mt \<Rightarrow> bytes set" where
  "open_states e = set (mt_queueNew e) \<union> \<Union> (pending ` set (mt_workers e))
     \<union> \<Union> (in_progress ` set (mt_workers e))"

definition mt_inv :: "pins_model \<Rightarrow> explorer_mt \<Rightarrow> bool" where
  "mt_inv m e \<longleftrightarrow>
     tree_store_inv (mt_store e)
     \<and> ti_data (getInitial m) \<in> mt_stored e
     \<and> mt_stored e \<subseteq> reachable_states m
     \<and> set (mt_queueNew e) \<subseteq> mt_stored e
     \<and> (\<forall>w \<in> set (mt_workers e). worker_ok m (mt_stored e) w)
     \<and> (\<forall>s \<in> mt_stored e - open_states e. set (getNextAll m s) \<subseteq> mt_stored e)
     \<and> ((\<forall>w \<in> set (mt_workers e). leaving w) \<longrightarrow> mt_queueNew e = [])"

lemma worker_ok_mono: "worker_ok m S w \<Longrightarrow> S \<subseteq> T \<Longrightarrow> worker_ok m T w"
  by (cases "(m, S, w)" rule: worker_ok.cases) auto

lemma mt_start_inv:
  assumes "ti_wf (pm_init m)"
  shows "mt_inv m (explorer_mt_start m)"
proof -
  have wf: "ti_wf (type_instance_clone (getInitial m))"
    and data: "ti_data (type_instance_clone (getInitial m)) = ti_data (getInitial m)"
    using assms by (simp_all add: getInitial_def)
  note p = tree_store_insert_props [where db = tree_store_new and type = 0, OF tree_store_new_inv wf]
  from p(1,2,8) data reachable_states.initial [of m] show ?thesis
    by (simp add: mt_inv_def explorer_mt_start_def Let_def open_states_def leaving_def)
qed

text \<open>The workers other than the stepping one, as a set: the steps change one slot.\<close>

lemma worker_slot:
  assumes "i < length ws"
  obtains R where "set ws = insert (ws ! i) R" and "\<And>w. set (ws[i := w]) = insert w R"
proof -
  let ?R = "set (take i ws) \<union> set (drop (Suc i) ws)"
  have ws: "ws = take i ws @ ws ! i # drop (Suc i) ws"
    using assms by (simp add: id_take_nth_drop)
  have "set ws = insert (ws ! i) ?R"
    by (subst ws) auto
  moreover have "set (ws[i := w]) = insert w ?R" for w
    using assms by (simp add: upd_conv_take_nth_drop)
  ultimately show thesis by (rule that)
qed

lemma worker_step_inv:
  assumes i: "i < length (mt_workers e)" and st: "worker_step m i e = Some e'" and inv: "mt_inv m e"
  shows "mt_inv m e'"
proof -
  obtain R where R: "set (mt_workers e) = insert (mt_workers e ! i) R"
      "\<And>w. set ((mt_workers e)[i := w]) = insert w R"
    using worker_slot [OF i] by metis
  note defs = mt_inv_def set_worker_def open_states_def leaving_def worker_step_def
  show ?thesis
  proof (cases "mt_workers e ! i")
    case Fetching
    then have e': "e' = set_worker i Locked (e\<lparr>mt_mutex := Some i\<rparr>)"
      using st by (simp add: worker_step_def split: if_splits)
    show ?thesis
      using inv R unfolding e' Fetching by (auto simp: defs)
  next
    case Locked
    then have e': "e' = set_worker i Popping e"
      using st by (simp add: worker_step_def)
    show ?thesis
      using inv R unfolding e' Locked by (auto simp: defs)
  next
    case Popping
    show ?thesis
    proof (cases "mt_queueNew e")
      case Nil
      then have e': "e' = set_worker i (Fetched None) e"
        using st Popping by (simp add: worker_step_def getNextQueuedState_def)
      show ?thesis
        using inv R Nil unfolding e' Popping by (auto simp: defs)
    next
      case (Cons s rest)
      then have e': "e' = set_worker i (Fetched (Some s)) (e\<lparr>mt_queueNew := rest\<rparr>)"
        using st Popping by (simp add: worker_step_def getNextQueuedState_def)
      show ?thesis
        using inv R Cons unfolding e' Popping by (auto simp: defs)
    qed
  next
    case (Fetched current)
    show ?thesis
    proof (cases current)
      case None
      then have e': "e' = set_worker i Exited (e\<lparr>mt_mutex := None\<rparr>)"
        using st Fetched by (simp add: worker_step_def)
      show ?thesis
        using inv R None unfolding e' Fetched by (auto simp: defs)
    next
      case (Some s)
      then have e': "e' = set_worker i (Exploring s (getNextAll m s)) (e\<lparr>mt_mutex := None\<rparr>)"
        using st Fetched by (simp add: worker_step_def)
      show ?thesis
        using inv R Some unfolding e' Fetched by (auto simp: defs)
    qed
  next
    case (Exploring s ts)
    show ?thesis
    proof (cases ts)
      case Nil
      then have e': "e' = set_worker i Fetching e"
        using st Exploring by (simp add: worker_step_def)
      show ?thesis
        using inv R Nil unfolding e' Exploring by (auto simp: defs)
    next
      case (Cons t ts')
      obtain ti new db where ins: "tree_store_insert 0 (type_instance_new t True) (mt_store e) = ((ti, new), db)"
        by (metis prod.exhaust)
      have e': "e' = set_worker i (if new then Inserted s (ti_data ti) ts' else Exploring s ts')
          (e\<lparr>mt_store := db, mt_transitions := mt_transitions e + 1\<rparr>)"
        using st Exploring Cons ins by (simp add: worker_step_def)
      note props = tree_store_insert_props [where db = "mt_store e" and type = 0
          and ti = "type_instance_new t True"]
      show ?thesis
      proof (cases new)
        case True
        have db: "tree_store_inv db" "tree_contents 0 db = tree_contents 0 (mt_store e) @ [t]" "ti_data ti = t"
          using props ins inv True by (auto simp: mt_inv_def split: if_splits)
        have "t \<in> reachable_states m"
          using inv R(1) Exploring Cons by (auto simp: mt_inv_def intro: reachable_states.step)
        moreover have "\<forall>w \<in> R. worker_ok m (mt_stored e \<union> {t}) w"
          using inv R(1) by (auto simp: mt_inv_def intro: worker_ok_mono)
        ultimately show ?thesis
          using inv R db True Cons unfolding e' Exploring by (auto simp: defs)
      next
        case False
        have "tree_store_inv db" "t \<in> mt_stored e" "tree_contents 0 db = tree_contents 0 (mt_store e)"
          using props ins inv False by (auto simp: mt_inv_def split: if_splits)
        then show ?thesis
          using inv R Cons False unfolding e' Exploring by (auto simp: defs)
      qed
    qed
  next
    case (Inserted s t ts)
    then have e': "e' = set_worker i (Queueing s t ts) e"
      using st by (simp add: worker_step_def)
    show ?thesis
      using inv R unfolding e' Inserted by (auto simp: defs)
  next
    case (Queueing s t ts)
    then have e': "e' = set_worker i (Exploring s ts) (e\<lparr>mt_queueNew := mt_queueNew e @ [t]\<rparr>)"
      using st by (simp add: worker_step_def)
    show ?thesis
      using inv R unfolding e' Queueing by (auto simp: defs)
  next
    case Exited
    then show ?thesis
      using st by (simp add: worker_step_def)
  qed
qed

lemma mt_reachable_inv: "mt_reachable m e \<Longrightarrow> ti_wf (pm_init m) \<Longrightarrow> mt_inv m e"
  by (induction rule: mt_reachable.induct) (auto intro: mt_start_inv worker_step_inv elim!: mt_stepE)

lemma mt_inv_exited:
  assumes inv: "mt_inv m e" and exited: "\<forall>w \<in> set (mt_workers e). w = Exited"
  shows "mt_stored e = reachable_states m"
proof
  show "mt_stored e \<subseteq> reachable_states m"
    using inv by (simp add: mt_inv_def)
  have "mt_queueNew e = []"
    using inv exited by (simp add: mt_inv_def leaving_def)
  moreover have "\<Union> (pending ` set (mt_workers e)) = {}" "\<Union> (in_progress ` set (mt_workers e)) = {}"
    using exited by auto
  ultimately have "open_states e = {}"
    by (simp add: open_states_def)
  with inv have closed: "\<forall>s \<in> mt_stored e. set (getNextAll m s) \<subseteq> mt_stored e"
    by (simp add: mt_inv_def)
  show "reachable_states m \<subseteq> mt_stored e"
  proof
    fix s assume "s \<in> reachable_states m"
    then show "s \<in> mt_stored e"
      using inv closed by (induction rule: reachable_states.induct) (auto simp: mt_inv_def)
  qed
qed

subsection \<open>The mutex\<close>

fun holds :: "worker \<Rightarrow> bool" where
  "holds Locked = True"
| "holds Popping = True"
| "holds (Fetched current) = True"
| "holds _ = False"

text \<open>The mutex is taken exactly by the worker between its lock and its unlock.\<close>

definition mutex_inv :: "explorer_mt \<Rightarrow> bool" where
  "mutex_inv e \<longleftrightarrow>
     (\<forall>i < length (mt_workers e). holds (mt_workers e ! i) \<longleftrightarrow> mt_mutex e = Some i)
     \<and> (\<forall>i. mt_mutex e = Some i \<longrightarrow> i < length (mt_workers e))"

lemma worker_step_mutex:
  assumes "i < length (mt_workers e)" and "worker_step m i e = Some e'" and "mutex_inv e"
  shows "mutex_inv e'"
proof -
  obtain w where w: "mt_workers e' = (mt_workers e)[i := w]"
    "if holds w then mt_mutex e' = Some i \<and> (holds (mt_workers e ! i) \<or> mt_mutex e = None)
     else mt_mutex e' = (if holds (mt_workers e ! i) then None else mt_mutex e)"
    using assms
    by (auto simp: mutex_inv_def worker_step_def set_worker_def getNextQueuedState_def
        split: worker.splits if_splits list.splits option.splits prod.splits)
  show ?thesis
  proof (cases "holds w")
    case True
    with w assms(1,3) show ?thesis
      by (auto simp: mutex_inv_def nth_list_update)
  next
    case False
    show ?thesis
    proof (cases "holds (mt_workers e ! i)")
      case True
      then have "mt_mutex e = Some i"
        using assms(1,3) by (simp add: mutex_inv_def)
      with True False w assms(1,3) show ?thesis
        by (auto simp: mutex_inv_def nth_list_update)
    next
      case other: False
      then have "mt_mutex e \<noteq> Some i"
        using assms(1,3) by (simp add: mutex_inv_def)
      with other False w assms(1,3) show ?thesis
        by (auto simp: mutex_inv_def nth_list_update)
    qed
  qed
qed

lemma mt_reachable_mutex: "mt_reachable m e \<Longrightarrow> mutex_inv e"
proof (induction rule: mt_reachable.induct)
  case start
  show ?case
    by (auto simp: mutex_inv_def explorer_mt_start_def Let_def nth_Cons split: nat.splits)
next
  case (step e e')
  then show ?case
    by (auto elim!: mt_stepE intro: worker_step_mutex)
qed

text \<open>A worker that waits for the mutex waits for a worker that can run.\<close>

lemma worker_enabled:
  assumes "mutex_inv e" and "w \<in> set (mt_workers e)" and "w \<noteq> Exited"
  shows "\<exists>i < length (mt_workers e). worker_step m i e \<noteq> None"
proof -
  from assms(2) obtain i where i: "i < length (mt_workers e)" "mt_workers e ! i = w"
    by (auto simp: in_set_conv_nth)
  have runs: "worker_step m j e \<noteq> None" if "mt_workers e ! j \<noteq> Fetching" "mt_workers e ! j \<noteq> Exited" for j
    using that by (auto simp: worker_step_def split: worker.splits list.splits prod.splits)
  show ?thesis
  proof (cases "mt_mutex e")
    case None
    then have "worker_step m i e \<noteq> None"
      using runs [of i] i(2) assms(3) by (cases "w = Fetching") (auto simp: worker_step_def)
    with i(1) show ?thesis by blast
  next
    case (Some j)
    then have "j < length (mt_workers e)" "holds (mt_workers e ! j)"
      using assms(1) by (auto simp: mutex_inv_def)
    moreover from this(2) have "mt_workers e ! j \<noteq> Fetching" "mt_workers e ! j \<noteq> Exited"
      by auto
    ultimately show ?thesis
      using runs by blast
  qed
qed

subsection \<open>The work that is left\<close>

fun worker_left :: "pins_model \<Rightarrow> worker \<Rightarrow> nat" where
  "worker_left m Fetching = 4"
| "worker_left m Locked = 3"
| "worker_left m Popping = 2"
| "worker_left m (Fetched None) = 1"
| "worker_left m (Fetched (Some s)) = 3 * length (getNextAll m s) + 6"
| "worker_left m (Exploring s ts) = 3 * length ts + 5"
| "worker_left m (Inserted s t ts) = 3 * length ts + 7"
| "worker_left m (Queueing s t ts) = 3 * length ts + 6"
| "worker_left m Exited = 0"

definition work_left :: "pins_model \<Rightarrow> explorer_mt \<Rightarrow> nat \<times> nat \<times> nat" where
  "work_left m e =
     (card (reachable_states m - mt_stored e),
      length (mt_queueNew e) + (\<Sum>w\<leftarrow>mt_workers e. card (pending w)),
      (\<Sum>w\<leftarrow>mt_workers e. worker_left m w))"

lemma sum_list_slot:
  fixes f :: "'a \<Rightarrow> nat"
  assumes "i < length xs"
  obtains r where "(\<Sum>x\<leftarrow>xs. f x) = f (xs ! i) + r" and "\<And>y. (\<Sum>x\<leftarrow>xs[i := y]. f x) = f y + r"
proof -
  let ?r = "(\<Sum>x\<leftarrow>take i xs. f x) + (\<Sum>x\<leftarrow>drop (Suc i) xs. f x)"
  have "(\<Sum>x\<leftarrow>xs. f x) = f (xs ! i) + ?r"
    by (subst id_take_nth_drop [OF assms]) simp
  moreover have "(\<Sum>x\<leftarrow>xs[i := y]. f x) = f y + ?r" for y
    using assms by (simp add: upd_conv_take_nth_drop)
  ultimately show thesis by (rule that)
qed

text \<open>Every step makes it smaller: a worker stores a new state, takes one from the queue, or
  goes on.\<close>

lemma worker_step_work:
  assumes i: "i < length (mt_workers e)" and st: "worker_step m i e = Some e'"
    and inv: "mt_inv m e" and fin: "finite (reachable_states m)"
  shows "(work_left m e', work_left m e) \<in> less_than <*lex*> less_than <*lex*> less_than"
proof -
  obtain p where p: "(\<Sum>w\<leftarrow>mt_workers e. card (pending w)) = card (pending (mt_workers e ! i)) + p"
      "\<And>w. (\<Sum>w\<leftarrow>(mt_workers e)[i := w]. card (pending w)) = card (pending w) + p"
    using sum_list_slot [OF i, of "\<lambda>w. card (pending w)"] by metis
  obtain r where r: "(\<Sum>w\<leftarrow>mt_workers e. worker_left m w) = worker_left m (mt_workers e ! i) + r"
      "\<And>w. (\<Sum>w\<leftarrow>(mt_workers e)[i := w]. worker_left m w) = worker_left m w + r"
    using sum_list_slot [OF i, of "worker_left m"] by metis
  note sums = p r
  have sub: "mt_stored e' \<subseteq> reachable_states m"
    using worker_step_inv [OF i st inv] by (simp add: mt_inv_def)
  show ?thesis
  proof (cases "\<exists>s t ts. mt_workers e ! i = Exploring s (t # ts)")
    case False
    then show ?thesis
      using st sums
      by (auto simp: worker_step_def set_worker_def getNextQueuedState_def work_left_def
          split: worker.splits if_splits list.splits option.splits)
  next
    case True
    then obtain s t ts where w: "mt_workers e ! i = Exploring s (t # ts)" by blast
    obtain ti new db where ins: "tree_store_insert 0 (type_instance_new t True) (mt_store e) = ((ti, new), db)"
      by (metis prod.exhaust)
    have e': "e' = set_worker i (if new then Inserted s (ti_data ti) ts else Exploring s ts)
        (e\<lparr>mt_store := db, mt_transitions := mt_transitions e + 1\<rparr>)"
      using st w ins by (simp add: worker_step_def)
    have db: "new \<longleftrightarrow> t \<notin> mt_stored e"
      "set (tree_contents 0 db) = insert t (mt_stored e)"
      using tree_store_insert_props [where db = "mt_store e" and type = 0
          and ti = "type_instance_new t True"] ins inv
      by (auto simp: mt_inv_def split: if_splits)
    show ?thesis
    proof (cases new)
      case True
      with db have "t \<in> reachable_states m - mt_stored e" "mt_stored e' = insert t (mt_stored e)"
        using sub by (auto simp: e' set_worker_def)
      then have "reachable_states m - mt_stored e' \<subset> reachable_states m - mt_stored e"
        by auto
      with fin have "card (reachable_states m - mt_stored e') < card (reachable_states m - mt_stored e)"
        by (simp add: psubset_card_mono)
      then show ?thesis by (simp add: work_left_def)
    next
      case False
      with db have "mt_stored e' = mt_stored e"
        by (auto simp: e' set_worker_def)
      then show ?thesis
        using sums w False by (simp add: work_left_def e' set_worker_def)
    qed
  qed
qed

lemma mt_no_infinite_run:
  assumes "ti_wf (pm_init m)" and "finite (reachable_states m)"
    and "f 0 = explorer_mt_start m" and steps: "\<And>n. mt_step m (f n) (f (Suc n))"
  shows False
proof -
  have reach: "mt_reachable m (f n)" for n
    by (induction n) (auto simp: assms(3) intro: mt_reachable.intros steps)
  have down: "(work_left m (f (Suc n)), work_left m (f n)) \<in> less_than <*lex*> less_than <*lex*> less_than" for n
    using steps [of n] mt_reachable_inv [OF reach assms(1)] assms(2)
    by (auto elim!: mt_stepE intro: worker_step_work)
  have "wf (less_than <*lex*> less_than <*lex*> less_than)"
    by (intro wf_lex_prod wf_less_than)
  then show False
    using down unfolding wf_iff_no_infinite_down_chain
    by (elim notE) (rule exI [of _ "\<lambda>n. work_left m (f n)"], simp)
qed

subsection \<open>The race for the queue\<close>

text \<open>One worker explores while the others wait: it comes to the first new state and begins to
  queue it.\<close>

lemma queueing_reached:
  assumes "mt_reachable m e" and "ti_wf (pm_init m)" and "mt_mutex e = None"
    and "mt_workers e = [Exploring s ts, Fetching, Fetching, Fetching]"
    and "\<exists>t \<in> set ts. t \<notin> mt_stored e"
  shows "\<exists>e' t ts'. mt_reachable m e' \<and> mt_mutex e' = None
    \<and> mt_workers e' = [Queueing s t ts', Fetching, Fetching, Fetching]"
  using assms
proof (induction ts arbitrary: e)
  case (Cons t ts)
  obtain ti new db where ins: "tree_store_insert 0 (type_instance_new t True) (mt_store e) = ((ti, new), db)"
    by (metis prod.exhaust)
  have db: "new \<longleftrightarrow> t \<notin> mt_stored e" "set (tree_contents 0 db) = insert t (mt_stored e)"
    using tree_store_insert_props [where db = "mt_store e" and type = 0
        and ti = "type_instance_new t True"] ins mt_reachable_inv [OF Cons.prems(1,2)]
    by (auto simp: mt_inv_def split: if_splits)
  let ?e = "set_worker 0 (if new then Inserted s (ti_data ti) ts else Exploring s ts)
        (e\<lparr>mt_store := db, mt_transitions := mt_transitions e + 1\<rparr>)"
  have "worker_step m 0 e = Some ?e" "\<not> racing e"
    using Cons.prems(4) ins by (simp_all add: worker_step_def racing_def)
  then have reach: "mt_reachable m ?e"
    using Cons.prems(1,4) by (auto intro!: mt_reachable.step [OF Cons.prems(1)] mt_step.work)
  show ?case
  proof (cases new)
    case True
    then have "worker_step m 0 ?e = Some (set_worker 0 (Queueing s (ti_data ti) ts) ?e)" "\<not> racing ?e"
      using Cons.prems(4) by (simp_all add: worker_step_def racing_def set_worker_def)
    then have "mt_reachable m (set_worker 0 (Queueing s (ti_data ti) ts) ?e)"
      using Cons.prems(4) by (auto intro!: mt_reachable.step [OF reach] mt_step.work simp: set_worker_def)
    moreover have "mt_mutex (set_worker 0 (Queueing s (ti_data ti) ts) ?e) = None"
      "mt_workers (set_worker 0 (Queueing s (ti_data ti) ts) ?e)
         = [Queueing s (ti_data ti) ts, Fetching, Fetching, Fetching]"
      using Cons.prems(3,4) by (simp_all add: set_worker_def)
    ultimately show ?thesis by blast
  next
    case False
    with db Cons.prems(3,4,5) show ?thesis
      by (intro Cons.IH [OF reach Cons.prems(2)]) (auto simp: set_worker_def)
  qed
qed simp

lemma run_schedule_start:
  "run_schedule m is (explorer_mt_start m) = Some e \<Longrightarrow> mt_reachable m e"
  by (blast intro: run_schedule_reachable mt_reachable.start)

lemma exploring_reached:
  "\<exists>e. mt_reachable m e \<and> mt_mutex e = None \<and> mt_store e = mt_store (explorer_mt_start m)
    \<and> mt_workers e = [Exploring (hd (mt_queueNew (explorer_mt_start m)))
        (getNextAll m (hd (mt_queueNew (explorer_mt_start m)))), Fetching, Fetching, Fetching]"
proof -
  let ?run = "run_schedule m [0, 0, 0, 0] (explorer_mt_start m)"
  have "?run \<noteq> None"
    and "mt_mutex (the ?run) = None" and "mt_store (the ?run) = mt_store (explorer_mt_start m)"
    and "mt_workers (the ?run) = [Exploring (hd (mt_queueNew (explorer_mt_start m)))
        (getNextAll m (hd (mt_queueNew (explorer_mt_start m)))), Fetching, Fetching, Fetching]"
    by (simp_all add: explorer_mt_start_def Let_def worker_step_def set_worker_def racing_def
        getNextQueuedState_def numeral_eq_Suc)
  then show ?thesis
    using run_schedule_start by (metis option.collapse)
qed

section \<open>Properties\<close>

text \<open>A schedule of the search of two states: worker 0 finds the second state, worker 1 explores it.\<close>

definition two_state_schedule :: "nat list" where
  "two_state_schedule =
     concat [[0, 0, 0, 0], [0, 0, 0, 0], [1, 1, 1, 1], [1, 1], [0, 0, 0, 0], [1, 1, 1, 1], [2, 2, 2, 2],
       [3, 3, 3, 3]]"

lemma run_schedule_append:
  "run_schedule m is e = Some e1 \<Longrightarrow> run_schedule m js e1 = r \<Longrightarrow> run_schedule m (is @ js) e = r"
  by (induction "is" arbitrary: e) (auto simp: bind_eq_Some_conv split: if_splits)

lemma two_state_store:
  obtains db where "mt_store (explorer_mt_start two_state_model) = db"
    and "explorer_mt_start two_state_model = \<lparr>mt_store = db, mt_queueNew = [[0]], mt_transitions = 0,
      mt_mutex = None, mt_workers = [Fetching, Fetching, Fetching, Fetching]\<rparr>"
    and "tree_store_inv db" and "tree_contents 0 db = [[0]]"
proof (rule that [OF refl])
  have wf: "ti_wf (type_instance_clone (getInitial two_state_model))"
    and data: "ti_data (type_instance_clone (getInitial two_state_model)) = [0]"
    by (simp_all add: getInitial_def two_state_model_def)
  note p = tree_store_insert_props [where db = tree_store_new and type = 0, OF tree_store_new_inv wf]
  show "explorer_mt_start two_state_model
      = \<lparr>mt_store = mt_store (explorer_mt_start two_state_model), mt_queueNew = [[0]],
        mt_transitions = 0, mt_mutex = None, mt_workers = [Fetching, Fetching, Fetching, Fetching]\<rparr>"
    and "tree_store_inv (mt_store (explorer_mt_start two_state_model))"
    and "tree_contents 0 (mt_store (explorer_mt_start two_state_model)) = [[0]]"
    using p(1,2,8) data by (simp_all add: explorer_mt_start_def Let_def numeral_eq_Suc)
qed

lemma two_state_run:
  "\<exists>e. run_schedule two_state_model two_state_schedule (explorer_mt_start two_state_model) = Some e
    \<and> mt_workers e = [Exited, Exited, Exited, Exited]"
proof -
  obtain db where start: "explorer_mt_start two_state_model = \<lparr>mt_store = db, mt_queueNew = [[0]],
        mt_transitions = 0, mt_mutex = None, mt_workers = [Fetching, Fetching, Fetching, Fetching]\<rparr>"
      and db: "tree_store_inv db" "tree_contents 0 db = [[0]]"
    by (rule two_state_store)
  obtain ti new db' where new: "tree_store_insert 0 (type_instance_new [1] True) db = ((ti, new), db')"
    by (metis prod.exhaust)
  obtain ti' old db'' where old: "tree_store_insert 0 (type_instance_new [0] True) db' = ((ti', old), db'')"
    by (metis prod.exhaust)
  have ins: "new" "ti_data ti = [1]" "tree_store_inv db'" "tree_contents 0 db' = [[0], [1]]"
    using tree_store_insert_props [where db = db and type = 0 and ti = "type_instance_new [1] True"] new db
    by (auto split: if_splits)
  have "\<not> old"
    using tree_store_insert_props [where db = db' and type = 0 and ti = "type_instance_new [0] True"]
      old ins by (auto split: if_splits)
  have next_all: "getNextAll two_state_model [0] = [[1]]" "getNextAll two_state_model [1] = [[0]]"
    by (simp_all add: getNextAll_def two_state_model_def)
  let ?e = "\<lambda>st q k ws. \<lparr>mt_store = st, mt_queueNew = q, mt_transitions = k, mt_mutex = None,
      mt_workers = ws\<rparr>"
  let ?run = "run_schedule two_state_model"
  note step_simps = worker_step_def set_worker_def racing_def getNextQueuedState_def
  have 1: "?run [0, 0, 0, 0] (?e db [[0]] 0 [Fetching, Fetching, Fetching, Fetching])
      = Some (?e db [] 0 [Exploring [0] [[1]], Fetching, Fetching, Fetching])"
    by (simp add: step_simps next_all)
  have 2: "?run [0, 0, 0, 0] (?e db [] 0 [Exploring [0] [[1]], Fetching, Fetching, Fetching])
      = Some (?e db' [[1]] 1 [Fetching, Fetching, Fetching, Fetching])"
    by (simp add: step_simps new ins)
  have 3: "?run [1, 1, 1, 1] (?e db' [[1]] 1 [Fetching, Fetching, Fetching, Fetching])
      = Some (?e db' [] 1 [Fetching, Exploring [1] [[0]], Fetching, Fetching])"
    by (simp add: step_simps next_all)
  have 4: "?run [1, 1] (?e db' [] 1 [Fetching, Exploring [1] [[0]], Fetching, Fetching])
      = Some (?e db'' [] 2 [Fetching, Fetching, Fetching, Fetching])"
    by (simp add: step_simps old \<open>\<not> old\<close>)
  have 5: "?run [0, 0, 0, 0] (?e db'' [] 2 [Fetching, Fetching, Fetching, Fetching])
      = Some (?e db'' [] 2 [Exited, Fetching, Fetching, Fetching])"
    by (simp add: step_simps)
  have 6: "?run [1, 1, 1, 1] (?e db'' [] 2 [Exited, Fetching, Fetching, Fetching])
      = Some (?e db'' [] 2 [Exited, Exited, Fetching, Fetching])"
    by (simp add: step_simps)
  have 7: "?run [2, 2, 2, 2] (?e db'' [] 2 [Exited, Exited, Fetching, Fetching])
      = Some (?e db'' [] 2 [Exited, Exited, Exited, Fetching])"
    by (simp add: step_simps numeral_2_eq_2)
  have 8: "?run [3, 3, 3, 3] (?e db'' [] 2 [Exited, Exited, Exited, Fetching])
      = Some (?e db'' [] 2 [Exited, Exited, Exited, Exited])"
    by (simp add: step_simps numeral_3_eq_3)
  have "?run two_state_schedule (explorer_mt_start two_state_model)
      = Some (?e db'' [] 2 [Exited, Exited, Exited, Exited])"
    unfolding start two_state_schedule_def concat.simps
    by (intro run_schedule_append [OF 1] run_schedule_append [OF 2] run_schedule_append [OF 3]
        run_schedule_append [OF 4] run_schedule_append [OF 5] run_schedule_append [OF 6]
        run_schedule_append [OF 7] run_schedule_append [OF 8]) simp
  then show ?thesis by simp
qed

text \<open>C15: At every moment of the multi-threaded search the store holds the initial state and only
  reachable states, whatever the workers do between the steps of each other, and when all
  workers have left their loops (so that \<open>go\<close> joins them) it holds exactly the reachable
  states: no interleaving loses a state.  A run that comes to a race for the queue has no
  further steps here: the push without the mutex leaves its outcome undefined.\<close>

theorem ssgen_mt_complete:
  assumes "mt_reachable m e" and "ti_wf (pm_init m)"
  shows "ti_data (getInitial m) \<in> set (tree_contents 0 (mt_store e))
    \<and> set (tree_contents 0 (mt_store e)) \<subseteq> reachable_states m
    \<and> ((\<forall>w \<in> set (mt_workers e). w = Exited) \<longrightarrow> set (tree_contents 0 (mt_store e)) = reachable_states m)"
proof -
  have inv: "mt_inv m e"
    by (rule mt_reachable_inv [OF assms])
  then have "ti_data (getInitial m) \<in> mt_stored e" and "mt_stored e \<subseteq> reachable_states m"
    by (simp_all add: mt_inv_def)
  then show ?thesis
    using mt_inv_exited [OF inv] by blast
qed

theorem ssgen_mt_complete_witness:
  "\<exists>e. run_schedule two_state_model two_state_schedule (explorer_mt_start two_state_model) = Some e
    \<and> set (tree_contents 0 (mt_store e)) = reachable_states two_state_model"
proof -
  obtain e where e: "run_schedule two_state_model two_state_schedule (explorer_mt_start two_state_model) = Some e"
      "mt_workers e = [Exited, Exited, Exited, Exited]"
    using two_state_run by blast
  with ssgen_mt_complete [OF run_schedule_start [OF e(1)]] show ?thesis
    by (simp add: two_state_model_def)
qed

text \<open>C16: When the reachable states are finitely many, the workers cannot run for ever, and they stop
  only when all of them have left their loops or when two of them are inside the queue at once:
  no worker waits for a mutex that nobody gives back.\<close>

theorem ssgen_mt_terminates:
  assumes "ti_wf (pm_init m)" and "finite (reachable_states m)"
  shows "(\<nexists>f. f 0 = explorer_mt_start m \<and> (\<forall>n. mt_step m (f n) (f (Suc n))))
    \<and> (\<forall>e. mt_reachable m e \<and> (\<nexists>e'. mt_step m e e') \<longrightarrow> racing e \<or> (\<forall>w \<in> set (mt_workers e). w = Exited))"
proof (intro conjI allI impI)
  show "\<nexists>f. f 0 = explorer_mt_start m \<and> (\<forall>n. mt_step m (f n) (f (Suc n)))"
    using mt_no_infinite_run [OF assms] by blast
  fix e assume e: "mt_reachable m e \<and> (\<nexists>e'. mt_step m e e')"
  show "racing e \<or> (\<forall>w \<in> set (mt_workers e). w = Exited)"
  proof (rule ccontr)
    assume *: "\<not> (racing e \<or> (\<forall>w \<in> set (mt_workers e). w = Exited))"
    then obtain i where "i < length (mt_workers e)" "worker_step m i e \<noteq> None"
      using worker_enabled [of e _ m] mt_reachable_mutex [of m e] e by blast
    with * e show False
      by (auto intro: mt_step.work)
  qed
qed

theorem ssgen_mt_terminates_witness:
  "\<nexists>f. f 0 = explorer_mt_start two_state_model \<and> (\<forall>n. mt_step two_state_model (f n) (f (Suc n)))"
  using ssgen_mt_terminates [OF _ two_state_model_reachable] by (simp add: two_state_model_def)

text \<open>C17: The queue of the multi-threaded search is not protected: whenever the initial state has a
  successor other than itself, there is an interleaving in which one worker pushes that state
  on the queue while another, which holds the mutex, is inside \<open>getNextQueuedState\<close>.\<close>

theorem ssgen_mt_races:
  assumes "ti_wf (pm_init m)" and "t \<in> set (getNextAll m (ti_data (getInitial m)))"
    and "t \<noteq> ti_data (getInitial m)"
  shows "\<exists>e. mt_reachable m e \<and> racing e"
proof -
  have wf: "ti_wf (type_instance_clone (getInitial m))"
    and data: "ti_data (type_instance_clone (getInitial m)) = ti_data (getInitial m)"
    using assms(1) by (simp_all add: getInitial_def)
  note p = tree_store_insert_props [where db = tree_store_new and type = 0, OF tree_store_new_inv wf]
  have start: "hd (mt_queueNew (explorer_mt_start m)) = ti_data (getInitial m)"
    "mt_stored (explorer_mt_start m) = {ti_data (getInitial m)}"
    using p(1,2,8) data by (simp_all add: explorer_mt_start_def Let_def)
  obtain e where e: "mt_reachable m e" "mt_mutex e = None" "mt_stored e = {ti_data (getInitial m)}"
      "mt_workers e = [Exploring (ti_data (getInitial m)) (getNextAll m (ti_data (getInitial m))),
        Fetching, Fetching, Fetching]"
    using exploring_reached [of m] start by metis
  obtain e' s t ts where e': "mt_reachable m e'" "mt_mutex e' = None"
      "mt_workers e' = [Queueing s t ts, Fetching, Fetching, Fetching]"
    using queueing_reached [OF e(1) assms(1) e(2,4)] assms(2,3) e(3) by auto
  have "run_schedule m [1, 1] e' \<noteq> None" "racing (the (run_schedule m [1, 1] e'))"
    using e'(2,3) by (simp_all add: worker_step_def set_worker_def racing_def numeral_eq_Suc)
  then show ?thesis
    using run_schedule_reachable [OF _ e'(1)] by (metis option.collapse)
qed

theorem ssgen_mt_races_witness:
  "\<exists>e. mt_reachable two_state_model e \<and> racing e"
  by (rule ssgen_mt_races [of _ "[1]"])
    (simp_all add: two_state_model_def getInitial_def getNextAll_def)

end
