(* ===== verification/Hash_Table.thy ===== *)
theory Hash_Table
  imports Prelude
begin

text \<open>
  The hash table of include/llmc/treestore.h: slabs of memory that records are appended to,
  buckets with a chain of slabs, the table of 256 buckets, and \<open>TreeStore_2\<close>.  The operations of
  one thread.  What \<open>new\<close> gives for a slab, its address and what the memory holds, is a parameter:
  \<open>mem k\<close> for the slab with number \<open>k\<close> of a bucket, by the number of the bucket in a table and
  by the type in a tree store.
\<close>

section \<open>Calls that may fail or not return\<close>

definition then_do :: "'a outcome option \<Rightarrow> ('a \<Rightarrow> 'b outcome option) \<Rightarrow> 'b outcome option" where
  "then_do x f = Option.bind x (\<lambda>r. case r of Ok a \<Rightarrow> f a | NoReport \<Rightarrow> Some NoReport | Fail e \<Rightarrow> Some (Fail e))"

lemma then_do_simps [simp]:
  "then_do (Some (Ok a)) f = f a" "then_do (Some (Fail e)) f = Some (Fail e)"
  "then_do (Some NoReport) f = Some NoReport" "then_do None f = None"
  by (simp_all add: then_do_def)

lemma then_do_Ok_iff: "then_do x f = Some (Ok b) \<longleftrightarrow> (\<exists>a. x = Some (Ok a) \<and> f a = Some (Ok b))"
  by (cases x) (auto simp: then_do_def split: outcome.splits)

lemma then_do_None_iff: "then_do x f = None \<longleftrightarrow> x = None \<or> (\<exists>a. x = Some (Ok a) \<and> f a = None)"
  by (cases x) (auto simp: then_do_def split: outcome.splits)

lemma then_do_mono [partial_function_mono]:
  assumes "mono_option f" and "\<And>a. mono_option (\<lambda>x. g x a)"
  shows "mono_option (\<lambda>x. then_do (f x) (g x))"
  unfolding then_do_def
proof (rule bind_mono [OF assms(1)])
  fix r
  show "mono_option (\<lambda>x. case r of Ok a \<Rightarrow> g x a | NoReport \<Rightarrow> Some NoReport | Fail e \<Rightarrow> Some (Fail e))"
    by (cases r) (simp_all add: assms(2) option.const_mono)
qed

section \<open>Identifiers\<close>

text \<open>\<open>BUCKET_SIZE_POWER_TWO\<close> is 8, \<open>THREAD_SIZE_POWER_TWO\<close> is 0 and \<open>CHUNKID_POWER_TWO\<close> is 24.\<close>

definition getBucketIDFromHeader :: "u64 \<Rightarrow> u64" where
  "getBucketIDFromHeader header = drop_bit (32 - 8) header"

definition getThreadIDFromHeader :: "u64 \<Rightarrow> u64" where
  "getThreadIDFromHeader header = and (drop_bit 24 header) (push_bit 0 1 - 1)"

definition getChunkIDFromHeader :: "u64 \<Rightarrow> u64" where
  "getChunkIDFromHeader header = and header (push_bit 24 1 - 1)"

definition bucketIDFromHash :: "u64 \<Rightarrow> u64" where
  "bucketIDFromHash hash =
     (let hash2 = drop_bit 32 hash;
          hash2 = xor hash2 hash;
          hash = drop_bit 16 hash2;
          hash = xor hash hash2;
          hash2 = drop_bit 8 hash;
          hash2 = xor hash2 hash
      in and hash2 0xFF)"

section \<open>Slabs\<close>

text \<open>
  The memory is an array of \<open>size_t\<close> at the address \<open>sl_base\<close>, here its bytes; positions count elements of eight
  bytes.
\<close>

type_synonym alloc = "u64 \<times> (nat \<Rightarrow> byte)"

record slab =
  sl_base :: u64
  sl_data :: bytes
  sl_end :: nat
  sl_insertAt :: nat
  sl_next :: "nat option"

definition slab_new :: "alloc \<Rightarrow> nat option \<Rightarrow> nat \<Rightarrow> slab" where
  "slab_new mem nxt max_size =
     \<lparr>sl_base = fst mem, sl_data = map (snd mem) [0..<8 * max_size], sl_end = max_size, sl_insertAt = 0, sl_next = nxt\<rparr>"

definition alignedLenInSizeT :: "nat \<Rightarrow> nat" where
  "alignedLenInSizeT len = (len + 7) div 8"

definition word_at :: "bytes \<Rightarrow> nat \<Rightarrow> u64" where
  "word_at m i = u64_of (bytes_at (8 * i) 8 m)"

text \<open>
  The reservation: the loop starts from a value of \<open>_insertAt\<close> that is one record too high, so
  the exchange fails once, and is repeated with the value it found.
\<close>

definition slab_reserve :: "nat \<Rightarrow> nat \<Rightarrow> slab \<Rightarrow> nat option" where
  "slab_reserve n old sl =
     (if sl_end sl < old + n then None
      else if sl_insertAt sl = old then Some (old + n)
      else if sl_end sl < sl_insertAt sl + n then None
      else Some (sl_insertAt sl + n))"

definition slab_insert :: "u64 \<Rightarrow> bytes \<Rightarrow> slab \<Rightarrow> (nat \<times> slab) option" where
  "slab_insert i d sl =
     (let n = alignedLenInSizeT (length d) + 2 in
      case slab_reserve n (sl_insertAt sl + n) sl of
        None \<Rightarrow> None
      | Some nxt \<Rightarrow> Some (nxt, sl\<lparr>sl_insertAt := nxt,
          sl_data := put_at (8 * nxt) (bytes_u64 i @ bytes_u64 (word_of_nat (length d)) @ d) (sl_data sl)\<rparr>))"

text \<open>
  The search looks at the length fields from position 1 on and goes on behind as many
  elements as the field says bytes.  The pointer \<open>e\<close> is an address: the sum is one of 64 bits and wraps around, so a
  field may lead back, and the search need not end.  A field or a record to compare that is not inside the memory of
  the slab is a bad access.
\<close>

definition slab_position :: "slab \<Rightarrow> u64 \<Rightarrow> nat" where
  "slab_position sl e = unat (e - sl_base sl) div 8"

partial_function (option) slab_scan :: "bytes \<Rightarrow> slab \<Rightarrow> u64 \<Rightarrow> nat option outcome option" where
  "slab_scan d sl e =
     (if e < sl_base sl + 8 * word_of_nat (sl_insertAt sl)
      then (let p = slab_position sl e; w = word_at (sl_data sl) p in
        if sl_end sl \<le> p then Some (Fail BadAccess)
        else if w = word_of_nat (length d)
        then (if 8 * sl_end sl < 8 * (p + 1) + length d then Some (Fail BadAccess)
              else if bytes_at (8 * (p + 1)) (length d) (sl_data sl) = d
              then Some (if p = 0 then Fail BadAccess else Ok (Some (p - 1)))
              else slab_scan d sl (e + 8 * (w + 2)))
        else slab_scan d sl (e + 8 * (w + 2)))
      else Some (Ok None))"

definition slab_find :: "bytes \<Rightarrow> slab \<Rightarrow> nat option outcome option" where
  "slab_find d sl = slab_scan d sl (sl_base sl + 8)"

section \<open>Buckets\<close>

record bucket =
  bk_masked :: u64
  bk_elements :: "(nat \<times> nat) list"
  bk_heap :: "slab list"
  bk_slabs :: "nat option"
  bk_threadSlabs :: "nat list"

text \<open>The slabs of the threads are chained; the one of thread 0 is allocated last.\<close>

definition bucket_new :: "(nat \<Rightarrow> alloc) \<Rightarrow> nat \<Rightarrow> bucket" where
  "bucket_new mem threads =
     \<lparr>bk_masked = 0, bk_elements = [],
      bk_heap = map (\<lambda>k. slab_new (mem k) (if k = 0 then None else Some (k - 1)) 10000) [0..<threads],
      bk_slabs = (if threads = 0 then None else Some (threads - 1)),
      bk_threadSlabs = rev [0..<threads]\<rparr>"

definition setBucketID :: "u64 \<Rightarrow> bucket \<Rightarrow> bucket" where
  "setBucketID bucketID bk = bk\<lparr>bk_masked := push_bit (32 - 8) bucketID\<rparr>"

text \<open>
  The chain holds every slab at most once, so as many steps as there are slabs reach its end.
\<close>

fun chain_find :: "nat \<Rightarrow> bytes \<Rightarrow> bucket \<Rightarrow> nat option \<Rightarrow> (nat \<times> nat) option outcome option" where
  "chain_find 0 d bk current = Some (Ok None)"
| "chain_find (Suc n) d bk current =
     (case current of
        None \<Rightarrow> Some (Ok None)
      | Some i \<Rightarrow>
          then_do (slab_find d (bk_heap bk ! i)) (\<lambda>r. case r of
             Some e \<Rightarrow> Some (Ok (Some (i, e)))
           | None \<Rightarrow> chain_find n d bk (sl_next (bk_heap bk ! i))))"

definition search :: "bytes \<Rightarrow> bucket \<Rightarrow> (nat \<times> nat) option outcome option" where
  "search d bk = chain_find (length (bk_heap bk)) d bk (bk_slabs bk)"

text \<open>
  \<open>linkNewSlab\<close>: the exchange is repeated until it replaces whatever \<open>_slabs\<close> points to; the new
  slab has no successor.
\<close>

definition linkNewSlab :: "(nat \<Rightarrow> alloc) \<Rightarrow> nat \<Rightarrow> bucket \<Rightarrow> bucket" where
  "linkNewSlab mem threadID bk =
     (let current = length (bk_heap bk)
      in bk\<lparr>bk_heap := bk_heap bk @ [slab_new (mem current) None 10000], bk_slabs := Some current,
            bk_threadSlabs := (bk_threadSlabs bk)[threadID := current]\<rparr>)"

definition newID :: "nat \<Rightarrow> bucket \<Rightarrow> u64" where
  "newID threadID bk =
     xor (xor (bk_masked bk) (push_bit 24 (word_of_nat threadID))) (word_of_nat (length (bk_elements bk)))"

partial_function (option) append_record ::
  "(nat \<Rightarrow> alloc) \<Rightarrow> nat \<Rightarrow> u64 \<Rightarrow> bytes \<Rightarrow> bucket \<Rightarrow> ((nat \<times> nat) \<times> bucket) option" where
  "append_record mem threadID i d bk =
     (let mySlab = bk_threadSlabs bk ! threadID in
      case slab_insert i d (bk_heap bk ! mySlab) of
        Some (e, sl) \<Rightarrow> Some ((mySlab, e), bk\<lparr>bk_heap := (bk_heap bk)[mySlab := sl],
          bk_elements := bk_elements bk @ [(mySlab, e)]\<rparr>)
      | None \<Rightarrow> append_record mem threadID i d (linkNewSlab mem threadID bk))"

definition bucket_insert ::
  "(nat \<Rightarrow> alloc) \<Rightarrow> nat \<Rightarrow> bytes \<Rightarrow> bucket \<Rightarrow> (((nat \<times> nat) \<times> bool) \<times> bucket) outcome option" where
  "bucket_insert mem threadID d bk =
     then_do (search d bk) (\<lambda>r. case r of
        Some e \<Rightarrow> Some (Ok ((e, False), bk))
      | None \<Rightarrow> map_option (\<lambda>(e, bk'). Ok ((e, True), bk')) (append_record mem threadID (newID threadID bk) d bk))"

text \<open>What a pointer to a record gives: the identifier, and the bytes behind the length.\<close>

definition record_id :: "bucket \<Rightarrow> nat \<times> nat \<Rightarrow> u64" where
  "record_id bk e = word_at (sl_data (bk_heap bk ! fst e)) (snd e)"

definition record_data :: "bucket \<Rightarrow> nat \<times> nat \<Rightarrow> bytes" where
  "record_data bk e =
     (let m = sl_data (bk_heap bk ! fst e)
      in bytes_at (8 * (snd e + 2)) (unat (word_at m (snd e + 1))) m)"

definition bucket_find :: "u64 \<Rightarrow> bucket \<Rightarrow> bytes outcome" where
  "bucket_find index bk =
     (let k = unat (getChunkIDFromHeader index) in
      if length (bk_elements bk) \<le> k then Fail Assertion
      else let e = bk_elements bk ! k in
        if record_id bk e \<noteq> index then Fail Assertion else Ok (record_data bk e))"

section \<open>The table and the tree store\<close>

definition hashtable_new :: "(nat \<Rightarrow> nat \<Rightarrow> alloc) \<Rightarrow> bucket list" where
  "hashtable_new mem = map (\<lambda>i. setBucketID (word_of_nat i) (bucket_new (mem i) 4)) [0..<2 ^ 8]"

definition hashtable_insert ::
  "(nat \<Rightarrow> nat \<Rightarrow> alloc) \<Rightarrow> (bytes \<Rightarrow> u64) \<Rightarrow> nat \<Rightarrow> bytes \<Rightarrow> bucket list
    \<Rightarrow> ((nat \<times> (nat \<times> nat) \<times> bool) \<times> bucket list) outcome option" where
  "hashtable_insert mem hash threadID d ht =
     (let b = unat (bucketIDFromHash (hash d))
      in then_do (bucket_insert (mem b) threadID d (ht ! b)) (\<lambda>((e, new), bk). Some (Ok ((b, e, new), ht[b := bk]))))"

definition hashtable_find :: "u64 \<Rightarrow> bucket list \<Rightarrow> bytes outcome" where
  "hashtable_find index ht =
     (let b = unat (getBucketIDFromHeader index)
      in if b < length ht then bucket_find index (ht ! b) else Fail BadAccess)"

type_synonym tree_store_2 = "bucket list list"

definition tree_store_2_new :: "(nat \<Rightarrow> nat \<Rightarrow> nat \<Rightarrow> alloc) \<Rightarrow> nat \<Rightarrow> tree_store_2" where
  "tree_store_2_new mem types = map (\<lambda>type. hashtable_new (mem type)) [0..<types]"

definition tree_store_2_insert ::
  "(nat \<Rightarrow> nat \<Rightarrow> nat \<Rightarrow> alloc) \<Rightarrow> (bytes \<Rightarrow> u64) \<Rightarrow> nat \<Rightarrow> bytes \<Rightarrow> tree_store_2
    \<Rightarrow> ((nat \<times> (nat \<times> nat) \<times> bool) \<times> tree_store_2) outcome option" where
  "tree_store_2_insert mem hash type d db =
     (if length db \<le> type then Some (Fail Assertion)
      else then_do (hashtable_insert (mem type) hash 0 d (db ! type)) (\<lambda>(r, ht). Some (Ok (r, db[type := ht]))))"

definition tree_store_2_find :: "nat \<Rightarrow> u64 \<Rightarrow> tree_store_2 \<Rightarrow> bytes outcome" where
  "tree_store_2_find type index db =
     (if length db \<le> type then Fail Assertion else hashtable_find index (db ! type))"

end
