(* ===== verification/Hash_Table_Laws.thy ===== *)
theory Hash_Table_Laws
  imports Hash_Table
begin

text \<open>
  What holds of the hash table: records of one length stay where they are and are found by their
  identifiers, an insertion returns exactly when the search of its bucket does and the record fits into a slab; and
  what does not: the search for an equal record misses it, the search may run for ever over a length field that
  it takes for one, and a record that is shorter than the one before it overwrites that.
\<close>

section \<open>Identifiers\<close>

lemma header_shift: "drop_bit 24 (push_bit 24 b) = b" if "unat (b :: u64) < 2 ^ 40"
proof -
  have "take_bit 40 b = b"
    using that by (metis take_bit_nat_eq_self_iff unsigned_take_bit_eq word_unat_eq_iff)
  moreover have "drop_bit 24 (push_bit 24 b) = take_bit 40 b"
    by (rule bit_word_eqI) (auto simp: bit_simps)
  ultimately show ?thesis by simp
qed

lemma small_drop_bit: "drop_bit 24 k = 0" if "unat (k :: u64) < 2 ^ 24"
proof -
  have "take_bit 24 k = k"
    using that by (metis take_bit_nat_eq_self_iff unsigned_take_bit_eq word_unat_eq_iff)
  then have "drop_bit 24 k = drop_bit 24 (take_bit 24 k)" by simp
  also have "\<dots> = 0" by (rule bit_word_eqI) (simp add: bit_simps)
  finally show ?thesis .
qed

lemma small_take_bit: "unat (k :: u64) < 2 ^ 24 \<Longrightarrow> take_bit 24 k = k"
  by (metis take_bit_nat_eq_self_iff unsigned_take_bit_eq word_unat_eq_iff)

lemma header_parts:
  assumes "unat b < 256" and "t < 256" and "unat k < 2 ^ 24"
  defines "h \<equiv> xor (xor (push_bit (32 - 8) b) (push_bit 24 (word_of_nat t))) k"
  shows "getBucketIDFromHeader h = xor b (word_of_nat t)" and "getChunkIDFromHeader h = k"
proof -
  have t: "unat (word_of_nat t :: u64) < 2 ^ 40" and b: "unat b < 2 ^ 40"
    using assms(1,2) by (simp_all add: unat_of_nat)
  have "getBucketIDFromHeader h = xor (xor (drop_bit 24 (push_bit 24 b)) (drop_bit 24 (push_bit 24 (word_of_nat t)))) (drop_bit 24 k)"
    by (simp add: getBucketIDFromHeader_def h_def drop_bit_xor)
  then show "getBucketIDFromHeader h = xor b (word_of_nat t)"
    using header_shift [OF t] header_shift [OF b] small_drop_bit [OF assms(3)] by simp
  have "getChunkIDFromHeader h = take_bit 24 h"
    by (simp add: getChunkIDFromHeader_def take_bit_eq_mask mask_eq_exp_minus_1)
  also have "\<dots> = take_bit 24 k"
    by (simp add: h_def take_bit_xor take_bit_push_bit)
  finally show "getChunkIDFromHeader h = k"
    using small_take_bit [OF assms(3)] by simp
qed

section \<open>Records in a slab\<close>

definition slab_wf :: "slab \<Rightarrow> bool" where
  "slab_wf sl \<longleftrightarrow> length (sl_data sl) = 8 * sl_end sl \<and> sl_insertAt sl \<le> sl_end sl"

lemma slab_new_wf [simp]: "slab_wf (slab_new junk nxt n)"
  by (simp add: slab_wf_def slab_new_def)

lemma bytes_at_put_at_part:
  assumes "a + n \<le> length d" and "off \<le> length bs"
  shows "bytes_at (off + a) n (put_at off d bs) = bytes_at a n d"
  using assms by (simp add: bytes_at_def put_at_def)

lemma aligned_bytes: "n \<le> 8 * alignedLenInSizeT n"
  by (simp add: alignedLenInSizeT_def)

lemma slab_reserve_Some:
  "0 < n \<Longrightarrow> slab_reserve n (sl_insertAt sl + n) sl = Some nxt \<longleftrightarrow>
    nxt = sl_insertAt sl + n \<and> sl_insertAt sl + 2 * n \<le> sl_end sl"
  by (auto simp: slab_reserve_def)

lemma slab_insert_Some:
  assumes "slab_insert i d sl = Some (nxt, sl')" and "slab_wf sl" and "length d < 2 ^ 64"
  defines "al \<equiv> alignedLenInSizeT (length d)"
  shows "nxt = sl_insertAt sl + al + 2" and "nxt + al + 2 \<le> sl_end sl" and "slab_wf sl'"
    and "sl_insertAt sl' = nxt" and "sl_end sl' = sl_end sl" and "sl_next sl' = sl_next sl"
    and "word_at (sl_data sl') nxt = i" and "unat (word_at (sl_data sl') (nxt + 1)) = length d"
    and "bytes_at (8 * (nxt + 2)) (length d) (sl_data sl') = d"
    and "\<And>p n. p + n \<le> 8 * nxt \<Longrightarrow> bytes_at p n (sl_data sl') = bytes_at p n (sl_data sl)"
proof -
  let ?rec = "bytes_u64 i @ bytes_u64 (word_of_nat (length d)) @ d"
  from assms(1) have r: "slab_reserve (al + 2) (sl_insertAt sl + (al + 2)) sl = Some nxt"
    and sl': "sl' = sl\<lparr>sl_insertAt := nxt, sl_data := put_at (8 * nxt) ?rec (sl_data sl)\<rparr>"
    by (auto simp: slab_insert_def al_def Let_def split: option.splits)
  from r show nxt: "nxt = sl_insertAt sl + al + 2" and fit: "nxt + al + 2 \<le> sl_end sl"
    using slab_reserve_Some [of "al + 2" sl nxt] by (simp_all del: add_2_eq_Suc')
  have inside: "8 * nxt + length ?rec \<le> length (sl_data sl)"
    using fit assms(2) aligned_bytes [of "length d"] by (simp add: slab_wf_def al_def)
  show "slab_wf sl'"
    using assms(2) fit inside by (simp add: sl' slab_wf_def length_put_at)
  show "sl_insertAt sl' = nxt" "sl_end sl' = sl_end sl" "sl_next sl' = sl_next sl"
    by (simp_all add: sl')
  have part: "bytes_at (8 * nxt + a) n (sl_data sl') = bytes_at a n ?rec" if "a + n \<le> length ?rec" for a n
    using bytes_at_put_at_part [of a n ?rec "8 * nxt" "sl_data sl"] that inside by (simp add: sl')
  have parts: "bytes_at 0 8 ?rec = bytes_u64 i" "bytes_at 8 8 ?rec = bytes_u64 (word_of_nat (length d))"
    "bytes_at 16 (length d) ?rec = d"
    by (simp_all add: bytes_at_def)
  have pos: "8 * (nxt + 1) = 8 * nxt + 8" "8 * (nxt + 2) = 8 * nxt + 16" by simp_all
  show "word_at (sl_data sl') nxt = i"
    using part [of 0 8] parts(1) by (simp add: word_at_def)
  have "word_at (sl_data sl') (nxt + 1) = word_of_nat (length d)"
    unfolding word_at_def pos using part [of 8 8] parts(2) by simp
  then show "unat (word_at (sl_data sl') (nxt + 1)) = length d"
    using assms(3) by (simp add: unat_of_nat)
  show "bytes_at (8 * (nxt + 2)) (length d) (sl_data sl') = d"
    unfolding pos using part [of 16 "length d"] parts(3) by simp
  show "bytes_at p n (sl_data sl') = bytes_at p n (sl_data sl)" if "p + n \<le> 8 * nxt" for p n
    using bytes_at_put_at_disjoint [of p n "8 * nxt" ?rec "sl_data sl"] that inside by (simp add: sl')
qed

section \<open>Buckets of records of one length\<close>

text \<open>
  All records of the bucket have the same aligned length; so a record never reaches into the
  place of the next one.
\<close>

definition element_ok :: "nat \<Rightarrow> bucket \<Rightarrow> nat \<Rightarrow> nat \<times> nat \<Rightarrow> bool" where
  "element_ok al bk k e \<longleftrightarrow> fst e < length (bk_heap bk) \<and> snd e \<le> sl_insertAt (bk_heap bk ! fst e)
     \<and> record_id bk e = xor (bk_masked bk) (word_of_nat k)
     \<and> alignedLenInSizeT (unat (word_at (sl_data (bk_heap bk ! fst e)) (snd e + 1))) = al"

definition bucket_inv :: "nat \<Rightarrow> bucket \<Rightarrow> bool" where
  "bucket_inv al bk \<longleftrightarrow> (\<forall>sl \<in> set (bk_heap bk). slab_wf sl) \<and> bk_threadSlabs bk \<noteq> []
     \<and> bk_threadSlabs bk ! 0 < length (bk_heap bk)
     \<and> (\<forall>k < length (bk_elements bk). element_ok al bk k (bk_elements bk ! k))"

lemma bucket_new_inv: "bucket_inv al (setBucketID b (bucket_new junk 4))"
  by (auto simp: bucket_inv_def setBucketID_def bucket_new_def upt_rec)

lemma linkNewSlab_laws:
  assumes "bucket_inv al bk"
  shows "bucket_inv al (linkNewSlab junk 0 bk)"
    and "bk_elements (linkNewSlab junk 0 bk) = bk_elements bk" and "bk_masked (linkNewSlab junk 0 bk) = bk_masked bk"
    and "fst e < length (bk_heap bk) \<Longrightarrow> record_id (linkNewSlab junk 0 bk) e = record_id bk e"
    and "fst e < length (bk_heap bk) \<Longrightarrow> record_data (linkNewSlab junk 0 bk) e = record_data bk e"
  using assms
  by (auto simp: bucket_inv_def linkNewSlab_def Let_def element_ok_def record_id_def record_data_def nth_append
      nth_list_update)

text \<open>Appending a record to a slab keeps the other records of the bucket.\<close>

lemma append_keeps:
  assumes "bucket_inv al bk" and "m < length (bk_heap bk)" and "slab_insert i d (bk_heap bk ! m) = Some (nxt, sl)"
    and "alignedLenInSizeT (length d) = al" and "length d < 2 ^ 64"
    and "fst e < length (bk_heap bk)" and "snd e \<le> sl_insertAt (bk_heap bk ! fst e)"
    and "alignedLenInSizeT (unat (word_at (sl_data (bk_heap bk ! fst e)) (snd e + 1))) = al"
  defines "bk' \<equiv> bk\<lparr>bk_heap := (bk_heap bk)[m := sl], bk_elements := bk_elements bk @ [(m, nxt)]\<rparr>"
  shows "record_id bk' e = record_id bk e" and "record_data bk' e = record_data bk e"
    and "snd e \<le> sl_insertAt (bk_heap bk' ! fst e)"
    and "word_at (sl_data (bk_heap bk' ! fst e)) (snd e + 1) = word_at (sl_data (bk_heap bk ! fst e)) (snd e + 1)"
proof -
  have wf: "slab_wf (bk_heap bk ! m)"
    using assms(1,2) by (simp add: bucket_inv_def)
  note ins = slab_insert_Some [OF assms(3) wf assms(5), unfolded assms(4)]
  let ?old = "sl_data (bk_heap bk ! fst e)" and ?new = "sl_data (bk_heap bk' ! fst e)"
  have same: "bytes_at p n ?new = bytes_at p n ?old" if "p + n \<le> 8 * (snd e + al + 2)" for p n
  proof (cases "fst e = m")
    case True
    with ins(1) assms(7) that have "p + n \<le> 8 * nxt" by simp
    with ins(10) True assms(2) show ?thesis by (simp add: bk'_def)
  next
    case False
    then show ?thesis by (simp add: bk'_def)
  qed
  show 1: "word_at ?new (snd e + 1) = word_at ?old (snd e + 1)"
    using same [of "8 * (snd e + 1)" 8] by (simp add: word_at_def)
  show "record_id bk' e = record_id bk e"
    using same [of "8 * snd e" 8] by (simp add: record_id_def word_at_def)
  have "unat (word_at ?old (snd e + 1)) \<le> 8 * al"
    using aligned_bytes [of "unat (word_at ?old (snd e + 1))"] assms(8) by simp
  then show "record_data bk' e = record_data bk e"
    using same [of "8 * (snd e + 2)" "unat (word_at ?old (snd e + 1))"] 1
    by (simp add: record_data_def Let_def)
  show "snd e \<le> sl_insertAt (bk_heap bk' ! fst e)"
    using assms(2,7) ins(1,4) by (cases "fst e = m") (auto simp: bk'_def)
qed

lemma append_record_step:
  assumes "bucket_inv al bk" and "slab_insert i d (bk_heap bk ! (bk_threadSlabs bk ! 0)) = Some (nxt, sl)"
    and "alignedLenInSizeT (length d) = al" and "length d < 2 ^ 64"
    and "i = xor (bk_masked bk) (word_of_nat (length (bk_elements bk)))"
  defines "m \<equiv> bk_threadSlabs bk ! 0"
  defines "bk' \<equiv> bk\<lparr>bk_heap := (bk_heap bk)[m := sl], bk_elements := bk_elements bk @ [(m, nxt)]\<rparr>"
  shows "bucket_inv al bk'" and "record_id bk' (m, nxt) = i" and "record_data bk' (m, nxt) = d"
    and "k < length (bk_elements bk) \<Longrightarrow> record_id bk' (bk_elements bk ! k) = record_id bk (bk_elements bk ! k)"
    and "k < length (bk_elements bk) \<Longrightarrow> record_data bk' (bk_elements bk ! k) = record_data bk (bk_elements bk ! k)"
proof -
  have m: "m < length (bk_heap bk)" and wf: "slab_wf (bk_heap bk ! m)"
    using assms(1) by (simp_all add: bucket_inv_def m_def)
  note ins = slab_insert_Some [OF assms(2) wf [unfolded m_def] assms(4), folded m_def, unfolded assms(3)]
  show id: "record_id bk' (m, nxt) = i" and data: "record_data bk' (m, nxt) = d"
    using m ins(7,8,9) by (simp_all add: record_id_def record_data_def bk'_def Let_def)
  have old: "element_ok al bk k (bk_elements bk ! k)" if "k < length (bk_elements bk)" for k
    using assms(1) that by (simp add: bucket_inv_def)
  note keep = append_keeps [OF assms(1) m assms(2) [folded m_def] assms(3,4), folded bk'_def]
  show "record_id bk' (bk_elements bk ! k) = record_id bk (bk_elements bk ! k)"
    "record_data bk' (bk_elements bk ! k) = record_data bk (bk_elements bk ! k)" if "k < length (bk_elements bk)"
    using keep old [OF that] by (simp_all add: element_ok_def)
  have "element_ok al bk' k (bk_elements bk ! k)" if "k < length (bk_elements bk)" for k
    using keep [of "bk_elements bk ! k"] old [OF that] by (simp add: element_ok_def) (simp add: bk'_def)
  moreover have "element_ok al bk' (length (bk_elements bk)) (m, nxt)"
    using id m ins(4,8) assms(3,5) by (simp add: element_ok_def) (simp add: bk'_def)
  ultimately have "element_ok al bk' k (bk_elements bk' ! k)" if "k < length (bk_elements bk')" for k
    using that by (auto simp: bk'_def nth_append less_Suc_eq)
  moreover have "\<forall>sl \<in> set (bk_heap bk'). slab_wf sl"
    using assms(1) ins(3) by (auto simp: bucket_inv_def bk'_def dest!: subsetD [OF set_update_subset_insert])
  ultimately show "bucket_inv al bk'"
    using assms(1) by (simp add: bucket_inv_def) (simp add: bk'_def)
qed

lemma append_record_laws:
  assumes "append_record junk t i d bk = Some (e, bk')"
    and "t = 0" and "bucket_inv al bk" and "alignedLenInSizeT (length d) = al" and "length d < 2 ^ 64"
    and "i = xor (bk_masked bk) (word_of_nat (length (bk_elements bk)))"
  shows "bucket_inv al bk' \<and> bk_masked bk' = bk_masked bk \<and> bk_elements bk' = bk_elements bk @ [e]
    \<and> record_id bk' e = i \<and> record_data bk' e = d
    \<and> (\<forall>k < length (bk_elements bk). record_id bk' (bk_elements bk ! k) = record_id bk (bk_elements bk ! k)
         \<and> record_data bk' (bk_elements bk ! k) = record_data bk (bk_elements bk ! k))"
proof -
  let ?P = "\<lambda>junk t i d bk (r :: (nat \<times> nat) \<times> bucket). t = 0 \<longrightarrow> bucket_inv al bk \<longrightarrow> alignedLenInSizeT (length d) = al
    \<longrightarrow> length d < 2 ^ 64 \<longrightarrow> i = xor (bk_masked bk) (word_of_nat (length (bk_elements bk)))
    \<longrightarrow> bucket_inv al (snd r) \<and> bk_masked (snd r) = bk_masked bk \<and> bk_elements (snd r) = bk_elements bk @ [fst r]
    \<and> record_id (snd r) (fst r) = i \<and> record_data (snd r) (fst r) = d
    \<and> (\<forall>k < length (bk_elements bk). record_id (snd r) (bk_elements bk ! k) = record_id bk (bk_elements bk ! k)
         \<and> record_data (snd r) (bk_elements bk ! k) = record_data bk (bk_elements bk ! k))"
  have "?P junk t i d bk (e, bk')"
  proof (rule append_record.raw_induct [where P = ?P, OF _ assms(1)], goal_cases)
    case (1 app junk t i d bk r)
    show ?case
    proof (intro impI)
      assume t: "t = 0" and inv: "bucket_inv al bk" and al: "alignedLenInSizeT (length d) = al"
        and len: "length d < 2 ^ 64" and i: "i = xor (bk_masked bk) (word_of_nat (length (bk_elements bk)))"
      let ?goal = "\<lambda>bk0. bucket_inv al (snd r) \<and> bk_masked (snd r) = bk_masked bk0 \<and> bk_elements (snd r) = bk_elements bk0 @ [fst r]
        \<and> record_id (snd r) (fst r) = i \<and> record_data (snd r) (fst r) = d
        \<and> (\<forall>k < length (bk_elements bk0). record_id (snd r) (bk_elements bk0 ! k) = record_id bk0 (bk_elements bk0 ! k)
             \<and> record_data (snd r) (bk_elements bk0 ! k) = record_data bk0 (bk_elements bk0 ! k))"
      show "?goal bk"
      proof (cases "slab_insert i d (bk_heap bk ! (bk_threadSlabs bk ! 0))")
        case None
        with 1(2) t have "app junk t i d (linkNewSlab junk 0 bk) = Some r"
          by (simp add: Let_def)
        from 1(1) [OF this] t linkNewSlab_laws(1-3) [OF inv, where junk = junk] al len i
        have "?goal (linkNewSlab junk 0 bk)" by simp
        moreover have "fst (bk_elements bk ! k) < length (bk_heap bk)" if "k < length (bk_elements bk)" for k
          using inv that by (simp add: bucket_inv_def element_ok_def)
        ultimately show ?thesis
          using linkNewSlab_laws [OF inv, where junk = junk] by simp
      next
        case (Some res)
        obtain nxt sl where res: "res = (nxt, sl)" by force
        with Some 1(2) t show ?thesis
          using append_record_step [OF inv Some [unfolded res] al len i] by (auto simp: Let_def)
      qed
    qed
  qed
  with assms(2-6) show ?thesis by simp
qed

text \<open>The record that the search of a bucket finds has the data.\<close>

lemma slab_scan_Some:
  assumes "slab_scan d sl e = Some (Ok (Some p))"
  shows "word_at (sl_data sl) (p + 1) = word_of_nat (length d) \<and> bytes_at (8 * (p + 2)) (length d) (sl_data sl) = d"
proof -
  let ?P = "\<lambda>d sl (e :: u64) r. \<forall>p. r = Ok (Some p) \<longrightarrow>
    word_at (sl_data sl) (p + 1) = word_of_nat (length d) \<and> bytes_at (8 * (p + 2)) (length d) (sl_data sl) = d"
  have "?P d sl e (Ok (Some p))"
  proof (rule slab_scan.raw_induct [where P = ?P, OF _ assms], goal_cases)
    case (1 scan d sl e r)
    show ?case
    proof (intro allI impI)
      fix p
      assume r: "r = Ok (Some p)"
      let ?q = "slab_position sl e"
      consider (found) "0 < ?q" "p = ?q - 1" "word_at (sl_data sl) ?q = word_of_nat (length d)"
          "bytes_at (8 * (?q + 1)) (length d) (sl_data sl) = d"
        | (on) e' where "scan d sl e' = Some (Ok (Some p))"
        using 1(2) r by (auto simp: Let_def split: if_splits)
      then show "word_at (sl_data sl) (p + 1) = word_of_nat (length d) \<and> bytes_at (8 * (p + 2)) (length d) (sl_data sl) = d"
      proof cases
        case found
        then show ?thesis by simp
      next
        case on
        from 1(1) [OF on] show ?thesis by simp
      qed
    qed
  qed
  then show ?thesis by simp
qed

lemma chain_find_Some:
  "chain_find n d bk cur = Some (Ok (Some e)) \<Longrightarrow> length d < 2 ^ 64 \<Longrightarrow> record_data bk e = d"
proof (induction n arbitrary: cur)
  case (Suc n)
  then obtain i r where i: "cur = Some i" "slab_find d (bk_heap bk ! i) = Some (Ok r)"
    and r: "(case r of Some e \<Rightarrow> Some (Ok (Some (i, e))) | None \<Rightarrow> chain_find n d bk (sl_next (bk_heap bk ! i)))
      = Some (Ok (Some e))"
    by (auto simp: then_do_Ok_iff split: option.splits)
  show ?case
  proof (cases r)
    case None
    with r Suc show ?thesis by simp
  next
    case (Some p)
    with i(2) slab_scan_Some [of d "bk_heap bk ! i" _ p]
    have "word_at (sl_data (bk_heap bk ! i)) (p + 1) = word_of_nat (length d)"
      "bytes_at (8 * (p + 2)) (length d) (sl_data (bk_heap bk ! i)) = d"
      by (simp_all add: slab_find_def)
    with Some r Suc.prems(2) show ?thesis
      by (auto simp: record_data_def unat_of_nat Let_def)
  qed
qed simp

section \<open>When an insertion returns\<close>

definition slabs_full_size :: "bucket \<Rightarrow> bool" where
  "slabs_full_size bk \<longleftrightarrow> (\<forall>sl \<in> set (bk_heap bk). sl_end sl = 10000) \<and> bk_threadSlabs bk \<noteq> []
     \<and> bk_threadSlabs bk ! 0 < length (bk_heap bk)"

lemma slab_insert_None:
  "slab_insert i d sl = None \<longleftrightarrow> sl_end sl < sl_insertAt sl + 2 * (alignedLenInSizeT (length d) + 2)"
  by (auto simp: slab_insert_def slab_reserve_def Let_def split: option.splits)

lemma linkNewSlab_full_size: "slabs_full_size bk \<Longrightarrow> slabs_full_size (linkNewSlab junk 0 bk)"
  by (auto simp: slabs_full_size_def linkNewSlab_def Let_def slab_new_def nth_list_update)

lemma append_record_returns:
  assumes "slabs_full_size bk" and "2 * (alignedLenInSizeT (length d) + 2) \<le> 10000"
  shows "append_record junk 0 i d bk \<noteq> None"
proof (cases "slab_insert i d (bk_heap bk ! (bk_threadSlabs bk ! 0))")
  case None
  let ?bk = "linkNewSlab junk 0 bk"
  have "bk_heap ?bk ! (bk_threadSlabs ?bk ! 0) = slab_new (junk (length (bk_heap bk))) None 10000"
    using assms(1) by (simp add: slabs_full_size_def linkNewSlab_def Let_def)
  then have "slab_insert i d (bk_heap ?bk ! (bk_threadSlabs ?bk ! 0)) \<noteq> None"
    using assms(2) by (simp add: slab_insert_None slab_new_def)
  then have "append_record junk 0 i d ?bk \<noteq> None"
    by (subst append_record.simps) (auto simp: Let_def split: option.splits)
  with None show ?thesis
    by (subst append_record.simps) (simp add: Let_def)
next
  case (Some res)
  then show ?thesis
    by (subst append_record.simps) (auto simp: Let_def split: prod.splits)
qed

lemma append_record_diverges:
  assumes "slabs_full_size bk" and "10000 < 2 * (alignedLenInSizeT (length d) + 2)"
  shows "append_record junk 0 i d bk = None"
proof (rule ccontr)
  assume "append_record junk 0 i d bk \<noteq> None"
  then obtain r where r: "append_record junk 0 i d bk = Some r" by auto
  let ?P = "\<lambda>(junk :: nat \<Rightarrow> alloc) (t :: nat) (i :: u64) (d :: bytes) bk (r :: (nat \<times> nat) \<times> bucket). t = 0 \<longrightarrow> slabs_full_size bk
    \<longrightarrow> 10000 < 2 * (alignedLenInSizeT (length d) + 2) \<longrightarrow> False"
  have "?P junk 0 i d bk r"
  proof (rule append_record.raw_induct [where P = ?P, OF _ r], goal_cases)
    case (1 app junk t i d bk r)
    show ?case
    proof (intro impI)
      assume t: "t = 0" and full: "slabs_full_size bk" and long: "10000 < 2 * (alignedLenInSizeT (length d) + 2)"
      have "slab_insert i d (bk_heap bk ! (bk_threadSlabs bk ! 0)) = None"
        using full long by (simp add: slab_insert_None slabs_full_size_def)
      with 1(2) t have "app junk t i d (linkNewSlab junk 0 bk) = Some r"
        by (simp add: Let_def)
      with 1(1) t long linkNewSlab_full_size [OF full] show False by blast
    qed
  qed
  with assms show False by simp
qed

section \<open>The table\<close>

lemma bucketIDFromHash_bound: "unat (bucketIDFromHash h) < 256"
proof -
  have "and x 0xFF \<le> (0xFF :: u64)" for x by (rule word_and_le1)
  then have "unat (and x 0xFF :: u64) \<le> 255" for x by (simp add: word_le_nat_alt)
  then show ?thesis by (simp add: bucketIDFromHash_def Let_def less_Suc_eq_le [of _ 255, simplified])
qed

definition table_inv :: "nat \<Rightarrow> bucket list \<Rightarrow> bool" where
  "table_inv al ht \<longleftrightarrow> length ht = 256 \<and>
     (\<forall>b < 256. bucket_inv al (ht ! b) \<and> bk_masked (ht ! b) = push_bit (32 - 8) (word_of_nat b)
        \<and> length (bk_elements (ht ! b)) < 2 ^ 24)"

lemma bucket_insert_laws:
  assumes "bucket_insert junk 0 d bk = Some (Ok ((e, new), bk'))"
    and "bucket_inv al bk" and "alignedLenInSizeT (length d) = al" and "length d < 2 ^ 64"
  shows "bucket_inv al bk'" and "bk_masked bk' = bk_masked bk" and "record_data bk' e = d"
    and "new \<Longrightarrow> bk_elements bk' = bk_elements bk @ [e]
      \<and> record_id bk' e = xor (bk_masked bk) (word_of_nat (length (bk_elements bk)))"
    and "bucket_find index bk = Ok bs \<Longrightarrow> bucket_find index bk' = Ok bs"
    and "\<not> new \<Longrightarrow> bk' = bk"
proof -
  have id: "newID 0 bk = xor (bk_masked bk) (word_of_nat (length (bk_elements bk)))"
    by (simp add: newID_def)
  have found: "search d bk = Some (Ok (Some e))" "bk' = bk" if "\<not> new"
    using assms(1) that by (auto simp: bucket_insert_def then_do_Ok_iff split: option.splits)
  have app: "append_record junk 0 (newID 0 bk) d bk = Some (e, bk')" if new
    using assms(1) that by (auto simp: bucket_insert_def then_do_Ok_iff split: option.splits)
  note laws = append_record_laws [OF app refl assms(2-4) id]
  show "bucket_inv al bk'" "bk_masked bk' = bk_masked bk" "\<not> new \<Longrightarrow> bk' = bk"
    using laws found assms(2) by (cases new; simp)+
  show "record_data bk' e = d"
    using laws found chain_find_Some [OF _ assms(4)] by (cases new) (auto simp: search_def)
  show "bk_elements bk' = bk_elements bk @ [e]
      \<and> record_id bk' e = xor (bk_masked bk) (word_of_nat (length (bk_elements bk)))" if new
    using laws [OF that] id by simp
  show "bucket_find index bk' = Ok bs" if "bucket_find index bk = Ok bs"
  proof (cases new)
    case True
    with that laws show ?thesis
      by (auto simp: bucket_find_def Let_def nth_append split: if_splits)
  next
    case False
    with that found show ?thesis by simp
  qed
qed

lemma hashtable_insert_laws:
  assumes "table_inv al ht" and "alignedLenInSizeT (length d) = al" and "length d < 2 ^ 64"
    and "hashtable_insert mem hash 0 d ht = Some (Ok ((b, e, new), ht'))"
  shows "record_data (ht' ! b) e = d"
    and "new \<Longrightarrow> hashtable_find (record_id (ht' ! b) e) ht' = Ok d"
    and "hashtable_find index ht = Ok bs \<Longrightarrow> hashtable_find index ht' = Ok bs"
    and "(\<forall>b' < 256. length (bk_elements (ht' ! b')) < 2 ^ 24) \<Longrightarrow> table_inv al ht'"
    and "b < 256"
    and "new \<Longrightarrow> record_id (ht' ! b) e = xor (push_bit (32 - 8) (word_of_nat b)) (word_of_nat (length (bk_elements (ht ! b))))"
proof -
  let ?b = "unat (bucketIDFromHash (hash d))"
  obtain bk' where ins: "bucket_insert (mem b) 0 d (ht ! b) = Some (Ok ((e, new), bk'))"
    and ht': "ht' = ht[b := bk']" and b: "b = ?b"
    using assms(4) by (auto simp: hashtable_insert_def Let_def then_do_Ok_iff)
  have bound: "b < 256"
    using bucketIDFromHash_bound b by simp
  with assms(1) have inv: "bucket_inv al (ht ! b)" and len: "length ht = 256"
    and masked: "bk_masked (ht ! b) = push_bit (32 - 8) (word_of_nat b)" and few: "length (bk_elements (ht ! b)) < 2 ^ 24"
    by (simp_all add: table_inv_def)
  note laws = bucket_insert_laws [OF ins inv assms(2,3)]
  have here: "ht' ! b = bk'"
    using ht' bound len by simp
  show "record_data (ht' ! b) e = d"
    using laws(3) here by simp
  show "record_id (ht' ! b) e = xor (push_bit (32 - 8) (word_of_nat b)) (word_of_nat (length (bk_elements (ht ! b))))" if new
    using laws(4) [OF that] masked here by simp
  show "b < 256" by (rule bound)
  show "hashtable_find index ht' = Ok bs" if "hashtable_find index ht = Ok bs"
    using that laws(5) [of index bs] ht' by (cases "unat (getBucketIDFromHeader index) = b")
      (auto simp: hashtable_find_def Let_def split: if_splits)
  show "table_inv al ht'" if "\<forall>b' < 256. length (bk_elements (ht' ! b')) < 2 ^ 24"
    using assms(1) laws(1,2) that ht' len unfolding table_inv_def
    by (metis length_list_update nth_list_update_eq nth_list_update_neq)
  show "hashtable_find (record_id (ht' ! b) e) ht' = Ok d" if new
  proof -
    let ?n = "length (bk_elements (ht ! b))"
    have small: "unat (word_of_nat b :: u64) < 256" "unat (word_of_nat ?n :: u64) < 2 ^ 24"
      using bound few by (simp_all add: unat_of_nat)
    have id: "record_id bk' e = xor (xor (push_bit (32 - 8) (word_of_nat b)) (push_bit 24 (word_of_nat 0))) (word_of_nat ?n)"
      using laws(4) [OF that] masked by simp
    have "getBucketIDFromHeader (record_id bk' e) = word_of_nat b" "getChunkIDFromHeader (record_id bk' e) = word_of_nat ?n"
      unfolding id using header_parts [OF small(1) _ small(2), of 0] by simp_all
    moreover have "unat (word_of_nat b :: u64) = b" "unat (word_of_nat ?n :: u64) = ?n"
      using bound few by (simp_all add: unat_of_nat)
    ultimately show ?thesis
      using laws(3) laws(4) [OF that] here len ht' bound
      by (simp add: hashtable_find_def bucket_find_def Let_def)
  qed
qed

lemma hashtable_new_inv: "table_inv al (hashtable_new mem)"
proof -
  have "bk_masked (hashtable_new mem ! b) = push_bit (32 - 8) (word_of_nat b)"
    and "bk_elements (hashtable_new mem ! b) = []" if "b < 256" for b
    using that by (simp_all add: hashtable_new_def setBucketID_def bucket_new_def)
  then show ?thesis
    by (simp add: table_inv_def) (simp add: hashtable_new_def bucket_new_inv)
qed

text \<open>
  C32: in a table whose records all have one aligned length, of which thread 0 inserted fewer than \<open>2 ^ 24\<close> into
  every bucket, data of that length that is inserted is found again under its identifier, and what was found before
  the insertion is found after it.  Both limits are needed: a shorter record overwrites the one before it
  (\<open>shorter_record_overwrites\<close>), and a larger number does not fit into an identifier.
\<close>

theorem hashtable_insert_find:
  assumes "table_inv al ht" and "alignedLenInSizeT (length d) = al" and "length d < 2 ^ 64"
    and "hashtable_insert mem hash 0 d ht = Some (Ok ((b, e, new), ht'))"
  shows "record_data (ht' ! b) e = d \<and> (new \<longrightarrow> hashtable_find (record_id (ht' ! b) e) ht' = Ok d)
    \<and> (\<forall>index bs. hashtable_find index ht = Ok bs \<longrightarrow> hashtable_find index ht' = Ok bs)"
  using hashtable_insert_laws [OF assms] by blast

section \<open>Every insertion that fits a slab returns\<close>

lemma append_record_full_size:
  assumes "append_record junk 0 i d bk = Some (e, bk')" and "slabs_full_size bk"
  shows "slabs_full_size bk'"
proof -
  let ?P = "\<lambda>(junk :: nat \<Rightarrow> alloc) (t :: nat) (i :: u64) (d :: bytes) bk (r :: (nat \<times> nat) \<times> bucket).
    t = 0 \<longrightarrow> slabs_full_size bk \<longrightarrow> slabs_full_size (snd r)"
  have "?P junk 0 i d bk (e, bk')"
  proof (rule append_record.raw_induct [where P = ?P, OF _ assms(1)], goal_cases)
    case (1 app junk t i d bk r)
    show ?case
    proof (cases "slab_insert i d (bk_heap bk ! (bk_threadSlabs bk ! t))")
      case None
      with 1(2) have "app junk t i d (linkNewSlab junk t bk) = Some r"
        by (simp add: Let_def)
      from 1(1) [OF this] show ?thesis
        using linkNewSlab_full_size by blast
    next
      case (Some res)
      obtain nxt sl where res: "res = (nxt, sl)" by force
      then have "sl_end sl = sl_end (bk_heap bk ! (bk_threadSlabs bk ! t))"
        using Some by (auto simp: slab_insert_def Let_def split: option.splits)
      with Some res 1(2) show ?thesis
        by (auto simp: Let_def slabs_full_size_def dest!: subsetD [OF set_update_subset_insert])
    qed
  qed
  with assms(2) show ?thesis by simp
qed

definition table_full_size :: "bucket list \<Rightarrow> bool" where
  "table_full_size ht \<longleftrightarrow> length ht = 256 \<and> (\<forall>bk \<in> set ht. slabs_full_size bk)"

lemma hashtable_new_full_size: "table_full_size (hashtable_new mem)"
proof -
  have "slabs_full_size (setBucketID b (bucket_new junk 4))" for b junk
    by (simp add: slabs_full_size_def setBucketID_def bucket_new_def slab_new_def rev_nth)
  then have "\<forall>bk \<in> set (hashtable_new mem). slabs_full_size bk"
    by (auto simp: hashtable_new_def)
  then show ?thesis
    by (simp add: table_full_size_def) (simp add: hashtable_new_def)
qed

lemma bucket_insert_None:
  assumes "slabs_full_size bk"
  shows "bucket_insert junk 0 d bk = None \<longleftrightarrow>
    search d bk = None \<or> search d bk = Some (Ok None) \<and> 10000 < 2 * (alignedLenInSizeT (length d) + 2)"
  using append_record_returns [OF assms, of d junk "newID 0 bk"] append_record_diverges [OF assms, of d junk "newID 0 bk"]
  by (cases "2 * (alignedLenInSizeT (length d) + 2) \<le> 10000")
    (auto simp: bucket_insert_def then_do_None_iff not_le split: option.splits)

lemma bucket_insert_full_size:
  "bucket_insert junk 0 d bk = Some (Ok (r, bk')) \<Longrightarrow> slabs_full_size bk \<Longrightarrow> slabs_full_size bk'"
  by (auto simp: bucket_insert_def then_do_Ok_iff split: option.splits intro: append_record_full_size)

text \<open>The search at a position of a slab whose end is below the end of the address space.\<close>

lemma slab_scan_at:
  assumes "unat (sl_base sl) + 8 * p < 2 ^ 64" and "unat (sl_base sl) + 8 * sl_insertAt sl < 2 ^ 64"
  shows "slab_scan d sl (sl_base sl + 8 * word_of_nat p) =
     (if p < sl_insertAt sl
      then (let w = word_at (sl_data sl) p in
        if sl_end sl \<le> p then Some (Fail BadAccess)
        else if w = word_of_nat (length d)
        then (if 8 * sl_end sl < 8 * (p + 1) + length d then Some (Fail BadAccess)
              else if bytes_at (8 * (p + 1)) (length d) (sl_data sl) = d
              then Some (if p = 0 then Fail BadAccess else Ok (Some (p - 1)))
              else slab_scan d sl (sl_base sl + 8 * word_of_nat (p + unat w + 2)))
        else slab_scan d sl (sl_base sl + 8 * word_of_nat (p + unat w + 2)))
      else Some (Ok None))"
proof -
  have u: "unat (8 * word_of_nat n :: u64) = 8 * n" if "8 * n < 2 ^ 64" for n
    using that by (simp add: unat_word_ariths unat_of_nat)
  have sum: "unat (sl_base sl + 8 * word_of_nat n) = unat (sl_base sl) + 8 * n" if "unat (sl_base sl) + 8 * n < 2 ^ 64" for n
    using that u [of n] by (simp add: unat_word_ariths)
  have "slab_position sl (sl_base sl + 8 * word_of_nat p) = p"
    using assms(1) u [of p] by (simp add: slab_position_def)
  note pos = this
  have less: "sl_base sl + 8 * word_of_nat p < sl_base sl + 8 * word_of_nat (sl_insertAt sl) \<longleftrightarrow> p < sl_insertAt sl"
    using sum [OF assms(1)] sum [OF assms(2)] by (simp add: word_less_nat_alt)
  have "sl_base sl + 8 * word_of_nat p + 8 * (w + 2) = sl_base sl + 8 * word_of_nat (p + unat w + 2)" for w :: u64
    by (simp add: algebra_simps)
  then show ?thesis
    by (subst slab_scan.simps) (simp only: Let_def pos less)
qed

text \<open>The search ends when no length field leads around the end of the address space.\<close>

definition fields_small :: "slab \<Rightarrow> bool" where
  "fields_small sl \<longleftrightarrow> unat (sl_base sl) + 8 * (sl_insertAt sl + 1) < 2 ^ 64
     \<and> (\<forall>p < sl_insertAt sl. unat (sl_base sl) + 8 * (p + unat (word_at (sl_data sl) p) + 2) < 2 ^ 64)"

lemma slab_scan_returns:
  assumes "fields_small sl" and "unat (sl_base sl) + 8 * p < 2 ^ 64"
  shows "slab_scan d sl (sl_base sl + 8 * word_of_nat p) \<noteq> None"
  using assms(2)
proof (induction "sl_insertAt sl - p" arbitrary: p rule: less_induct)
  case less
  have lim: "unat (sl_base sl) + 8 * sl_insertAt sl < 2 ^ 64"
    using assms(1) by (simp add: fields_small_def)
  show ?case
  proof (cases "p < sl_insertAt sl")
    case True
    define q where "q = p + unat (word_at (sl_data sl) p) + 2"
    have "unat (sl_base sl) + 8 * q < 2 ^ 64" "sl_insertAt sl - q < sl_insertAt sl - p"
      using assms(1) True by (simp_all add: fields_small_def q_def)
    with less.hyps [of q] have "slab_scan d sl (sl_base sl + 8 * word_of_nat q) \<noteq> None"
      by blast
    then show ?thesis
      unfolding slab_scan_at [OF less.prems lim] Let_def q_def [symmetric] by (simp split del: if_split) (simp split: if_split)
  next
    case False
    then show ?thesis
      unfolding slab_scan_at [OF less.prems lim] by simp
  qed
qed

lemma slab_find_returns: "fields_small sl \<Longrightarrow> slab_find d sl \<noteq> None"
  using slab_scan_returns [of sl 1 d] by (simp add: slab_find_def fields_small_def)

text \<open>The chain of a bucket stays inside its heap.\<close>

definition chain_closed :: "bucket \<Rightarrow> bool" where
  "chain_closed bk \<longleftrightarrow> (\<forall>i. bk_slabs bk = Some i \<longrightarrow> i < length (bk_heap bk))
     \<and> (\<forall>sl \<in> set (bk_heap bk). \<forall>i. sl_next sl = Some i \<longrightarrow> i < length (bk_heap bk))"

lemma search_returns:
  assumes "chain_closed bk" and "\<forall>sl \<in> set (bk_heap bk). fields_small sl"
  shows "search d bk \<noteq> None"
proof -
  have "chain_find n d bk cur \<noteq> None" if "\<forall>i. cur = Some i \<longrightarrow> i < length (bk_heap bk)" for n cur
    using that
  proof (induction n arbitrary: cur)
    case (Suc n)
    show ?case
    proof (cases cur)
      case (Some i)
      then have i: "bk_heap bk ! i \<in> set (bk_heap bk)"
        using Suc.prems by simp
      then have "\<forall>j. sl_next (bk_heap bk ! i) = Some j \<longrightarrow> j < length (bk_heap bk)"
        using assms(1) by (auto simp: chain_closed_def)
      with Suc.IH have "chain_find n d bk (sl_next (bk_heap bk ! i)) \<noteq> None" .
      with Some slab_find_returns [of "bk_heap bk ! i" d] assms(2) i show ?thesis
        by (auto simp: then_do_None_iff split: option.splits)
    qed simp
  qed simp
  then show ?thesis
    using assms(1) by (simp add: search_def chain_closed_def)
qed

text \<open>
  C33: an insertion returns exactly when the search of the bucket of its hash does and, if the search finds nothing,
  twice its record fits into an empty slab (the reservation asks for the place of two records); otherwise it
  allocates slab after slab for ever.  The search returns when no length field that it may look at leads around the
  end of the address space; it need not return otherwise (\<open>search_hangs\<close>).
\<close>

theorem hashtable_insert_returns:
  fixes hash :: "bytes \<Rightarrow> u64" and d :: bytes
  assumes "table_full_size ht"
  defines "bk \<equiv> ht ! unat (bucketIDFromHash (hash d))"
  shows "(hashtable_insert mem hash 0 d ht \<noteq> None \<longleftrightarrow>
      search d bk \<noteq> None \<and> (search d bk = Some (Ok None) \<longrightarrow> 2 * (alignedLenInSizeT (length d) + 2) \<le> 10000))
    \<and> (chain_closed bk \<and> (\<forall>sl \<in> set (bk_heap bk). fields_small sl) \<longrightarrow> search d bk \<noteq> None)
    \<and> (\<forall>r ht'. hashtable_insert mem hash 0 d ht = Some (Ok (r, ht')) \<longrightarrow> table_full_size ht')"
proof -
  let ?b = "unat (bucketIDFromHash (hash d))"
  have full: "slabs_full_size bk"
    using assms bucketIDFromHash_bound by (simp add: table_full_size_def)
  have "hashtable_insert mem hash 0 d ht = None \<longleftrightarrow> bucket_insert (mem ?b) 0 d bk = None"
    by (auto simp: hashtable_insert_def bk_def Let_def then_do_None_iff)
  moreover have "table_full_size ht'" if "hashtable_insert mem hash 0 d ht = Some (Ok (r, ht'))" for r ht'
    using that assms(1) bucket_insert_full_size [OF _ full]
    by (auto simp: hashtable_insert_def Let_def then_do_Ok_iff table_full_size_def bk_def
        dest!: subsetD [OF set_update_subset_insert])
  ultimately show ?thesis
    using bucket_insert_None [OF full] search_returns [of bk d] by (metis not_le)
qed

section \<open>A new table\<close>

text \<open>Memory of a process lies in the lower half of the address space, far from its end.\<close>

definition user_space :: "(nat \<Rightarrow> nat \<Rightarrow> alloc) \<Rightarrow> bool" where
  "user_space mem \<longleftrightarrow> (\<forall>b k. unat (fst (mem b k)) < 2 ^ 47)"

lemma slab_find_new:
  assumes "unat (fst m) < 2 ^ 47"
  shows "slab_find d (slab_new m nxt n) = Some (Ok None)"
  using slab_scan_at [of "slab_new m nxt n" 1 d] assms by (simp add: slab_find_def slab_new_def)

lemma chain_find_fresh:
  assumes "\<And>k. unat (fst (mem k)) < 2 ^ 47" and "\<forall>i. cur = Some i \<longrightarrow> i < 4"
  shows "chain_find n d (setBucketID b (bucket_new mem 4)) cur = Some (Ok None)"
  using assms(2)
proof (induction n arbitrary: cur)
  case (Suc n)
  show ?case
  proof (cases cur)
    case (Some i)
    with Suc.prems have i: "i < 4" by simp
    let ?sl = "slab_new (mem i) (if i = 0 then None else Some (i - 1)) 10000"
    have "bk_heap (setBucketID b (bucket_new mem 4)) ! i = ?sl"
      using i by (simp add: setBucketID_def bucket_new_def del: upt_Suc)
    moreover have "chain_find n d (setBucketID b (bucket_new mem 4)) (sl_next ?sl) = Some (Ok None)"
      using i by (intro Suc.IH) (auto simp: slab_new_def less_imp_diff_less)
    ultimately show ?thesis
      using Some slab_find_new [OF assms(1)] by simp
  qed simp
qed simp

lemma fresh_bucket:
  assumes "b < 256"
  shows "hashtable_new mem ! b = setBucketID (word_of_nat b) (bucket_new (mem b) 4)"
    and "length (hashtable_new mem) = 256" and "slabs_full_size (hashtable_new mem ! b)"
    and "user_space mem \<Longrightarrow> search d (hashtable_new mem ! b) = Some (Ok None)"
proof -
  show bk: "hashtable_new mem ! b = setBucketID (word_of_nat b) (bucket_new (mem b) 4)"
    and "length (hashtable_new mem) = 256"
    using assms by (simp_all add: hashtable_new_def)
  show "slabs_full_size (hashtable_new mem ! b)"
    using hashtable_new_full_size [of mem] assms by (simp add: table_full_size_def)
  show "search d (hashtable_new mem ! b) = Some (Ok None)" if "user_space mem"
  proof -
    have "bk_slabs (hashtable_new mem ! b) = Some 3"
      by (simp add: bk setBucketID_def bucket_new_def)
    then show ?thesis
      using chain_find_fresh [of "mem b" "Some 3"] that unfolding search_def user_space_def bk by simp
  qed
qed

lemma fresh_insert:
  assumes "user_space mem" and "2 * (alignedLenInSizeT (length d) + 2) \<le> 10000"
  shows "\<exists>e ht. hashtable_insert mem hash 0 d (hashtable_new mem)
    = Some (Ok ((unat (bucketIDFromHash (hash d)), e, True), ht))"
proof -
  let ?b = "unat (bucketIDFromHash (hash d))"
  let ?bk = "hashtable_new mem ! ?b"
  note new = fresh_bucket [OF bucketIDFromHash_bound [of "hash d"], of mem]
  obtain r where "append_record (mem ?b) 0 (newID 0 ?bk) d ?bk = Some r"
    using append_record_returns [OF new(3) assms(2)] by blast
  then show ?thesis
    using new(4) [OF assms(1)] by (cases r) (simp add: hashtable_insert_def Let_def bucket_insert_def)
qed

definition zero_memory :: "nat \<Rightarrow> nat \<Rightarrow> alloc" where
  "zero_memory b k = (0x10000, \<lambda>_. 0)"

lemma zero_memory_user_space: "user_space zero_memory"
  by (simp add: user_space_def zero_memory_def)

theorem hashtable_insert_returns_witness:
  "hashtable_insert zero_memory (\<lambda>_. 0) 0 [1, 2, 3] (hashtable_new zero_memory) \<noteq> None"
  using hashtable_insert_returns [OF hashtable_new_full_size [of zero_memory], of zero_memory "\<lambda>_. 0" "[1, 2, 3]"]
    fresh_bucket(4) [OF bucketIDFromHash_bound zero_memory_user_space]
  by (auto simp: alignedLenInSizeT_def)

theorem hashtable_insert_find_witness:
  "\<exists>b e new ht. hashtable_insert zero_memory (\<lambda>_. 0) 0 [1, 2, 3] (hashtable_new zero_memory) = Some (Ok ((b, e, new), ht))
    \<and> record_data (ht ! b) e = [1, 2, 3] \<and> (new \<longrightarrow> hashtable_find (record_id (ht ! b) e) ht = Ok [1, 2, 3])"
proof -
  let ?d = "[1, 2, 3] :: bytes"
  obtain b e new ht where ins: "hashtable_insert zero_memory (\<lambda>_. 0) 0 ?d (hashtable_new zero_memory) = Some (Ok ((b, e, new), ht))"
    using fresh_insert [OF zero_memory_user_space, of ?d "\<lambda>_. 0"] by (force simp: alignedLenInSizeT_def)
  have "alignedLenInSizeT (length ?d) = 1" "length ?d < 2 ^ 64"
    by (simp_all add: alignedLenInSizeT_def)
  from hashtable_insert_find [OF hashtable_new_inv this ins] ins show ?thesis by blast
qed

section \<open>What the search misses\<close>

lemma slab_scan_zero:
  assumes "\<And>p. p < sl_insertAt sl \<Longrightarrow> word_at (sl_data sl) p = 0" and "d \<noteq> []" and "length d < 2 ^ 64"
    and "sl_insertAt sl \<le> sl_end sl" and "unat (sl_base sl) + 8 * (sl_insertAt sl + 2) < 2 ^ 64"
    and "p < sl_insertAt sl + 2"
  shows "slab_scan d sl (sl_base sl + 8 * word_of_nat p) = Some (Ok None)"
  using assms(6)
proof (induction "sl_insertAt sl + 2 - p" arbitrary: p rule: less_induct)
  case less
  have "word_of_nat (length d) \<noteq> (0 :: u64)"
    using assms(2,3) unat_of_nat [of "length d", where 'a = 64] by (auto simp: word_unat_eq_iff)
  moreover have "unat (sl_base sl) + 8 * p < 2 ^ 64" "unat (sl_base sl) + 8 * sl_insertAt sl < 2 ^ 64"
    using less.prems assms(5) by simp_all
  note at = slab_scan_at [OF this, of d]
  ultimately show ?case
    using assms(1) [of p] assms(4) less.hyps [of "p + 2"] less.prems
    by (cases "p < sl_insertAt sl") (simp_all add: at)
qed

lemma word_at_zeros: "(\<forall>x \<in> set (bytes_at (8 * p) 8 m). x = 0) \<Longrightarrow> word_at m p = 0"
proof -
  have "le_nat bs = 0" if "\<forall>x \<in> set bs. x = 0" for bs
    using that by (induction bs) auto
  then show "(\<forall>x \<in> set (bytes_at (8 * p) 8 m). x = 0) \<Longrightarrow> word_at m p = 0"
    by (simp add: word_at_def u64_of_def)
qed

text \<open>The record goes behind the place the search looks at, which is still as \<open>new\<close> gave it.\<close>

lemma first_record_place:
  assumes ins: "slab_insert i d (slab_new m l 10000) = Some (nxt, sl)" and len: "length d < 2 ^ 64"
  shows "sl_insertAt sl = alignedLenInSizeT (length d) + 2" and "sl_base sl = fst m" and "sl_end sl = 10000"
    and "slab_wf sl" and "p < sl_insertAt sl \<Longrightarrow> word_at (sl_data sl) p = word_at (sl_data (slab_new m l 10000)) p"
proof -
  note sl = slab_insert_Some [OF ins slab_new_wf len]
  show n: "sl_insertAt sl = alignedLenInSizeT (length d) + 2" "sl_end sl = 10000" "slab_wf sl"
    using sl(1,3,4,5) by (simp_all add: slab_new_def)
  show "sl_base sl = fst m"
    using ins by (auto simp: slab_insert_def Let_def slab_new_def split: option.splits)
  show "word_at (sl_data sl) p = word_at (sl_data (slab_new m l 10000)) p" if "p < sl_insertAt sl"
    using sl(10) [of "8 * p" 8] sl(4) that by (simp add: word_at_def)
qed

lemma first_record_missed:
  assumes ins: "slab_insert i d (slab_new (a, \<lambda>_. 0) l 10000) = Some (nxt, sl)" and "d \<noteq> []" and len: "length d < 2 ^ 64"
    and a: "unat a < 2 ^ 47"
  shows "slab_find d sl = Some (Ok None)"
proof -
  note first = first_record_place [OF ins len]
  have small: "sl_insertAt sl \<le> 10000"
    using first(3,4) by (simp add: slab_wf_def)
  have "word_at (sl_data sl) p = 0" if "p < sl_insertAt sl" for p
    unfolding first(5) [OF that]
    by (rule word_at_zeros) (auto simp: slab_new_def bytes_at_def dest!: in_set_takeD in_set_dropD)
  then have "slab_scan d sl (sl_base sl + 8 * word_of_nat 1) = Some (Ok None)"
    using small a first by (intro slab_scan_zero assms(2) len) simp_all
  then show ?thesis
    by (simp add: slab_find_def)
qed

lemma duplicates_missed:
  assumes "d \<noteq> []" and "3 * (alignedLenInSizeT (length d) + 2) \<le> 10000" and base: "\<And>b k. unat (base b k) < 2 ^ 47"
  defines "mem \<equiv> (\<lambda>b k. (base b k, \<lambda>_. 0))"
  shows "\<exists>b e e' ht ht'. hashtable_insert mem hash 0 d (hashtable_new mem) = Some (Ok ((b, e, True), ht))
    \<and> hashtable_insert mem hash 0 d ht = Some (Ok ((b, e', True), ht')) \<and> e \<noteq> e'"
proof -
  let ?b = "unat (bucketIDFromHash (hash d))" and ?n = "alignedLenInSizeT (length d) + 2"
  let ?slab = "\<lambda>k nxt. slab_new (mem ?b k) nxt 10000"
  define bk where "bk = setBucketID (word_of_nat ?b) (bucket_new (mem ?b) 4)"
  have len: "length d < 2 ^ 64"
    using aligned_bytes [of "length d"] assms(2) by simp
  have heap: "bk_heap bk = [?slab 0 None, ?slab 1 (Some 0), ?slab 2 (Some 1), ?slab 3 (Some 2)]"
    "bk_slabs bk = Some 3" "bk_threadSlabs bk ! 0 = 3" "bk_elements bk = []"
    by (simp_all add: bk_def setBucketID_def bucket_new_def rev_nth upt_rec numeral_2_eq_2 numeral_3_eq_3)
  have user: "user_space mem"
    using base by (simp add: user_space_def mem_def)
  have empty: "slab_find d (?slab k nxt) = Some (Ok None)" "sl_next (?slab k nxt) = nxt" for k nxt
    using user slab_find_new [of "mem ?b k" d nxt 10000] by (simp_all add: user_space_def) (simp add: slab_new_def)
  obtain nxt sl where ins: "slab_insert (newID 0 bk) d (?slab 3 (Some 2)) = Some (nxt, sl)"
    using assms(2) slab_insert_None [of "newID 0 bk" d "?slab 3 (Some 2)"]
    by (cases "slab_insert (newID 0 bk) d (?slab 3 (Some 2))") (auto simp: slab_new_def)
  note sl = slab_insert_Some [OF ins slab_new_wf len]
  have n: "nxt = ?n" "sl_insertAt sl = ?n" "sl_end sl = 10000" "sl_next sl = Some 2"
    using sl(1,4,5,6) by (simp_all add: slab_new_def)
  define bk1 where "bk1 = bk\<lparr>bk_heap := (bk_heap bk)[3 := sl], bk_elements := [(3, ?n)]\<rparr>"
  have "search d bk = Some (Ok None)"
    by (simp add: search_def heap(1,2) empty)
  moreover have "append_record (mem ?b) 0 (newID 0 bk) d bk = Some ((3, ?n), bk1)"
    using ins by (subst append_record.simps) (simp add: heap n(1) bk1_def)
  ultimately have first: "bucket_insert (mem ?b) 0 d bk = Some (Ok (((3, ?n), True), bk1))"
    by (simp add: bucket_insert_def)
  have "slab_find d sl = Some (Ok None)"
    using ins by (intro first_record_missed [OF _ assms(1) len base, of _ "?b" 3 "Some 2" nxt]) (simp add: mem_def)
  then have chain: "search d bk1 = Some (Ok None)"
    by (simp add: search_def bk1_def heap(1,2) empty n(4) numeral_3_eq_3)
  obtain nxt' sl' where ins': "slab_insert (newID 0 bk1) d sl = Some (nxt', sl')"
    using assms(2) slab_insert_None [of "newID 0 bk1" d sl] n by (cases "slab_insert (newID 0 bk1) d sl") auto
  have nxt': "nxt' = ?n + ?n"
    using slab_insert_Some(1) [OF ins' sl(3) len] n by simp
  have "bk_heap bk1 ! (bk_threadSlabs bk1 ! 0) = sl"
    using heap by (simp add: bk1_def)
  with ins' nxt' have "\<exists>bk2. append_record (mem ?b) 0 (newID 0 bk1) d bk1 = Some ((3, ?n + ?n), bk2)"
    by (subst append_record.simps) (simp add: bk1_def heap)
  with chain obtain bk2 where second: "bucket_insert (mem ?b) 0 d bk1 = Some (Ok (((3, ?n + ?n), True), bk2))"
    by (auto simp: bucket_insert_def)
  note new = fresh_bucket(1,2) [OF bucketIDFromHash_bound [of "hash d"], of mem, folded bk_def]
  then have "hashtable_insert mem hash 0 d (hashtable_new mem) = Some (Ok ((?b, (3, ?n), True), (hashtable_new mem)[?b := bk1]))"
    and "hashtable_insert mem hash 0 d ((hashtable_new mem)[?b := bk1]) =
      Some (Ok ((?b, (3, ?n + ?n), True), (hashtable_new mem)[?b := bk1, ?b := bk2]))"
    using first second bucketIDFromHash_bound [of "hash d"] by (simp_all add: hashtable_insert_def Let_def)
  then show ?thesis by (metis Pair_inject add_cancel_right_left add_is_0 zero_neq_numeral)
qed

text \<open>
  C34: in memory that is zero, the same data is inserted twice: the record goes behind the place
  that was reserved for it, and the search does not look there.
\<close>

theorem hashtable_misses_duplicates:
  assumes "d \<noteq> []" and "3 * (alignedLenInSizeT (length d) + 2) \<le> 10000" and "\<And>b k. unat (base b k) < 2 ^ 47"
  shows "\<exists>b e e' ht ht'. hashtable_insert (\<lambda>b k. (base b k, \<lambda>_. 0)) hash 0 d (hashtable_new (\<lambda>b k. (base b k, \<lambda>_. 0)))
      = Some (Ok ((b, e, True), ht))
    \<and> hashtable_insert (\<lambda>b k. (base b k, \<lambda>_. 0)) hash 0 d ht = Some (Ok ((b, e', True), ht')) \<and> e \<noteq> e'"
  by (rule duplicates_missed [OF assms])

theorem hashtable_misses_duplicates_witness:
  "\<exists>b e e' ht ht'. hashtable_insert zero_memory (\<lambda>_. 0) 0 [1, 2, 3] (hashtable_new zero_memory)
      = Some (Ok ((b, e, True), ht))
    \<and> hashtable_insert zero_memory (\<lambda>_. 0) 0 [1, 2, 3] ht = Some (Ok ((b, e', True), ht')) \<and> e \<noteq> e'"
proof -
  have "zero_memory = (\<lambda>b k. (0x10000, \<lambda>_. 0))"
    by (simp add: fun_eq_iff zero_memory_def)
  then show ?thesis
    using hashtable_misses_duplicates [of "[1, 2, 3]" "\<lambda>_ _. 0x10000" "\<lambda>_. 0"] by (simp add: alignedLenInSizeT_def)
qed

section \<open>A search without end\<close>

text \<open>A field that holds \<open>2 ^ 64 - 2\<close> leads back to itself.\<close>

lemma slab_scan_hangs:
  assumes "e < sl_base sl + 8 * word_of_nat (sl_insertAt sl)" and "slab_position sl e < sl_end sl"
    and "word_at (sl_data sl) (slab_position sl e) = - 2" and "length d < 2 ^ 64 - 2"
  shows "slab_scan d sl e = None"
proof (rule ccontr)
  assume "slab_scan d sl e \<noteq> None"
  then obtain r where r: "slab_scan d sl e = Some r" by auto
  have other: "word_of_nat (length d) \<noteq> (- 2 :: u64)"
  proof
    assume "word_of_nat (length d) = (- 2 :: u64)"
    then have "unat (word_of_nat (length d) :: u64) = unat (- 2 :: u64)" by simp
    with assms(4) show False by (simp add: unat_of_nat)
  qed
  let ?P = "\<lambda>d' sl' e' r. d' = d \<longrightarrow> sl' = sl \<longrightarrow> e' = e \<longrightarrow> False"
  have "?P d sl e r"
  proof (rule slab_scan.raw_induct [where P = ?P, OF _ r], goal_cases)
    case (1 scan d' sl' e' r)
    show ?case
    proof (intro impI)
      assume eq: "d' = d" "sl' = sl" "e' = e"
      have "scan d sl (e + 8 * (- 2 + 2)) = Some r"
        using 1(2) assms(1-3) other unfolding eq by (simp add: Let_def)
      then have "scan d sl e = Some r" by simp
      from 1(1) [OF this] show False by simp
    qed
  qed
  then show False by simp
qed

text \<open>
  Nothing clears the memory of a slab.  If its second field happens to hold this value, the first record goes behind
  it, and every later search of the slab runs for ever.
\<close>

lemma search_hangs:
  assumes ins: "slab_insert i d (slab_new m l 10000) = Some (nxt, sl)" and "length d < 2 ^ 64"
    and "unat (fst m) < 2 ^ 47" and "word_at (sl_data (slab_new m l 10000)) 1 = - 2" and "length d' < 2 ^ 64 - 2"
  shows "slab_find d' sl = None"
  unfolding slab_find_def
proof (rule slab_scan_hangs [OF _ _ _ assms(5)])
  note first = first_record_place [OF ins assms(2)]
  have "sl_insertAt sl \<le> 10000"
    using first(3,4) by (simp add: slab_wf_def)
  then have "unat (8 * word_of_nat (sl_insertAt sl) :: u64) = 8 * sl_insertAt sl"
    by (simp add: unat_word_ariths unat_of_nat)
  moreover from this have "unat (sl_base sl + 8 * word_of_nat (sl_insertAt sl)) = unat (sl_base sl) + 8 * sl_insertAt sl"
    using \<open>sl_insertAt sl \<le> 10000\<close> assms(3) first(2) by (simp add: unat_word_ariths)
  moreover have "unat (sl_base sl + 8) = unat (sl_base sl) + 8"
    using assms(3) first(2) by (simp add: unat_word_ariths)
  ultimately show "sl_base sl + 8 < sl_base sl + 8 * word_of_nat (sl_insertAt sl)"
    using first(1) by (simp add: word_less_nat_alt)
  have pos: "slab_position sl (sl_base sl + 8) = 1"
    by (simp add: slab_position_def)
  show "slab_position sl (sl_base sl + 8) < sl_end sl"
    using first(3) by (simp add: pos)
  show "word_at (sl_data sl) (slab_position sl (sl_base sl + 8)) = - 2"
    using first(1) first(5) [of 1] assms(4) by (simp add: pos)
qed

section \<open>Records of different lengths\<close>

text \<open>
  The place of a record is computed from its own length, but the record before it begins where its place should end:
  a record with a shorter aligned length than the one before it is written over the end of that one.
\<close>

lemma shorter_record_overwrites:
  assumes "slab_insert i d sl = Some (n1, sl1)" and "slab_insert j d' sl1 = Some (n2, sl2)" and "slab_wf sl"
    and "length d < 2 ^ 64" and "length d' < 2 ^ 64" and "8 * (alignedLenInSizeT (length d') + 1) \<le> length d"
  shows "bytes_at (8 * (n1 + 2)) (length d) (sl_data sl1) = d"
    and "bytes_at (8 * (n1 + 2) + 8 * alignedLenInSizeT (length d')) 8 (sl_data sl2) = bytes_u64 j"
proof -
  note one = slab_insert_Some [OF assms(1,3,4)]
  note two = slab_insert_Some [OF assms(2) one(3) assms(5)]
  show "bytes_at (8 * (n1 + 2)) (length d) (sl_data sl1) = d"
    by (rule one(9))
  have "8 * (n1 + 2) + 8 * alignedLenInSizeT (length d') = 8 * n2"
    using two(1) one(4) by simp
  moreover have "length (bytes_at (8 * n2) 8 (sl_data sl2)) = 8"
    using two(2,3,5) by (simp add: slab_wf_def length_bytes_at)
  ultimately show "bytes_at (8 * (n1 + 2) + 8 * alignedLenInSizeT (length d')) 8 (sl_data sl2) = bytes_u64 j"
    using two(7) bytes_u64_u64_of [of "bytes_at (8 * n2) 8 (sl_data sl2)"] by (simp add: word_at_def)
qed

end
