(* ===== verification/Explorer_2.thy ===== *)
theory Explorer_2
  imports Explorer Hash_Table_Laws
begin

text \<open>
  The search \<open>ssgen_st_2\<close> of include/llmc/ssgen.h, which keeps states and chunks in the hash tables of
  \<open>TreeStore_2\<close>.  A stored state is the place of its record: the bucket, the slab and the position.
\<close>

section \<open>The search\<close>

type_synonym place = "nat \<times> nat \<times> nat"

definition place_data :: "tree_store_2 \<Rightarrow> place \<Rightarrow> bytes" where
  "place_data db s = record_data (db ! 0 ! fst s) (snd s)"

record explorer_2 =
  e2_store :: tree_store_2
  e2_queue :: "place list"
  e2_queueNew :: "place list"
  e2_transitions :: u32

definition reportTransition_2 ::
  "(nat \<Rightarrow> nat \<Rightarrow> nat \<Rightarrow> alloc) \<Rightarrow> (bytes \<Rightarrow> u64) \<Rightarrow> bytes \<Rightarrow> explorer_2 \<Rightarrow> explorer_2 outcome option" where
  "reportTransition_2 mem hash state e =
     then_do (tree_store_2_insert mem hash 0 state (e2_store e)) (\<lambda>((b, p, inserted), db).
       let e = e\<lparr>e2_transitions := e2_transitions e + 1, e2_store := db\<rparr>
       in Some (Ok (if inserted then e\<lparr>e2_queueNew := e2_queueNew e @ [(b, p)]\<rparr> else e)))"

primrec report_all_2 ::
  "(nat \<Rightarrow> nat \<Rightarrow> nat \<Rightarrow> alloc) \<Rightarrow> (bytes \<Rightarrow> u64) \<Rightarrow> bytes list \<Rightarrow> explorer_2 \<Rightarrow> explorer_2 outcome option" where
  "report_all_2 mem hash [] e = Some (Ok e)"
| "report_all_2 mem hash (t # ts) e = then_do (reportTransition_2 mem hash t e) (report_all_2 mem hash ts)"

primrec explore_queue_2 ::
  "(nat \<Rightarrow> nat \<Rightarrow> nat \<Rightarrow> alloc) \<Rightarrow> (bytes \<Rightarrow> u64) \<Rightarrow> pins_model \<Rightarrow> place list \<Rightarrow> explorer_2 \<Rightarrow> explorer_2 outcome option" where
  "explore_queue_2 mem hash m [] e = Some (Ok e)"
| "explore_queue_2 mem hash m (s # rest) e =
     then_do (report_all_2 mem hash (getNextAll m (place_data (e2_store e) s)) (e\<lparr>e2_queue := rest\<rparr>))
       (explore_queue_2 mem hash m rest)"

definition explore_level_2 ::
  "(nat \<Rightarrow> nat \<Rightarrow> nat \<Rightarrow> alloc) \<Rightarrow> (bytes \<Rightarrow> u64) \<Rightarrow> pins_model \<Rightarrow> explorer_2 \<Rightarrow> explorer_2 outcome option" where
  "explore_level_2 mem hash m e =
     (let e = e\<lparr>e2_queue := e2_queueNew e, e2_queueNew := e2_queue e\<rparr>
      in explore_queue_2 mem hash m (e2_queue e) e)"

partial_function (option) explore_levels_2 ::
  "(nat \<Rightarrow> nat \<Rightarrow> nat \<Rightarrow> alloc) \<Rightarrow> (bytes \<Rightarrow> u64) \<Rightarrow> pins_model \<Rightarrow> explorer_2 \<Rightarrow> explorer_2 outcome option" where
  "explore_levels_2 mem hash m e =
     then_do (explore_level_2 mem hash m e) (\<lambda>e'.
       if e2_queueNew e' \<noteq> [] then explore_levels_2 mem hash m e' else Some (Ok e'))"

definition explorer_2_start ::
  "(nat \<Rightarrow> nat \<Rightarrow> nat \<Rightarrow> alloc) \<Rightarrow> (bytes \<Rightarrow> u64) \<Rightarrow> pins_model \<Rightarrow> explorer_2 outcome option" where
  "explorer_2_start mem hash m =
     then_do (tree_store_2_insert mem hash 0 (ti_data (getInitial m)) (tree_store_2_new mem 20)) (\<lambda>((b, p, inserted), db).
       Some (Ok \<lparr>e2_store = db, e2_queue = [], e2_queueNew = [(b, p)], e2_transitions = 0\<rparr>))"

definition ssgen_st_2_go ::
  "(nat \<Rightarrow> nat \<Rightarrow> nat \<Rightarrow> alloc) \<Rightarrow> (bytes \<Rightarrow> u64) \<Rightarrow> pins_model \<Rightarrow> explorer_2 outcome option" where
  "ssgen_st_2_go mem hash m = then_do (explorer_2_start mem hash m) (explore_levels_2 mem hash m)"

section \<open>Chunks\<close>

text \<open>An identifier is returned as an \<open>int\<close> and comes back as one.\<close>

definition ssgen_st_2_pins_chunk_put ::
  "(nat \<Rightarrow> nat \<Rightarrow> nat \<Rightarrow> alloc) \<Rightarrow> (bytes \<Rightarrow> u64) \<Rightarrow> nat \<Rightarrow> bytes \<Rightarrow> tree_store_2 \<Rightarrow> (u32 \<times> tree_store_2) outcome option" where
  "ssgen_st_2_pins_chunk_put mem hash type c db =
     then_do (tree_store_2_insert mem hash (type + 1) c db) (\<lambda>((b, p, inserted), db).
       Some (Ok (ucast (record_id (db ! (type + 1) ! b) p), db)))"

definition ssgen_st_2_pins_chunk_get :: "nat \<Rightarrow> u32 \<Rightarrow> tree_store_2 \<Rightarrow> bytes outcome" where
  "ssgen_st_2_pins_chunk_get type idx db = tree_store_2_find (type + 1) (scast idx) db"

text \<open>
  \<open>offset\<close> and \<open>len\<close> are not negative; the copy has the larger of the two lengths.  It is made on the stack of the
  caller: \<open>stack\<close> is what the memory there holds.
\<close>

definition ssgen_st_2_pins_chunk_cam ::
  "(nat \<Rightarrow> byte) \<Rightarrow> (nat \<Rightarrow> nat \<Rightarrow> nat \<Rightarrow> alloc) \<Rightarrow> (bytes \<Rightarrow> u64) \<Rightarrow> nat \<Rightarrow> u32 \<Rightarrow> nat \<Rightarrow> bytes \<Rightarrow> tree_store_2
    \<Rightarrow> (u32 \<times> tree_store_2) outcome option" where
  "ssgen_st_2_pins_chunk_cam stack mem hash type idx offset d db =
     then_do (Some (ssgen_st_2_pins_chunk_get type idx db)) (\<lambda>base.
       let newLength = (if offset + length d > length base then offset + length d else length base);
           copy = put_at offset d (base @ map stack [length base..<newLength])
       in ssgen_st_2_pins_chunk_put mem hash type copy db)"

section \<open>Identifiers as integers\<close>

lemma scast_ucast_small: "scast (ucast i :: u32) = i" if "drop_bit 31 (i :: u64) = 0"
proof (rule bit_word_eqI)
  fix n
  assume "n < LENGTH(64)"
  have high: "\<not> bit i m" if "31 \<le> m" for m
    using arg_cong [OF \<open>drop_bit 31 i = 0\<close>, of "\<lambda>x. bit x (m - 31)"] that by (simp add: bit_drop_bit_eq)
  then show "bit (scast (ucast i :: u32) :: u64) n = bit i n"
    using \<open>n < LENGTH(64)\<close> high by (cases "n < 31") (auto simp: bit_simps min_def)
qed

lemma drop_bit_small: "drop_bit n (x :: u64) = 0" if "unat x < 2 ^ n"
proof -
  have "take_bit n x = x"
    using that by (metis take_bit_nat_eq_self_iff unsigned_take_bit_eq word_unat_eq_iff)
  then have "drop_bit n x = drop_bit n (take_bit n x)" by simp
  also have "\<dots> = 0" by (rule bit_word_eqI) (simp add: bit_simps)
  finally show ?thesis .
qed

text \<open>The identifier of record \<open>k\<close> of bucket \<open>b\<close> survives as an \<open>int\<close> exactly for the lower half of the buckets.\<close>

lemma header_as_int:
  fixes b k :: u64
  assumes "unat b < 256" and "unat k < 2 ^ 24"
  defines "h \<equiv> xor (push_bit (32 - 8) b) k"
  shows "unat b < 128 \<Longrightarrow> scast (ucast h :: u32) = h"
    and "128 \<le> unat b \<Longrightarrow> 256 \<le> unat (getBucketIDFromHeader (scast (ucast h :: u32)))"
proof -
  show "scast (ucast h :: u32) = h" if "unat b < 128"
  proof (rule scast_ucast_small)
    have "drop_bit 31 (push_bit 24 b) = drop_bit 7 b"
    proof (rule bit_word_eqI)
      fix n
      have "\<not> bit b m" if "8 \<le> m" for m
        using arg_cong [OF drop_bit_small [of b 8], of "\<lambda>x. bit x (m - 8)"] assms(1) that by (simp add: bit_drop_bit_eq)
      from this [of "7 + n"] show "bit (drop_bit 31 (push_bit 24 b)) n = bit (drop_bit 7 b) n"
        by (cases "n = 0") (auto simp: bit_simps)
    qed
    also have "\<dots> = 0"
      using that by (intro drop_bit_small) simp
    finally show "drop_bit 31 h = 0"
      using drop_bit_small [of k 31] assms(2) by (simp add: h_def drop_bit_xor)
  qed
  have large: "2 ^ n \<le> unat x" if "bit x n" for x :: u64 and n
  proof (rule ccontr)
    assume "\<not> 2 ^ n \<le> unat x"
    then have "\<not> bit (drop_bit n x) 0"
      by (simp add: drop_bit_small)
    with that show False by (simp add: bit_drop_bit_eq)
  qed
  show "256 \<le> unat (getBucketIDFromHeader (scast (ucast h :: u32)))" if big: "128 \<le> unat b"
  proof -
    have "unat b div 128 = 1"
      using big assms(1) by simp
    then have "bit (unat b) 7"
      by (simp add: bit_iff_odd)
    then have "bit b 7"
      by (simp add: bit_unsigned_iff)
    moreover have "\<not> bit k 31"
      using large [of k 31] assms(2) by auto
    ultimately have "bit h 31"
      by (simp add: h_def bit_simps)
    then have "bit (getBucketIDFromHeader (scast (ucast h :: u32))) 39"
      by (simp add: getBucketIDFromHeader_def bit_simps)
    from large [OF this] show ?thesis by simp
  qed
qed

lemma tree_store_2_insert_at:
  assumes "type < length db" and "hashtable_insert (mem type) hash 0 c (db ! type) = Some (Ok ((b, e, new), ht))"
  shows "tree_store_2_insert mem hash type c db = Some (Ok ((b, e, new), db[type := ht]))"
  using assms by (simp add: tree_store_2_insert_def)

text \<open>
  C35: into a store whose chunks of this type all have one aligned length, fewer than \<open>2 ^ 24\<close> in every bucket, a chunk of
  that length is put for the first time.  It is found by the identifier that was returned exactly if its hash selects one of
  the lower 128 buckets; otherwise the sign of the identifier is extended and the search leaves the table.
\<close>

theorem st_2_chunk_roundtrip:
  assumes "type + 1 < length db" and "table_inv al (db ! (type + 1))" and "alignedLenInSizeT (length c) = al"
    and "length c < 2 ^ 64" and "hashtable_insert (mem (type + 1)) hash 0 c (db ! (type + 1)) = Some (Ok ((b, e, True), ht))"
  shows "\<exists>idx db'. ssgen_st_2_pins_chunk_put mem hash type c db = Some (Ok (idx, db'))
    \<and> ssgen_st_2_pins_chunk_get type idx db' = (if b < 128 then Ok c else Fail BadAccess)"
proof -
  note laws = hashtable_insert_laws [OF assms(2-5)]
  let ?id = "record_id (ht ! b) e" and ?db = "db[type + 1 := ht]" and ?k = "length (bk_elements (db ! (type + 1) ! b))"
  have put: "ssgen_st_2_pins_chunk_put mem hash type c db = Some (Ok (ucast ?id, ?db))"
    using tree_store_2_insert_at [where mem = mem and type = "type + 1", OF assms(1,5)] assms(1) by (simp add: ssgen_st_2_pins_chunk_put_def)
  have few: "?k < 2 ^ 24"
    using assms(2) laws(5) by (simp add: table_inv_def)
  have small: "unat (word_of_nat b :: u64) < 256" "unat (word_of_nat ?k :: u64) < 2 ^ 24" "unat (word_of_nat b :: u64) = b"
    using laws(5) few by (simp_all add: unat_of_nat)
  note id = laws(6) [OF TrueI] and int = header_as_int [OF small(1,2), unfolded small(3)]
  have "length ht = 256"
    using assms(2,5) by (auto simp: hashtable_insert_def table_inv_def Let_def then_do_Ok_iff)
  then have "ssgen_st_2_pins_chunk_get type (ucast ?id) ?db = (if b < 128 then Ok c else Fail BadAccess)"
    using int laws(2) assms(1) id
    by (auto simp: ssgen_st_2_pins_chunk_get_def tree_store_2_find_def) (auto simp: hashtable_find_def Let_def)
  with put show ?thesis by blast
qed

theorem st_2_chunk_roundtrip_witness:
  "\<exists>idx db. ssgen_st_2_pins_chunk_put (\<lambda>_. zero_memory) (\<lambda>_. 0) 0 [1, 2, 3] (tree_store_2_new (\<lambda>_. zero_memory) 20) = Some (Ok (idx, db))
    \<and> ssgen_st_2_pins_chunk_get 0 idx db = Ok [1, 2, 3]"
proof -
  let ?d = "[1, 2, 3] :: bytes"
  have al: "alignedLenInSizeT (length ?d) = 1" and len: "length ?d < 2 ^ 64"
    by (simp_all add: alignedLenInSizeT_def)
  have b: "unat (bucketIDFromHash 0) = 0"
    by (simp add: bucketIDFromHash_def)
  have new: "tree_store_2_new (\<lambda>_. zero_memory) 20 ! (0 + 1) = hashtable_new zero_memory" "0 + 1 < length (tree_store_2_new (\<lambda>_. zero_memory) 20)"
    by (simp_all add: tree_store_2_new_def)
  obtain e ht where "hashtable_insert zero_memory (\<lambda>_. 0) 0 ?d (hashtable_new zero_memory) = Some (Ok ((0, e, True), ht))"
    using fresh_insert [OF zero_memory_user_space, of ?d "\<lambda>_. 0"] by (force simp: b alignedLenInSizeT_def)
  from st_2_chunk_roundtrip [of 0 "tree_store_2_new (\<lambda>_. zero_memory) 20" 1 ?d "\<lambda>_. zero_memory", OF new(2), unfolded new(1), OF hashtable_new_inv al len this]
  show ?thesis by simp
qed

section \<open>A state that is stored twice\<close>

text \<open>
  The start of the search on a state with itself as its successor, in memory that is zero: the state is stored and
  queued again.
\<close>

lemma explorer_2_requeues:
  assumes "ti_data (getInitial m) = d" and "getNextAll m d = [d]" and "d \<noteq> []" and "3 * (alignedLenInSizeT (length d) + 2) \<le> 10000"
    and "\<And>b k. unat (base b k) < 2 ^ 47"
  defines "mem \<equiv> (\<lambda>type b k. (base b k, \<lambda>_. 0))"
  shows "\<exists>e e'. explorer_2_start mem hash m = Some (Ok e) \<and> explore_level_2 mem hash m e = Some (Ok e')
    \<and> e2_queueNew e' \<noteq> []"
proof -
  have type: "mem type = (\<lambda>b k. (base b k, \<lambda>_. 0))" for type
    by (simp add: mem_def)
  obtain b p p' ht ht' where first: "hashtable_insert (mem 0) hash 0 d (hashtable_new (mem 0)) = Some (Ok ((b, p, True), ht))"
    and second: "hashtable_insert (mem 0) hash 0 d ht = Some (Ok ((b, p', True), ht'))"
    using duplicates_missed [OF assms(3,4), where base = base] assms(5) unfolding type by blast
  let ?db = "(tree_store_2_new mem 20)[0 := ht]"
  have new: "0 < length (tree_store_2_new mem 20)" "tree_store_2_new mem 20 ! 0 = hashtable_new (mem 0)" "?db ! 0 = ht" "0 < length ?db"
    by (simp_all add: tree_store_2_new_def)
  have start: "explorer_2_start mem hash m = Some (Ok \<lparr>e2_store = ?db, e2_queue = [], e2_queueNew = [(b, p)], e2_transitions = 0\<rparr>)"
    using tree_store_2_insert_at [OF new(1), of mem hash d] new(2) first by (simp add: explorer_2_start_def assms(1))
  have "length d < 2 ^ 64"
    using aligned_bytes [of "length d"] assms(4) by simp
  then have "place_data ?db (b, p) = d"
    using hashtable_insert_laws(1) [OF hashtable_new_inv refl _ first] new(3) by (simp add: place_data_def)
  then have "\<exists>e'. explore_level_2 mem hash m \<lparr>e2_store = ?db, e2_queue = [], e2_queueNew = [(b, p)], e2_transitions = 0\<rparr> = Some (Ok e')
      \<and> e2_queueNew e' = [(b, p')]"
    using tree_store_2_insert_at [OF new(4), of mem hash d] new(3) second
    by (simp add: explore_level_2_def assms(2) reportTransition_2_def Let_def)
  with start show ?thesis by auto
qed

end
