(* ===== verification/Control_Flow.thy ===== *)
theory Control_Flow
  imports Prelude
begin

text \<open>
  The helpers of libllmc/include/llmc/llvmgen.h that write branches into the generated functions: \<open>If\<close>,
  \<open>If2\<close>, \<open>While\<close>, \<open>For\<close> and \<open>BBComment\<close>, on a function under construction.
\<close>

section \<open>A function under construction\<close>

text \<open>
  Blocks are numbers; a block has its contents before it is part of the function.  The builder inserts at a
  position of a block.  What an ordinary instruction does is left open.
\<close>

datatype ('a, 'c) instr = Op 'a | Br nat | CondBr 'c nat nat

fun isTerminator :: "('a, 'c) instr \<Rightarrow> bool" where
  "isTerminator (Op a) = False"
| "isTerminator (Br l) = True"
| "isTerminator (CondBr c l l') = True"

record ('a, 'c) irbuilder =
  ib_blocks :: "nat \<Rightarrow> ('a, 'c) instr list"
  ib_function :: "nat list"
  ib_next :: nat
  ib_point :: "nat \<times> nat"

definition GetInsertBlock :: "('a, 'c) irbuilder \<Rightarrow> nat" where
  "GetInsertBlock b = fst (ib_point b)"

definition BasicBlock_Create :: "('a, 'c) irbuilder \<Rightarrow> nat \<times> ('a, 'c) irbuilder" where
  "BasicBlock_Create b = (ib_next b, b\<lparr>ib_next := ib_next b + 1, ib_blocks := (ib_blocks b)(ib_next b := [])\<rparr>)"

definition insertInto :: "nat \<Rightarrow> ('a, 'c) irbuilder \<Rightarrow> ('a, 'c) irbuilder" where
  "insertInto l b = b\<lparr>ib_function := ib_function b @ [l]\<rparr>"

definition create_in_function :: "('a, 'c) irbuilder \<Rightarrow> nat \<times> ('a, 'c) irbuilder" where
  "create_in_function b = (let r = BasicBlock_Create b in (fst r, insertInto (fst r) (snd r)))"

definition insert_instr :: "('a, 'c) instr \<Rightarrow> ('a, 'c) irbuilder \<Rightarrow> ('a, 'c) irbuilder" where
  "insert_instr i b =
     (let (l, k) = ib_point b; is = ib_blocks b l
      in b\<lparr>ib_blocks := (ib_blocks b)(l := take k is @ [i] @ drop k is), ib_point := (l, k + 1)\<rparr>)"

text \<open>The insertion point at the end of a block, and before its first instruction.\<close>

definition SetInsertPoint :: "nat \<Rightarrow> ('a, 'c) irbuilder \<Rightarrow> ('a, 'c) irbuilder" where
  "SetInsertPoint l b = b\<lparr>ib_point := (l, length (ib_blocks b l))\<rparr>"

definition SetInsertPoint_first :: "nat \<Rightarrow> ('a, 'c) irbuilder \<Rightarrow> ('a, 'c) irbuilder" where
  "SetInsertPoint_first l b = b\<lparr>ib_point := (l, 0)\<rparr>"

definition getTerminator :: "('a, 'c) irbuilder \<Rightarrow> nat \<Rightarrow> bool" where
  "getTerminator b l \<longleftrightarrow> ib_blocks b l \<noteq> [] \<and> isTerminator (last (ib_blocks b l))"

definition emit_ops :: "'a list \<Rightarrow> ('a, 'c) irbuilder \<Rightarrow> ('a, 'c) irbuilder" where
  "emit_ops ops b = fold (\<lambda>a. insert_instr (Op a)) ops b"

definition BBComment :: "('a, 'c) irbuilder \<Rightarrow> ('a, 'c) irbuilder" where
  "BBComment b = (let r = create_in_function b in SetInsertPoint (fst r) (insert_instr (Br (fst r)) (snd r)))"

section \<open>If\<close>

record 'c if_gen =
  if_cond :: "'c option"
  if_true :: nat
  if_false :: nat
  if_final :: nat
  if_usedTrue :: bool
  if_usedFalse :: bool
  if_insertionPoint :: nat

definition If_new :: "('a, 'c) irbuilder \<Rightarrow> 'c if_gen \<times> ('a, 'c) irbuilder" where
  "If_new b =
     (let insertionPoint = GetInsertBlock b;
          (t, b) = BasicBlock_Create b; (f, b) = BasicBlock_Create b; (e, b) = BasicBlock_Create b
      in (\<lparr>if_cond = None, if_true = t, if_false = f, if_final = e, if_usedTrue = False, if_usedFalse = False,
           if_insertionPoint = insertionPoint\<rparr>, b))"

definition If_setCond :: "'c \<Rightarrow> 'c if_gen \<Rightarrow> 'c if_gen" where
  "If_setCond c g = g\<lparr>if_cond := Some c\<rparr>"

definition If_setTrue :: "nat \<Rightarrow> 'c if_gen \<Rightarrow> 'c if_gen" where
  "If_setTrue l g = g\<lparr>if_true := l\<rparr>"

definition If_setFalse :: "nat \<Rightarrow> 'c if_gen \<Rightarrow> 'c if_gen" where
  "If_setFalse l g = g\<lparr>if_false := l\<rparr>"

definition If_setFinal :: "nat \<Rightarrow> 'c if_gen \<Rightarrow> 'c if_gen" where
  "If_setFinal l g = g\<lparr>if_final := l\<rparr>"

definition If_getTrue :: "'c if_gen \<Rightarrow> nat \<times> 'c if_gen" where
  "If_getTrue g = (if_true g, g\<lparr>if_usedTrue := True\<rparr>)"

definition If_getFalse :: "'c if_gen \<Rightarrow> nat \<times> 'c if_gen" where
  "If_getFalse g = (if_false g, g\<lparr>if_usedFalse := True\<rparr>)"

text \<open>A branch on a condition that was never set uses a null pointer.\<close>

definition CreateCondBr :: "'c option \<Rightarrow> nat \<Rightarrow> nat \<Rightarrow> ('a, 'c) irbuilder \<Rightarrow> ('a, 'c) irbuilder outcome" where
  "CreateCondBr c l l' b = (case c of None \<Rightarrow> Fail BadAccess | Some c \<Rightarrow> Ok (insert_instr (CondBr c l l') b))"

definition If_branch :: "'c if_gen \<Rightarrow> ('a, 'c) irbuilder \<Rightarrow> ('a, 'c) irbuilder outcome" where
  "If_branch g b =
     (if if_usedFalse g then
        (if if_usedTrue g then CreateCondBr (if_cond g) (if_true g) (if_false g) b
         else CreateCondBr (if_cond g) (if_final g) (if_false g) b)
      else
        (if if_usedTrue g then CreateCondBr (if_cond g) (if_true g) (if_final g) b
         else Ok (insert_instr (Br (if_final g)) b)))"

text \<open>A used part becomes part of the function and, unless it has a terminator, goes on at the final block.\<close>

definition close_part :: "bool \<Rightarrow> nat \<Rightarrow> nat \<Rightarrow> ('a, 'c) irbuilder \<Rightarrow> ('a, 'c) irbuilder" where
  "close_part used l final b =
     (if used then
        (let b = insertInto l b
         in if getTerminator b l then b else insert_instr (Br final) (SetInsertPoint l b))
      else b\<lparr>ib_blocks := (ib_blocks b)(l := [])\<rparr>)"

definition If_generate :: "'c if_gen \<Rightarrow> ('a, 'c) irbuilder \<Rightarrow> ('a, 'c) irbuilder outcome" where
  "If_generate g b =
     (if getTerminator b (if_insertionPoint g) then Fail Assertion
      else obind (If_branch g (SetInsertPoint (if_insertionPoint g) b)) (\<lambda>b.
        Ok (SetInsertPoint (if_final g) (insertInto (if_final g)
          (close_part (if_usedFalse g) (if_false g) (if_final g)
            (close_part (if_usedTrue g) (if_true g) (if_final g) b))))))"

section \<open>If2\<close>

text \<open>
  The constructor that is given a final block leaves the two flags uninitialised: their values are parameters.
\<close>

definition If2_new_final ::
  "bool \<Rightarrow> bool \<Rightarrow> 'c \<Rightarrow> nat \<Rightarrow> ('a, 'c) irbuilder \<Rightarrow> 'c if_gen \<times> ('a, 'c) irbuilder" where
  "If2_new_final junkTrue junkFalse c final b =
     (let (t, b) = create_in_function b; (f, b) = create_in_function b
      in (\<lparr>if_cond = Some c, if_true = t, if_false = f, if_final = final, if_usedTrue = junkTrue,
           if_usedFalse = junkFalse, if_insertionPoint = GetInsertBlock b\<rparr>, insert_instr (CondBr c t f) b))"

definition If2_new :: "'c \<Rightarrow> ('a, 'c) irbuilder \<Rightarrow> 'c if_gen \<times> ('a, 'c) irbuilder" where
  "If2_new c b =
     (let (t, b) = create_in_function b; (f, b) = create_in_function b; (e, b) = create_in_function b
      in (\<lparr>if_cond = Some c, if_true = t, if_false = f, if_final = e, if_usedTrue = False, if_usedFalse = False,
           if_insertionPoint = GetInsertBlock b\<rparr>, insert_instr (CondBr c t f) b))"

definition If2_startTrue :: "'c if_gen \<times> ('a, 'c) irbuilder \<Rightarrow> 'c if_gen \<times> ('a, 'c) irbuilder" where
  "If2_startTrue gb = (fst gb\<lparr>if_usedTrue := True\<rparr>, SetInsertPoint (if_true (fst gb)) (snd gb))"

definition If2_startFalse :: "'c if_gen \<times> ('a, 'c) irbuilder \<Rightarrow> 'c if_gen \<times> ('a, 'c) irbuilder" where
  "If2_startFalse gb = (fst gb\<lparr>if_usedFalse := True\<rparr>, SetInsertPoint (if_false (fst gb)) (snd gb))"

text \<open>\<open>endTrue\<close> and \<open>endFalse\<close> are the same.\<close>

definition If2_end :: "'c if_gen \<times> ('a, 'c) irbuilder \<Rightarrow> 'c if_gen \<times> ('a, 'c) irbuilder" where
  "If2_end gb = (fst gb, insert_instr (Br (if_final (fst gb))) (snd gb))"

definition If2_finally :: "'c if_gen \<times> ('a, 'c) irbuilder \<Rightarrow> ('a, 'c) irbuilder" where
  "If2_finally gb =
     (let g = fst gb; b = snd gb;
          b = (if \<not> if_usedFalse g then insert_instr (Br (if_final g)) (SetInsertPoint (if_false g) b) else b);
          b = (if \<not> if_usedTrue g then insert_instr (Br (if_final g)) (SetInsertPoint (if_true g) b) else b)
      in SetInsertPoint (if_final g) b)"

section \<open>While and For\<close>

record 'c loop_gen =
  lp_cond :: "'c option"
  lp_body :: "nat option"
  lp_condBB :: nat
  lp_final :: nat

definition While_new :: "('a, 'c) irbuilder \<Rightarrow> 'c loop_gen \<times> ('a, 'c) irbuilder" where
  "While_new b =
     (let (e, b) = BasicBlock_Create b in (\<lparr>lp_cond = None, lp_body = None, lp_condBB = e, lp_final = e\<rparr>, b))"

definition loop_setCond :: "'c \<Rightarrow> 'c loop_gen \<Rightarrow> 'c loop_gen" where
  "loop_setCond c g = g\<lparr>lp_cond := Some c\<rparr>"

definition loop_setBody :: "nat \<Rightarrow> 'c loop_gen \<Rightarrow> 'c loop_gen" where
  "loop_setBody l g = g\<lparr>lp_body := Some l\<rparr>"

definition loop_setFinal :: "nat \<Rightarrow> 'c loop_gen \<Rightarrow> 'c loop_gen" where
  "loop_setFinal l g = g\<lparr>lp_final := l\<rparr>"

definition loop_getBody :: "'c loop_gen \<times> ('a, 'c) irbuilder \<Rightarrow> nat \<times> 'c loop_gen \<times> ('a, 'c) irbuilder" where
  "loop_getBody gb =
     (case lp_body (fst gb) of
        Some l \<Rightarrow> (l, gb)
      | None \<Rightarrow> (let (l, b) = BasicBlock_Create (snd gb) in (l, fst gb\<lparr>lp_body := Some l\<rparr>, b)))"

definition While_generate :: "'c loop_gen \<Rightarrow> ('a, 'c) irbuilder \<Rightarrow> ('a, 'c) irbuilder" where
  "While_generate g b =
     (let b = (case lp_body g of
            Some l \<Rightarrow> insert_instr (Br (lp_final g)) (SetInsertPoint l (insertInto l b))
          | None \<Rightarrow> insert_instr (Br (lp_final g)) b)
      in SetInsertPoint (lp_final g) (insertInto (lp_final g) b))"

definition For_new :: "('a, 'c) irbuilder \<Rightarrow> 'c loop_gen \<times> ('a, 'c) irbuilder" where
  "For_new b =
     (let (e, b) = BasicBlock_Create b; (c, b) = BasicBlock_Create b
      in (\<lparr>lp_cond = None, lp_body = None, lp_condBB = c, lp_final = e\<rparr>, b))"

definition For_generate :: "'c loop_gen \<Rightarrow> ('a, 'c) irbuilder \<Rightarrow> ('a, 'c) irbuilder outcome" where
  "For_generate g b =
     obind (case lp_body g of
              Some l \<Rightarrow> obind (CreateCondBr (lp_cond g) l (lp_final g) b) (\<lambda>b.
                Ok (insert_instr (Br (lp_final g)) (SetInsertPoint l (insertInto l b))))
            | None \<Rightarrow> Ok (insert_instr (Br (lp_final g)) b))
       (\<lambda>b. Ok (SetInsertPoint (lp_final g) (insertInto (lp_final g) b)))"

section \<open>Running what was built\<close>

fun exec_instrs :: "('a \<Rightarrow> 's \<Rightarrow> 's) \<Rightarrow> ('c \<Rightarrow> 's \<Rightarrow> bool) \<Rightarrow> ('a, 'c) instr list \<Rightarrow> 's \<Rightarrow> nat option \<times> 's" where
  "exec_instrs effect cond [] s = (None, s)"
| "exec_instrs effect cond (Op a # is) s = exec_instrs effect cond is (effect a s)"
| "exec_instrs effect cond (Br l # is) s = (Some l, s)"
| "exec_instrs effect cond (CondBr c l l' # is) s = (Some (if cond c s then l else l'), s)"

text \<open>The block and the state after a number of jumps; a block that is not part of the function, or that
  has no terminator, stops the run.\<close>

fun run_blocks :: "('a \<Rightarrow> 's \<Rightarrow> 's) \<Rightarrow> ('c \<Rightarrow> 's \<Rightarrow> bool) \<Rightarrow> ('a, 'c) irbuilder \<Rightarrow> nat \<Rightarrow> nat \<Rightarrow> 's \<Rightarrow> (nat \<times> 's) option" where
  "run_blocks effect cond b 0 l s = (if l \<in> set (ib_function b) then Some (l, s) else None)"
| "run_blocks effect cond b (Suc n) l s =
     (if l \<in> set (ib_function b) then
        (case exec_instrs effect cond (ib_blocks b l) s of (None, s') \<Rightarrow> None | (Some l', s') \<Rightarrow> run_blocks effect cond b n l' s')
      else None)"

lemma exec_instrs_ops: "exec_instrs effect cond (map Op ops @ is) s = exec_instrs effect cond is (fold effect ops s)"
  by (induction ops arbitrary: s) auto

lemma not_terminator_ops: "\<not> isTerminator (last (map Op ops))" if "ops \<noteq> []"
  using that by (simp add: last_map)

lemma emit_ops_at:
  assumes "ib_point b = (l, k)" and "k \<le> length (ib_blocks b l)"
  shows "emit_ops ops b = b\<lparr>ib_blocks := (ib_blocks b)(l := take k (ib_blocks b l) @ map Op ops @ drop k (ib_blocks b l)),
    ib_point := (l, k + length ops)\<rparr>"
  using assms
proof (induction ops arbitrary: b k)
  case Nil
  then show ?case by (simp add: emit_ops_def)
next
  case (Cons a ops)
  let ?b = "insert_instr (Op a) b"
  have b: "?b = b\<lparr>ib_blocks := (ib_blocks b)(l := take k (ib_blocks b l) @ [Op a] @ drop k (ib_blocks b l)), ib_point := (l, k + 1)\<rparr>"
    using Cons.prems(1) by (simp add: insert_instr_def Let_def)
  have "emit_ops ops ?b = ?b\<lparr>ib_blocks := (ib_blocks ?b)(l := take (k + 1) (ib_blocks ?b l) @ map Op ops @ drop (k + 1) (ib_blocks ?b l)),
    ib_point := (l, k + 1 + length ops)\<rparr>"
    using Cons.prems by (intro Cons.IH) (simp_all add: b)
  moreover have "emit_ops (a # ops) b = emit_ops ops ?b"
    by (simp add: emit_ops_def)
  ultimately show ?case
    using Cons.prems by (simp add: b) (simp add: fun_upd_def)
qed

text \<open>The way the generator uses \<open>If\<close>: the parts are filled after the branches have been written.\<close>

definition fill_part :: "nat \<Rightarrow> 'a list option \<Rightarrow> ('a, 'c) irbuilder \<Rightarrow> ('a, 'c) irbuilder" where
  "fill_part l part b = (case part of None \<Rightarrow> b | Some ops \<Rightarrow> emit_ops ops (SetInsertPoint_first l b))"

definition if_then_else ::
  "'c \<Rightarrow> 'a list option \<Rightarrow> 'a list option \<Rightarrow> ('a, 'c) irbuilder \<Rightarrow> ('a, 'c) irbuilder outcome" where
  "if_then_else c partTrue partFalse b =
     (let (g, b) = If_new b; g = If_setCond c g;
          g = (if partTrue = None then g else snd (If_getTrue g));
          g = (if partFalse = None then g else snd (If_getFalse g))
      in obind (If_generate g b) (\<lambda>b.
        Ok (SetInsertPoint (if_final g) (fill_part (if_false g) partFalse (fill_part (if_true g) partTrue b)))))"

lemma fill_part_eq:
  "fill_part l (Some ops) b = b\<lparr>ib_blocks := (ib_blocks b)(l := map Op ops @ ib_blocks b l), ib_point := (l, length ops)\<rparr>"
  by (simp add: fill_part_def SetInsertPoint_first_def emit_ops_at [of _ l 0])

lemma insert_at_end:
  "insert_instr i (SetInsertPoint l b) = b\<lparr>ib_blocks := (ib_blocks b)(l := ib_blocks b l @ [i]), ib_point := (l, length (ib_blocks b l) + 1)\<rparr>"
  by (simp add: insert_instr_def SetInsertPoint_def Let_def)

lemma fill_part_None: "fill_part l None b = b"
  by (simp add: fill_part_def)

lemma SetInsertPoint_parts:
  "fst (ib_point (SetInsertPoint l b)) = l" "ib_blocks (SetInsertPoint l b) = ib_blocks b"
  "ib_function (SetInsertPoint l b) = ib_function b"
  by (simp_all add: SetInsertPoint_def)

lemma if_then_else_blocks:
  assumes "\<not> getTerminator b l0" and "GetInsertBlock b = l0" and "l0 < ib_next b"
  defines "n \<equiv> ib_next b"
  shows "\<exists>b'. if_then_else c partTrue partFalse b = Ok b' \<and> GetInsertBlock b' = n + 2
    \<and> ib_blocks b' l0 = ib_blocks b l0 @ [if partTrue = None \<and> partFalse = None then Br (n + 2)
      else CondBr c (if partTrue = None then n + 2 else n) (if partFalse = None then n + 2 else n + 1)]
    \<and> (\<forall>ops. partTrue = Some ops \<longrightarrow> ib_blocks b' n = map Op ops @ [Br (n + 2)] \<and> n \<in> set (ib_function b'))
    \<and> (\<forall>ops. partFalse = Some ops \<longrightarrow> ib_blocks b' (n + 1) = map Op ops @ [Br (n + 2)] \<and> n + 1 \<in> set (ib_function b'))
    \<and> ib_blocks b' (n + 2) = [] \<and> set (ib_function b) \<subseteq> set (ib_function b') \<and> n + 2 \<in> set (ib_function b')"
proof -
  have l0: "l0 \<noteq> n" "l0 \<noteq> Suc n" "l0 \<noteq> Suc (Suc n)"
    using assms(3) by (simp_all add: n_def)
  have l0': "fst (ib_point b) = l0"
    using assms(2) by (simp add: GetInsertBlock_def)
  note simps = if_then_else_def If_new_def If_setCond_def If_getTrue_def If_getFalse_def If_generate_def If_branch_def
    close_part_def CreateCondBr_def BasicBlock_Create_def insertInto_def insert_at_end fill_part_eq
    Let_def GetInsertBlock_def fill_part_None SetInsertPoint_parts n_def [symmetric]
  have nt: "\<not> getTerminator (b\<lparr>ib_next := k, ib_blocks := (((ib_blocks b)(n := [], Suc n := []))(Suc (Suc n) := []))\<rparr>) l0" for k
    using assms(1) l0 by (simp add: getTerminator_def)
  have empty: "ib_blocks b' l = [] \<Longrightarrow> \<not> getTerminator b' l" for b' :: "('a, 'c) irbuilder" and l
    by (simp add: getTerminator_def)
  show ?thesis
    by (cases partTrue; cases partFalse) (simp_all add: simps l0 l0' nt empty, use l0 in auto)
qed

text \<open>
  C36: the blocks that \<open>If\<close> builds behind straight-line code run the part selected by the condition, or nothing when
  that part was not asked for, and then reach the final block, where building goes on.
\<close>

theorem if_builds_diamond:
  assumes "ib_blocks b l0 = map Op ops" and "ib_point b = (l0, length ops)" and "l0 < ib_next b" and "l0 \<in> set (ib_function b)"
  shows "\<exists>b' jumps. if_then_else c partTrue partFalse b = Ok b'
    \<and> run_blocks effect cond b' jumps l0 s = Some (GetInsertBlock b',
        let s' = fold effect ops s
        in fold effect (case (if cond c s' then partTrue else partFalse) of None \<Rightarrow> [] | Some part \<Rightarrow> part) s')
    \<and> ib_blocks b' (GetInsertBlock b') = []"
proof -
  let ?n = "ib_next b" and ?s = "fold effect ops s"
  have nt: "\<not> getTerminator b l0"
    using assms(1) not_terminator_ops by (auto simp: getTerminator_def)
  have "GetInsertBlock b = l0"
    using assms(2) by (simp add: GetInsertBlock_def)
  from if_then_else_blocks [OF nt this assms(3), of c partTrue partFalse]
  obtain b' where b': "if_then_else c partTrue partFalse b = Ok b'" "GetInsertBlock b' = ?n + 2"
    "ib_blocks b' l0 = ib_blocks b l0 @ [if partTrue = None \<and> partFalse = None then Br (?n + 2)
      else CondBr c (if partTrue = None then ?n + 2 else ?n) (if partFalse = None then ?n + 2 else ?n + 1)]"
    "\<forall>ops. partTrue = Some ops \<longrightarrow> ib_blocks b' ?n = map Op ops @ [Br (?n + 2)] \<and> ?n \<in> set (ib_function b')"
    "\<forall>ops. partFalse = Some ops \<longrightarrow> ib_blocks b' (?n + 1) = map Op ops @ [Br (?n + 2)] \<and> ?n + 1 \<in> set (ib_function b')"
    "ib_blocks b' (?n + 2) = []" "set (ib_function b) \<subseteq> set (ib_function b')" "?n + 2 \<in> set (ib_function b')"
    by blast
  have l0: "l0 \<in> set (ib_function b')"
    using b'(7) assms(4) by blast
  let ?part = "if cond c ?s then partTrue else partFalse"
  show ?thesis
  proof (cases ?part)
    case None
    then have "exec_instrs effect cond (ib_blocks b' l0) s = (Some (?n + 2), ?s)"
      by (simp add: b'(3) assms(1) exec_instrs_ops split: if_splits)
    then have "run_blocks effect cond b' 1 l0 s = Some (?n + 2, ?s)"
      using l0 b'(8) by simp
    with None b'(1,2,6) show ?thesis
      by (intro exI [of _ b'] exI [of _ 1]) (simp add: Let_def)
  next
    case (Some part)
    let ?l = "if cond c ?s then ?n else ?n + 1"
    have jump: "exec_instrs effect cond (ib_blocks b' l0) s = (Some ?l, ?s)"
      using Some by (auto simp: b'(3) assms(1) exec_instrs_ops split: if_splits)
    have block: "ib_blocks b' ?l = map Op part @ [Br (?n + 2)]" "?l \<in> set (ib_function b')"
      using Some b'(4,5) by (simp_all split: if_splits)
    then have "exec_instrs effect cond (ib_blocks b' ?l) ?s = (Some (?n + 2), fold effect part ?s)"
      by (simp only: exec_instrs_ops exec_instrs.simps)
    with jump block(2) l0 b'(8) have "run_blocks effect cond b' (Suc (Suc 0)) l0 s = Some (?n + 2, fold effect part ?s)"
      by (simp only: run_blocks.simps if_True prod.case option.case)
    with Some b'(1,2,6) show ?thesis
      by (intro exI [of _ b'] exI [of _ "Suc (Suc 0)"]) (simp add: Let_def)
  qed
qed

text \<open>Built at the start of a function of one block, with two numbers as state.\<close>

theorem if_builds_diamond_witness:
  "\<exists>b' jumps. if_then_else () (Some [3 :: nat]) None \<lparr>ib_blocks = (\<lambda>_. [Op 2]), ib_function = [0], ib_next = 1, ib_point = (0, 1)\<rparr> = Ok b'
    \<and> run_blocks (+) (\<lambda>_ s. s = 7) b' jumps 0 5 = Some (GetInsertBlock b', 10)"
  using if_builds_diamond [of "\<lparr>ib_blocks = (\<lambda>_. [Op 2]), ib_function = [0], ib_next = 1, ib_point = (0, 1)\<rparr>" 0 "[2]" "()"
      "Some [3]" None "(+)" "\<lambda>_ s. s = 7" 5]
  by (auto simp: Let_def)

section \<open>Loops that do not loop\<close>

text \<open>
  \<open>While::generate\<close> writes no branch to the body it was given: behind straight-line code the block it started from is left without a
  terminator.  \<open>For::generate\<close> goes from the body to the end, so the body runs at most once.
\<close>

lemma while_body_unreachable:
  assumes "lp_body g = Some l" and "l \<noteq> l0" and "ib_blocks b l0 = map Op ops"
  shows "run_blocks effect cond (While_generate g b) (Suc n) l0 s = None"
proof -
  have "ib_blocks (While_generate g b) l0 = map Op ops"
    using assms by (simp add: While_generate_def insert_at_end insertInto_def SetInsertPoint_parts)
  with exec_instrs_ops [of effect cond ops "[]" s] show ?thesis by simp
qed

lemma for_body_once:
  assumes "lp_body g = Some l" and "lp_cond g = Some c" and "ib_blocks b l = map Op body" and "l0 \<noteq> l"
    and "ib_blocks b l0 = map Op ops" and "ib_point b = (l0, length ops)" and "l0 \<in> set (ib_function b)"
  shows "\<exists>b'. For_generate g b = Ok b' \<and> (let s' = fold effect ops s in
    if cond c s' then run_blocks effect cond b' 2 l0 s = Some (lp_final g, fold effect body s')
    else run_blocks effect cond b' 1 l0 s = Some (lp_final g, s'))"
  using assms
  by (simp add: For_generate_def CreateCondBr_def insert_instr_def insertInto_def SetInsertPoint_def exec_instrs_ops
      numeral_2_eq_2 Let_def)

end
