(* ===== verification/Front_End.thy ===== *)
theory Front_End
  imports Prelude
begin

text \<open>
  The command line programs llmc/main.cpp and ll2dmc/main.cpp: options, the choice of the search, and the
  way from the input file to the shared library that is explored.  The settings, the message
  formatter, files and processes are those of libfrugi; they are parameters, as are the
  translator's view of LLVM and the tools that are run.
\<close>

section \<open>Characters and numbers of the C library\<close>

definition tolower :: "char \<Rightarrow> char" where
  "tolower c = (let n = of_char c :: nat in if 65 \<le> n \<and> n \<le> 90 then char_of (n + 32) else c)"

definition strcasecmp_equal :: "string \<Rightarrow> string \<Rightarrow> bool" where
  "strcasecmp_equal a b \<longleftrightarrow> map tolower a = map tolower b"

definition is_digit :: "char \<Rightarrow> bool" where
  "is_digit c \<longleftrightarrow> 48 \<le> (of_char c :: nat) \<and> (of_char c :: nat) \<le> 57"

definition is_space :: "char \<Rightarrow> bool" where
  "is_space c \<longleftrightarrow> (of_char c :: nat) \<in> {9, 10, 11, 12, 13, 32}"

definition digits_value :: "string \<Rightarrow> int" where
  "digits_value ds = foldl (\<lambda>v c. 10 * v + int (of_char c - 48)) 0 ds"

text \<open>The number at the beginning of a string, as \<open>strtol\<close> reads it.\<close>

definition leading_number :: "string \<Rightarrow> int option" where
  "leading_number s =
     (let t = dropWhile is_space s;
          neg = (t \<noteq> [] \<and> hd t = CHR ''-'');
          u = (if t \<noteq> [] \<and> (hd t = CHR ''-'' \<or> hd t = CHR ''+'') then tl t else t);
          ds = takeWhile is_digit u
      in if ds = [] then None else Some (if neg then - digits_value ds else digits_value ds))"

text \<open>\<open>std::stoi\<close> throws when there is no number, or when it is not an \<open>int\<close>.\<close>

definition stoi :: "string \<Rightarrow> int outcome" where
  "stoi s = (case leading_number s of
       None \<Rightarrow> Fail AbortCall
     | Some n \<Rightarrow> if - (2 ^ 31) \<le> n \<and> n < 2 ^ 31 then Ok n else Fail AbortCall)"

definition atoi :: "string \<Rightarrow> int" where
  "atoi s = (case leading_number s of None \<Rightarrow> 0 | Some n \<Rightarrow> n)"

section \<open>getopt\<close>

text \<open>
  The options of the GNU \<open>getopt\<close>: whether a letter is an option, and whether it takes an
  argument.  Elements that are not options are moved behind the options.
\<close>

type_synonym optspec = "char \<Rightarrow> bool option"
type_synonym optevent = "char \<times> string option"

fun getopt_cluster :: "optspec \<Rightarrow> string \<Rightarrow> string list \<Rightarrow> optevent list \<times> string list" where
  "getopt_cluster spec [] rest = ([], rest)"
| "getopt_cluster spec (c # cs) rest =
     (case spec c of
        Some True \<Rightarrow>
          (if cs \<noteq> [] then ([(c, Some cs)], rest)
           else case rest of [] \<Rightarrow> ([(CHR ''?'', None)], []) | a # as \<Rightarrow> ([(c, Some a)], as))
      | Some False \<Rightarrow> (let r = getopt_cluster spec cs rest in ((c, None) # fst r, snd r))
      | None \<Rightarrow> (let r = getopt_cluster spec cs rest in ((CHR ''?'', None) # fst r, snd r)))"

lemma getopt_cluster_shorter: "length (snd (getopt_cluster spec cs rest)) \<le> length rest"
  by (induction spec cs rest rule: getopt_cluster.induct) (auto simp: Let_def split: option.splits bool.splits list.splits)

function getopt :: "optspec \<Rightarrow> string list \<Rightarrow> optevent list \<times> string list" where
  "getopt spec [] = ([], [])"
| "getopt spec (a # as) =
     (if a = ''--'' then ([], as)
      else if length a > 1 \<and> hd a = CHR ''-'' then
        (let r = getopt_cluster spec (tl a) as; r' = getopt spec (snd r) in (fst r @ fst r', snd r'))
      else (let r = getopt spec as in (fst r, a # snd r)))"
  by pat_completeness auto
termination
  by (relation "measure (\<lambda>(spec, as). length as)") (auto simp: getopt_cluster_shorter less_Suc_eq_le)

section \<open>Options of llmc\<close>

record 's settings_api =
  set_string :: "string \<Rightarrow> string \<Rightarrow> 's \<Rightarrow> 's"
  set_int :: "string \<Rightarrow> int \<Rightarrow> 's \<Rightarrow> 's"
  as_string :: "string \<Rightarrow> 's \<Rightarrow> string"
  insert_key_value :: "string \<Rightarrow> 's \<Rightarrow> 's"
  sub_is_on :: "string \<Rightarrow> string \<Rightarrow> 's \<Rightarrow> bool"

record 's cli =
  cl_settings :: 's
  cl_verbosity :: int
  cl_doPrintHelp :: bool
  cl_doPrintVersion :: bool
  cl_colored :: bool

definition llmc_options :: optspec where
  "llmc_options c =
     (if c \<in> {CHR ''h'', CHR ''q'', CHR ''v''} then Some False
      else if c \<in> {CHR ''m'', CHR ''s'', CHR ''t'', CHR ''-''} then Some True else None)"

definition cli_defaults :: "'s settings_api \<Rightarrow> 's \<Rightarrow> 's cli" where
  "cli_defaults api s =
     \<lparr>cl_settings = set_int api ''storage.bars'' 128 (set_int api ''storage.stats'' 0
        (set_string api ''storage'' ''dtree'' (set_string api ''mc'' ''multicore_bitbetter'' (set_int api ''threads'' 0 s)))),
      cl_verbosity = 0, cl_doPrintHelp = False, cl_doPrintVersion = False, cl_colored = True\<rparr>"

definition long_option :: "'s settings_api \<Rightarrow> string \<Rightarrow> 's cli \<Rightarrow> 's cli" where
  "long_option api optarg cl =
     (if strcasecmp_equal optarg ''help'' then cl\<lparr>cl_doPrintHelp := True\<rparr>
      else if strcasecmp_equal optarg ''no-color'' then cl\<lparr>cl_colored := False\<rparr>
      else if strcasecmp_equal optarg ''color'' then cl\<lparr>cl_colored := True\<rparr>
      else if strcasecmp_equal optarg ''verbose'' then
        (if length optarg > 7 \<and> optarg ! 7 = CHR ''='' then cl\<lparr>cl_verbosity := atoi (drop 8 optarg)\<rparr>
         else cl\<lparr>cl_verbosity := cl_verbosity cl + 1\<rparr>)
      else if strcasecmp_equal optarg ''version'' then cl\<lparr>cl_doPrintVersion := True\<rparr>
      else cl\<lparr>cl_settings := insert_key_value api optarg (cl_settings cl)\<rparr>)"

definition handle_option :: "'s settings_api \<Rightarrow> optevent \<Rightarrow> 's cli \<Rightarrow> 's cli outcome" where
  "handle_option api ev cl =
     (case ev of
        (c, Some optarg) \<Rightarrow>
          (if c = CHR ''t'' then obind (stoi optarg) (\<lambda>n. Ok (cl\<lparr>cl_settings := set_int api ''threads'' n (cl_settings cl)\<rparr>))
           else if c = CHR ''m'' then Ok (cl\<lparr>cl_settings := set_string api ''mc'' optarg (cl_settings cl)\<rparr>)
           else if c = CHR ''s'' then Ok (cl\<lparr>cl_settings := set_string api ''storage'' optarg (cl_settings cl)\<rparr>)
           else if c = CHR ''-'' then Ok (long_option api optarg cl)
           else Ok cl)
      | (c, None) \<Rightarrow>
          (if c = CHR ''h'' then Ok (cl\<lparr>cl_doPrintHelp := True\<rparr>)
           else if c = CHR ''q'' then Ok (cl\<lparr>cl_verbosity := cl_verbosity cl - 1\<rparr>)
           else if c = CHR ''v'' then Ok (cl\<lparr>cl_verbosity := cl_verbosity cl + 1\<rparr>)
           else Ok cl))"

fun handle_options :: "'s settings_api \<Rightarrow> optevent list \<Rightarrow> 's cli \<Rightarrow> 's cli outcome" where
  "handle_options api [] cl = Ok cl"
| "handle_options api (ev # evs) cl = obind (handle_option api ev cl) (handle_options api evs)"

definition parse_options :: "'s settings_api \<Rightarrow> 's \<Rightarrow> string list \<Rightarrow> ('s cli \<times> string list) outcome" where
  "parse_options api s args =
     (let r = getopt llmc_options args
      in obind (handle_options api (fst r) (cli_defaults api s)) (\<lambda>cl. Ok (cl, snd r)))"

text \<open>
  A long option takes no argument from the next element, unlike what the help says of \<open>--mc\<close>, \<open>--storage\<close>
  and \<open>--threads\<close>: the setting gets no value, and the element is the first operand, which is taken for the input file.
\<close>

lemma long_option_argument:
  assumes "opt \<in> {''mc'', ''storage'', ''threads''}" and "arg \<noteq> ''''" and "hd arg \<noteq> CHR ''-''"
    and "file \<noteq> ''''" and "hd file \<noteq> CHR ''-''"
  shows "parse_options api s [''--'' @ opt, arg, file] =
    Ok ((cli_defaults api s)\<lparr>cl_settings := insert_key_value api opt (cl_settings (cli_defaults api s))\<rparr>, [arg, file])"
proof -
  have "a = ''--'' \<longrightarrow> hd a = CHR ''-''" for a by simp
  then have "arg \<noteq> ''--''" "file \<noteq> ''--''"
    using assms(3,5) by auto
  then have "getopt llmc_options [''--'' @ opt, arg, file] = ([(CHR ''-'', Some opt)], [arg, file])"
    using assms by (auto simp: llmc_options_def)
  moreover have "\<not> strcasecmp_equal opt x" if "x \<in> {''help'', ''no-color'', ''color'', ''verbose'', ''version''}" for x
    using assms(1) that by (auto simp: strcasecmp_equal_def tolower_def Let_def)
  ultimately show ?thesis
    by (simp add: parse_options_def handle_option_def long_option_def)
qed

section \<open>The choice of the search\<close>

datatype model_checker = MultiCoreModelCheckerSimple | MultiCoreModelChecker | SingleCoreModelChecker
datatype storage = StdMap | cchm | TreeDBSStorage_StdMap | TreeDBSStorage_cchm | TreeDBSStorageModified | DTreeStorage
datatype printer = DotPrinter | DotPrinterEndOnly | VoidPrinter

definition goSelectPrinter :: "'s settings_api \<Rightarrow> 's \<Rightarrow> printer" where
  "goSelectPrinter api s =
     (if as_string api ''listener'' s = ''dotall'' then DotPrinter
      else if as_string api ''listener'' s = ''dotend'' then DotPrinterEndOnly
      else VoidPrinter)"

text \<open>The left value is the error that is reported.\<close>

definition goSelectStorage :: "'s settings_api \<Rightarrow> 's \<Rightarrow> string + storage \<times> printer" where
  "goSelectStorage api s =
     (let name = as_string api ''storage'' s in
      if name = ''stdmap'' then Inr (StdMap, goSelectPrinter api s)
      else if name = ''cchm'' then Inr (cchm, goSelectPrinter api s)
      else if name = ''treedbs_stdmap'' then Inr (TreeDBSStorage_StdMap, goSelectPrinter api s)
      else if name = ''treedbs_cchm'' then Inr (TreeDBSStorage_cchm, goSelectPrinter api s)
      else if name = ''treedbsmod'' then Inr (TreeDBSStorageModified, goSelectPrinter api s)
      else if name = ''dtree'' then Inr (DTreeStorage, goSelectPrinter api s)
      else Inl (''No such storage component: '' @ name))"

definition go :: "'s settings_api \<Rightarrow> 's \<Rightarrow> string + model_checker \<times> storage \<times> printer" where
  "go api s =
     (let name = as_string api ''mc'' s; with = (\<lambda>mc. map_sum id (\<lambda>sp. (mc, sp)) (goSelectStorage api s)) in
      if name = ''multicore_simple'' then with MultiCoreModelCheckerSimple
      else if name = ''multicore_bitbetter'' then with MultiCoreModelChecker
      else if name = ''singlecore_simple'' then with SingleCoreModelChecker
      else Inl (''No such model checker: '' @ name))"

end
