(* ===== verification/IR.thy ===== *)
theory IR
  imports Prelude
begin

text \<open>
  The part of the input LLVM IR the generator reads, and the generator's own tables.  Every
  instruction carries a number that stands for its address (\<open>Instruction*\<close>), so the
  generator's maps keyed by pointers are functions of that number; a basic block is the
  list of its instructions and a successor is a block index.
\<close>

section \<open>Types, values and instructions of the input program\<close>

datatype ty =
    VoidTy | IntTy nat | FloatTy nat | PtrTy ty | StructTy "ty list" | ArrayTy nat ty
  | FunTy ty "ty list" bool

text \<open>
  Values as \<open>vMap\<close> tells them apart: constants (with the bytes a store of them writes),
  global variables, functions, constant expressions (opcode and operands), and the
  registers, that is arguments and results of instructions.
\<close>

datatype val =
    ConstV ty bytes
  | GlobalV string
  | FunctionV string
  | ExprV string "val list" ty
  | ArgV string nat
  | InstV string nat

datatype rmw_op =
    RMW_Xchg | RMW_Add | RMW_Sub | RMW_And | RMW_Nand | RMW_Or | RMW_Xor | RMW_Max | RMW_Min
  | RMW_UMax | RMW_UMin | RMW_FAdd | RMW_FSub | RMW_Bad

record call_inst =
  c_asm :: "(string \<times> string) option"
  c_callee :: val
  c_fty :: ty
  c_args :: "(val \<times> ty) list"

datatype opcode =
    Alloca ty
  | Load val bool
  | Store val ty val bool
  | Ret "(val \<times> ty) option"
  | Br "val option" "nat list"
  | Switch | IndirectBr | Invoke | Resume | Unreachable | CleanupRet | CatchRet | CatchSwitch
  | GetElementPtr "val list"
  | Fence
  | AtomicCmpXchg val val val ty
  | AtomicRMW rmw_op val val ty
  | CleanupPad
  | PHI "(nat \<times> val) list"
  | Call call_inst
  | VAArg
  | ExtractElement "val list" | InsertElement "val list"
  | ShuffleVector
  | ExtractValue val ty "nat list"
  | InsertValue "val list"
  | LandingPad
  | OtherOp string "val list"

record instruction =
  i_id :: nat
  i_ty :: ty
  i_op :: opcode

record func =
  f_name :: string
  f_params :: "ty list"
  f_vararg :: bool
  f_decl :: bool
  f_blocks :: "instruction list list"

record global_var =
  g_name :: string
  g_ty :: ty
  g_init :: "bytes option"

record ir_module =
  m_globals :: "global_var list"
  m_functions :: "func list"

definition getFunction :: "ir_module \<Rightarrow> string \<Rightarrow> func option" where
  "getFunction m n = find (\<lambda>F. f_name F = n) (m_functions m)"

text \<open>\<open>CallInst::getCalledFunction\<close>: the callee when it is a function, null otherwise.\<close>

definition getCalledFunction :: "ir_module \<Rightarrow> call_inst \<Rightarrow> func option" where
  "getCalledFunction m c = (case c_callee c of FunctionV n \<Rightarrow> getFunction m n | _ \<Rightarrow> None)"

definition isIntrinsic :: "func \<Rightarrow> bool" where
  "isIntrinsic F \<longleftrightarrow> take 5 (f_name F) = ''llvm.''"

definition f_insts :: "func \<Rightarrow> instruction list" where
  "f_insts F = concat (f_blocks F)"

section \<open>The tables of the generator\<close>

text \<open>
  A transition group describes instructions for one thread slot, with the emitter flag the
  generator recorded, or one of the two default groups given by a lambda.
\<close>

datatype lambda_group = ConstructorsGroup | MainGroup

datatype tgroup =
    TGInstructions nat "instruction list" bool
  | TGLambda lambda_group

record generator =
  gn_module :: ir_module
  gn_assumeNonAtomicCollapsable :: bool
  gn_programLocations :: "nat \<Rightarrow> nat"
  gn_nextProgramLocation :: nat
  gn_transitionGroups :: "tgroup list"
  gn_argIndex :: "string \<Rightarrow> nat \<Rightarrow> nat option"
  gn_instIndex :: "nat \<Rightarrow> nat option"
  gn_globalIndex :: "string \<Rightarrow> nat option"
  gn_registerTypes :: "string \<Rightarrow> ty list"
  gn_globalTypes :: "ty list"

abbreviation MAX_THREADS :: nat where "MAX_THREADS \<equiv> 6"

definition generator_new :: "ir_module \<Rightarrow> bool \<Rightarrow> generator" where
  "generator_new m na =
     \<lparr>gn_module = m, gn_assumeNonAtomicCollapsable = na, gn_programLocations = (\<lambda>_. 0),
      gn_nextProgramLocation = 1, gn_transitionGroups = [], gn_argIndex = (\<lambda>_ _. None),
      gn_instIndex = (\<lambda>_. None), gn_globalIndex = (\<lambda>_. None), gn_registerTypes = (\<lambda>_. []),
      gn_globalTypes = []\<rparr>"

end
