(* ===== verification/Vector_Store.thy ===== *)
theory Vector_Store
  imports Type_Store
begin

text \<open>
  The storage interface of the generated code and its provider in this repository.

  The generated model calls the storage of the model checker through the functions
  \<open>dmc_insertB\<close>, \<open>dmc_deltaB\<close>, \<open>dmc_get\<close> and \<open>dmc_getpartB\<close>, which live in DMC and are a
  parameter of the model (the record \<open>dmc_api\<close>).  What the generated code relies on is the
  locale \<open>vector_store\<close> (append-only, content addressed by an identifier) and its
  extension \<open>delta_store\<close> (clone and modify).  The provider is the chunk interface of
  \<open>ssgen_st\<close> (include/llmc/ssgen.h) over the tree store.
\<close>

section \<open>The interface\<close>

record 's dmc_api =
  insertB :: "'s \<Rightarrow> bytes \<Rightarrow> u64 \<times> 's"
  deltaB :: "'s \<Rightarrow> u64 \<Rightarrow> nat \<Rightarrow> bytes \<Rightarrow> u64 \<times> 's"
  getB :: "'s \<Rightarrow> u64 \<Rightarrow> bytes option"
  getpartB :: "'s \<Rightarrow> u64 \<Rightarrow> nat \<Rightarrow> nat \<Rightarrow> bytes option"

locale vector_store =
  fixes api :: "'s dmc_api"
    and inv :: "'s \<Rightarrow> bool"
    and room :: "nat \<Rightarrow> 's \<Rightarrow> bool"
    and content :: "'s \<Rightarrow> u64 \<Rightarrow> bytes option"
  assumes get: "inv s \<Longrightarrow> content s i = Some x \<Longrightarrow> getB api s i = Some x"
    and getpart: "inv s \<Longrightarrow> content s i = Some x \<Longrightarrow> off + n \<le> length x \<Longrightarrow>
      getpartB api s i off n = Some (bytes_at off n x)"
    and insert_inv: "inv s \<Longrightarrow> room (Suc n) s \<Longrightarrow> inv (snd (insertB api s d))"
    and insert_room: "inv s \<Longrightarrow> room (Suc n) s \<Longrightarrow> room n (snd (insertB api s d))"
    and insert_content: "inv s \<Longrightarrow> room (Suc n) s \<Longrightarrow>
      content (snd (insertB api s d)) (fst (insertB api s d)) = Some d"
    and insert_nonzero: "inv s \<Longrightarrow> room (Suc n) s \<Longrightarrow> fst (insertB api s d) \<noteq> 0"
    and insert_frame: "inv s \<Longrightarrow> room (Suc n) s \<Longrightarrow> content s i = Some x \<Longrightarrow>
      content (snd (insertB api s d)) i = Some x"
begin

lemmas insert_laws = insert_inv insert_room insert_content insert_nonzero insert_frame

lemma get_insert:
  "inv s \<Longrightarrow> room (Suc n) s \<Longrightarrow> insertB api s d = (i, s') \<Longrightarrow> getB api s' i = Some d"
  using insert_content [of s n d] insert_inv [of s n d] get by simp

lemma get_after_insert:
  "inv s \<Longrightarrow> room (Suc n) s \<Longrightarrow> insertB api s d = (i, s') \<Longrightarrow> content s j = Some x \<Longrightarrow>
   getB api s' j = Some x"
  using insert_frame [of s n j x d] insert_inv [of s n d] get by simp

end

locale delta_store = vector_store +
  assumes delta_inv: "inv s \<Longrightarrow> room (Suc n) s \<Longrightarrow> content s i = Some x \<Longrightarrow>
      inv (snd (deltaB api s i off d))"
    and delta_room: "inv s \<Longrightarrow> room (Suc n) s \<Longrightarrow> content s i = Some x \<Longrightarrow>
      room n (snd (deltaB api s i off d))"
    and delta_nonzero: "inv s \<Longrightarrow> room (Suc n) s \<Longrightarrow> content s i = Some x \<Longrightarrow>
      fst (deltaB api s i off d) \<noteq> 0"
    and delta_frame: "inv s \<Longrightarrow> room (Suc n) s \<Longrightarrow> content s i = Some x \<Longrightarrow>
      content s j = Some y \<Longrightarrow> content (snd (deltaB api s i off d)) j = Some y"
    and delta_inside: "inv s \<Longrightarrow> room (Suc n) s \<Longrightarrow> content s i = Some x \<Longrightarrow>
      off + length d \<le> length x \<Longrightarrow>
      content (snd (deltaB api s i off d)) (fst (deltaB api s i off d)) = Some (put_at off d x)"
    and delta_extend: "inv s \<Longrightarrow> room (Suc n) s \<Longrightarrow> content s i = Some x \<Longrightarrow>
      length x \<le> off + length d \<Longrightarrow>
      \<exists>gap. length gap = off - length x \<and>
        content (snd (deltaB api s i off d)) (fst (deltaB api s i off d))
          = Some (take off x @ gap @ d)"
begin

lemmas delta_laws = delta_inv delta_room delta_nonzero delta_frame

text \<open>Reading back the range that was written, whether it lies inside the vector or not.\<close>

lemma getpart_delta_same:
  assumes "inv s" "room (Suc n) s" "content s i = Some x" "deltaB api s i off d = (j, s')"
  shows "getpartB api s' j off (length d) = Some d"
proof (cases "off + length d \<le> length x")
  case True
  with assms delta_inside [OF assms(1-3) True] delta_inv [OF assms(1-3), of off d]
  show ?thesis
    by (simp add: getpart byte_simps)
next
  case False
  then obtain gap where gap: "length gap = off - length x"
      "content s' j = Some (take off x @ gap @ d)"
    using delta_extend [OF assms(1-3), of off d] assms(4) by auto
  have "bytes_at off (length d) (take off x @ gap @ d) = d"
    using gap(1) by (simp add: bytes_at_def)
  moreover have "inv s'"
    using delta_inv [OF assms(1-3), of off d] assms(4) by simp
  ultimately show ?thesis
    using gap by (simp add: getpart)
qed

text \<open>A disjoint range inside the old vector is not changed.\<close>

lemma getpart_delta_disjoint:
  assumes "inv s" "room (Suc n) s" "content s i = Some x" "deltaB api s i off d = (j, s')"
    and "off' + m \<le> off \<or> off + length d \<le> off'" and "off' + m \<le> length x"
  shows "getpartB api s' j off' m = Some (bytes_at off' m x)"
proof -
  have inv': "inv s'"
    using delta_inv [OF assms(1-3), of off d] assms(4) by simp
  show ?thesis
  proof (cases "off + length d \<le> length x")
    case True
    then have "content s' j = Some (put_at off d x)"
      using delta_inside [OF assms(1-3) True] assms(4) by simp
    with inv' True assms(5,6) show ?thesis
      by (simp add: getpart byte_simps)
  next
    case False
    then obtain gap where gap: "length gap = off - length x"
        "content s' j = Some (take off x @ gap @ d)"
      using delta_extend [OF assms(1-3), of off d] assms(4) by auto
    have "off' + m \<le> off"
      using False assms(5,6) by linarith
    then have "bytes_at off' m (take off x @ gap @ d) = bytes_at off' m x"
      using assms(6) by (simp add: bytes_at_def drop_take) linarith
    with inv' gap assms(6) \<open>off' + m \<le> off\<close> show ?thesis
      by (simp add: getpart)
  qed
qed

text \<open>The old vector itself is still there: stored vectors are immutable.\<close>

lemma get_delta_old:
  assumes "inv s" "room (Suc n) s" "content s i = Some x" "deltaB api s i off d = (j, s')"
    and "content s k = Some y"
  shows "getB api s' k = Some y"
  using delta_frame [OF assms(1-3,5), of off d] delta_inv [OF assms(1-3), of off d] assms(4) get
  by simp

end

section \<open>The provider: chunks of ssgen_st\<close>

text \<open>
  A chunk is a byte vector; its length field is the length of the vector.  The functions
  return the identifier as a C \<open>int\<close>, so it is truncated to 32 bits, and take it back with a
  sign extension to \<open>size_t\<close>.  \<open>pins_chunk_cam\<close> builds the new vector in a buffer from
  \<open>alloca\<close>, whose initial content is the parameter \<open>junk\<close>.
\<close>

definition ssgen_st_pins_chunk_put :: "nat \<Rightarrow> bytes \<Rightarrow> tree_store \<Rightarrow> u32 \<times> tree_store" where
  "ssgen_st_pins_chunk_put type c db =
     (let res = tree_store_insert (type + 1) (type_instance_new c True) db
      in (word_of_nat (ti_id (fst (fst res))), snd res))"

definition ssgen_st_pins_chunk_get :: "nat \<Rightarrow> u32 \<Rightarrow> tree_store \<Rightarrow> bytes outcome" where
  "ssgen_st_pins_chunk_get type idx db =
     obind (tree_store_find (type + 1) (unat (scast idx :: u64)) db) (\<lambda>ti. Ok (ti_data ti))"

definition ssgen_st_pins_chunk_cam ::
  "(nat \<Rightarrow> byte) \<Rightarrow> nat \<Rightarrow> u32 \<Rightarrow> nat \<Rightarrow> bytes \<Rightarrow> tree_store \<Rightarrow> (u32 \<times> tree_store) outcome" where
  "ssgen_st_pins_chunk_cam junk type idx offset d db =
     obind (tree_store_find (type + 1) (unat (scast idx :: u64)) db) (\<lambda>ti.
       let newLength = (if offset + length d > ti_length ti then offset + length d else ti_length ti);
           copy = map junk [0..<newLength];
           copy = put_at 0 (ti_data ti) copy;
           copy = put_at offset d copy;
           res = tree_store_insert (type + 1) (type_instance_new copy True) db
       in Ok (word_of_nat (ti_id (fst (fst res))), snd res))"

definition ssgen_api :: "(nat \<Rightarrow> byte) \<Rightarrow> nat \<Rightarrow> tree_store dmc_api" where
  "ssgen_api junk type =
     \<lparr>insertB = (\<lambda>db d. let res = ssgen_st_pins_chunk_put type d db in (ucast (fst res), snd res)),
      deltaB = (\<lambda>db i off d.
        case ssgen_st_pins_chunk_cam junk type (ucast i) off d db of
          Ok res \<Rightarrow> (ucast (fst res), snd res)
        | _ \<Rightarrow> (0, db)),
      getB = (\<lambda>db i.
        case ssgen_st_pins_chunk_get type (ucast i) db of Ok x \<Rightarrow> Some x | _ \<Rightarrow> None),
      getpartB = (\<lambda>db i off n.
        case ssgen_st_pins_chunk_get type (ucast i) db of
          Ok x \<Rightarrow> (if off + n \<le> length x then Some (bytes_at off n x) else None)
        | _ \<Rightarrow> None)\<rparr>"

text \<open>A numbering with fewer than \<open>2 ^ 31\<close> entries never loses bits of an identifier.\<close>

definition ssgen_inv :: "nat \<Rightarrow> tree_store \<Rightarrow> bool" where
  "ssgen_inv type db \<longleftrightarrow> tree_store_inv db \<and> length (tree_contents (type + 1) db) < 2 ^ 31"

definition ssgen_room :: "nat \<Rightarrow> nat \<Rightarrow> tree_store \<Rightarrow> bool" where
  "ssgen_room type n db \<longleftrightarrow> length (tree_contents (type + 1) db) + n < 2 ^ 31"

definition ssgen_content :: "nat \<Rightarrow> tree_store \<Rightarrow> u64 \<Rightarrow> bytes option" where
  "ssgen_content type db i =
     (if 0 < unat i \<and> unat i \<le> length (tree_contents (type + 1) db)
      then Some (tree_contents (type + 1) db ! (unat i - 1)) else None)"

lemma unat_scast_small:
  assumes "unat (w :: u32) < 2 ^ 31"
  shows "unat (scast w :: u64) = unat w"
proof -
  define n where "n = unat w"
  have w: "w = word_of_nat n"
    by (simp add: n_def)
  have n: "n < 2 ^ 31"
    using assms by (simp only: n_def)
  then have "int n < 2 ^ 31"
    by simp
  then have "signed_take_bit 31 (int n) = int n"
    by (simp add: signed_take_bit_int_eq_self)
  then have s: "sint w = int n"
    by (simp add: w signed_of_nat)
  have "scast w = (word_of_nat n :: u64)"
    by (simp only: scast_eq s of_int_of_nat_eq)
  with n show ?thesis
    by (simp add: w unat_of_nat)
qed

lemma unat_ucast_u64_u32 [simp]: "unat (i :: u64) < 2 ^ 32 \<Longrightarrow> unat (ucast i :: u32) = unat i"
  by (simp add: unsigned_ucast_eq take_bit_nat_eq_self)

lemma unat_ucast_u32_u64 [simp]: "unat (ucast (i :: u32) :: u64) = unat i"
  using unat_less_power [of i] by (simp add: unsigned_ucast_eq take_bit_nat_eq_self)

lemma ssgen_get_content:
  assumes "ssgen_inv type db" and "ssgen_content type db i = Some x"
  shows "ssgen_st_pins_chunk_get type (ucast i) db = Ok x"
    and "\<exists>ti. tree_store_find (type + 1) (unat (scast (ucast i :: u32) :: u64)) db = Ok ti \<and>
          ti_data ti = x"
proof -
  from assms have i: "0 < unat i" "unat i \<le> length (tree_contents (type + 1) db)"
      "x = tree_contents (type + 1) db ! (unat i - 1)" and "unat i < 2 ^ 31"
    by (auto simp: ssgen_content_def ssgen_inv_def split: if_splits)
  then have "unat (scast (ucast i :: u32) :: u64) = unat i"
    by (simp add: unat_scast_small)
  then show ex: "\<exists>ti. tree_store_find (type + 1) (unat (scast (ucast i :: u32) :: u64)) db = Ok ti \<and>
          ti_data ti = x"
    using tree_store_find_contents [of db "unat i" "type + 1"] i assms(1)
    by (auto simp: ssgen_inv_def)
  then show "ssgen_st_pins_chunk_get type (ucast i) db = Ok x"
    by (auto simp: ssgen_st_pins_chunk_get_def)
qed

text \<open>One lemma on an insertion carries both \<open>insertB\<close> and \<open>deltaB\<close>.\<close>

lemma ssgen_insert:
  fixes type :: nat and d :: bytes
  assumes "ssgen_inv type db" and "ssgen_room type (Suc n) db"
  defines "res \<equiv> tree_store_insert (type + 1) (type_instance_new d True) db"
  defines "i \<equiv> (ucast (word_of_nat (ti_id (fst (fst res))) :: u32) :: u64)"
  shows "ssgen_inv type (snd res)" and "ssgen_room type n (snd res)" and "i \<noteq> 0"
    and "ssgen_content type (snd res) i = Some d"
    and "ssgen_content type db j = Some x \<Longrightarrow> ssgen_content type (snd res) j = Some x"
proof -
  note ins = tree_store_insert_props [where type = "type + 1" and ti = "type_instance_new d True"
      and db = db, folded res_def]
  have inv: "tree_store_inv db"
    using assms(1) by (simp add: ssgen_inv_def)
  have len: "length (tree_contents (type + 1) (snd res)) \<le> Suc (length (tree_contents (type + 1) db))"
    using ins(2) [OF inv] by simp
  show "ssgen_inv type (snd res)" "ssgen_room type n (snd res)"
    using ins(1) [OF inv] len assms(2) by (simp_all add: ssgen_inv_def ssgen_room_def)
  have "ti_id (fst (fst res)) < 2 ^ 31"
    using ins(5) [OF inv] len assms(2) by (simp add: ssgen_room_def)
  then have i: "unat i = ti_id (fst (fst res))"
    by (simp add: i_def unat_of_nat)
  then show "i \<noteq> 0"
    using ins(4) [OF inv] by auto
  show "ssgen_content type (snd res) i = Some d"
    using ins(4-6) [OF inv] by (simp add: ssgen_content_def i)
  show "ssgen_content type db j = Some x \<Longrightarrow> ssgen_content type (snd res) j = Some x"
    using ins(2) [OF inv] by (auto simp: ssgen_content_def nth_append split: if_splits)
qed

lemma ssgen_insertB:
  "insertB (ssgen_api junk type) db d =
     (ucast (word_of_nat (ti_id (fst (fst (tree_store_insert (type + 1) (type_instance_new d True) db)))) :: u32),
      snd (tree_store_insert (type + 1) (type_instance_new d True) db))"
  by (simp add: ssgen_api_def ssgen_st_pins_chunk_put_def Let_def)

lemma ssgen_insertB_laws:
  assumes "ssgen_inv type db" and "ssgen_room type (Suc n) db"
  shows "ssgen_inv type (snd (insertB (ssgen_api junk type) db d))"
    and "ssgen_room type n (snd (insertB (ssgen_api junk type) db d))"
    and "fst (insertB (ssgen_api junk type) db d) \<noteq> 0"
    and "ssgen_content type (snd (insertB (ssgen_api junk type) db d))
      (fst (insertB (ssgen_api junk type) db d)) = Some d"
    and "ssgen_content type db j = Some x \<Longrightarrow>
      ssgen_content type (snd (insertB (ssgen_api junk type) db d)) j = Some x"
  unfolding ssgen_insertB fst_conv snd_conv
  by (rule ssgen_insert [OF assms], rule ssgen_insert [OF assms], rule ssgen_insert [OF assms],
      rule ssgen_insert [OF assms], rule ssgen_insert(5) [OF assms])

definition cam_bytes :: "(nat \<Rightarrow> byte) \<Rightarrow> nat \<Rightarrow> bytes \<Rightarrow> bytes \<Rightarrow> bytes" where
  "cam_bytes junk off d x =
     (if off + length d \<le> length x then put_at off d x
      else take off x @ map junk [length x..<off] @ d)"

lemma cam_bytes_buffer:
  "put_at off d (put_at 0 x (map junk [0..<max (off + length d) (length x)])) = cam_bytes junk off d x"
proof (cases "off + length d \<le> length x")
  case True
  then have "put_at 0 x (map junk [0..<length x]) = x"
    by (simp add: put_at_whole)
  with True show ?thesis
    by (simp add: cam_bytes_def max_def)
next
  case False
  then have "put_at 0 x (map junk [0..<off + length d]) = x @ map junk [length x..<off + length d]"
    by (simp add: put_at_def drop_map)
  moreover have "take (off - length x) [length x..<off + length d] = [length x..<off]"
    using False by (cases "length x \<le> off") (simp_all add: take_upt)
  ultimately show ?thesis
    using False by (simp add: cam_bytes_def max_def put_at_def take_map)
qed

lemma ssgen_deltaB:
  assumes "ssgen_inv type db" and "ssgen_content type db i = Some x"
  shows "deltaB (ssgen_api junk type) db i off d = insertB (ssgen_api junk type) db (cam_bytes junk off d x)"
proof -
  obtain ti where ti: "tree_store_find (type + 1) (unat (scast (ucast i :: u32) :: u64)) db = Ok ti"
      "ti_data ti = x"
    using ssgen_get_content(2) [OF assms] by auto
  have "ti_length ti = length x"
  proof -
    have "Some ti \<in> set (ts_refs (db ! (type + 1)))" "type_store_inv (db ! (type + 1))"
      using ti(1) assms(1)
      by (auto simp: tree_store_find_def type_store_find_def of_option_def ssgen_inv_def
          tree_store_inv_def list_all_length in_set_conv_nth split: if_splits option.splits)
    then show ?thesis
      using ti(2) by (auto simp: type_store_inv_def list_all_iff ti_wf_def)
  qed
  with ti show ?thesis
    unfolding ssgen_insertB
    by (simp add: ssgen_api_def ssgen_st_pins_chunk_cam_def Let_def cam_bytes_buffer [symmetric]
        max_def not_less)
qed

text \<open>The chunk functions satisfy the contract the generated code relies on.\<close>

interpretation ssgen: delta_store "ssgen_api junk type" "ssgen_inv type" "ssgen_room type"
  "ssgen_content type" for junk type
proof (unfold_locales, goal_cases)
  case (1 s i x)
  then show ?case by (simp add: ssgen_api_def ssgen_get_content(1))
next
  case (2 s i x off n)
  then show ?case by (simp add: ssgen_api_def ssgen_get_content(1))
next
  case (3 s n d)
  then show ?case by (simp add: ssgen_insertB_laws(1))
next
  case (4 s n d)
  then show ?case by (simp add: ssgen_insertB_laws(2))
next
  case (5 s n d)
  then show ?case by (simp add: ssgen_insertB_laws(4))
next
  case (6 s n d)
  then show ?case by (simp add: ssgen_insertB_laws(3))
next
  case (7 s n i x d)
  then show ?case by (simp add: ssgen_insertB_laws(5))
next
  case (8 s n i x off d)
  then show ?case by (simp add: ssgen_deltaB ssgen_insertB_laws(1))
next
  case (9 s n i x off d)
  then show ?case by (simp add: ssgen_deltaB ssgen_insertB_laws(2))
next
  case (10 s n i x off d)
  then show ?case by (simp add: ssgen_deltaB ssgen_insertB_laws(3))
next
  case (11 s n i x j y off d)
  then show ?case by (simp add: ssgen_deltaB ssgen_insertB_laws(5))
next
  case (12 s n i x off d)
  then show ?case
    by (simp add: ssgen_deltaB ssgen_insertB_laws(4) cam_bytes_def)
next
  case (13 s n i x off d)
  then have "ssgen_content type (snd (deltaB (ssgen_api junk type) s i off d))
      (fst (deltaB (ssgen_api junk type) s i off d)) = Some (cam_bytes junk off d x)"
    by (simp add: ssgen_deltaB ssgen_insertB_laws(4))
  moreover have "\<exists>gap. length gap = off - length x \<and> cam_bytes junk off d x = take off x @ gap @ d"
  proof (cases "off + length d = length x")
    case True
    then show ?thesis by (simp add: cam_bytes_def put_at_def)
  next
    case False
    with 13 show ?thesis
      by (intro exI [of _ "map junk [length x..<off]"]) (simp add: cam_bytes_def)
  qed
  ultimately show ?case by auto
qed

end
