(* ===== verification/Model_State.thy ===== *)
theory Model_State
  imports IR Vector_Store
begin

text \<open>
  The state vector of the generated model and the registers in it: the sizes the generator
  computes, the state-vector types of \<open>generateTypes\<close>, the register mapping, and the
  functions \<open>vReg\<close> and \<open>vMap\<close> that map a value of the input program to its value in the
  state vector (LLDMCModelGenerator.h).

  Each generator method is modelled by the effect of the code it emits.  LLVM itself is a
  parameter: the record \<open>layout\<close> gives the sizes and offsets of its data layout, and two
  functions of the environment give the results of the instructions that are cloned into
  the model and of constant expressions.
\<close>

section \<open>The data layout and the sizes computed from it\<close>

record layout =
  dl_alloc :: "ty \<Rightarrow> nat"
  dl_store :: "ty \<Rightarrow> nat"
  dl_bits :: "ty list \<Rightarrow> nat"
  dl_elem :: "ty list \<Rightarrow> nat \<Rightarrow> nat"
  dl_field :: "ty \<Rightarrow> nat list \<Rightarrow> nat"

definition generateSizeOf :: "layout \<Rightarrow> ty \<Rightarrow> u32" where
  "generateSizeOf dl t = word_of_nat (dl_alloc dl t)"

definition generateAlignedSizeOf :: "layout \<Rightarrow> ty \<Rightarrow> u32" where
  "generateAlignedSizeOf dl t =
     (let al1 = (4 - 1 :: u32) in and (word_of_nat (dl_alloc dl t) + al1) (not al1))"

definition generateSizeOfNow :: "layout \<Rightarrow> ty \<Rightarrow> nat" where
  "generateSizeOfNow dl t = dl_alloc dl t"

definition generatePointerAdd :: "u64 \<Rightarrow> u64 \<Rightarrow> u64" where
  "generatePointerAdd ptr intToAdd = ptr + intToAdd"

text \<open>\<open>t_globals\<close> is a packed struct: an element starts where the previous one ends.\<close>

definition packed_offset :: "layout \<Rightarrow> ty list \<Rightarrow> nat \<Rightarrow> nat" where
  "packed_offset dl ts k = sum_list (map (dl_alloc dl) (take k ts))"

lemma unat_and_minus_4: "unat (and (w :: u32) (- 4)) = 4 * (unat w div 4)"
proof -
  have e: "Suc (Suc (n - 2)) = n" if "\<not> n < 2" for n :: nat
    using that by arith
  have "and w (not (mask 2)) = push_bit 2 (drop_bit 2 w)"
    by (rule bit_word_eqI) (auto simp: bit_simps e)
  moreover have "unat (push_bit 2 (drop_bit 2 w)) = 4 * (unat w div 4)"
    using unat_less_power [of w]
    by (simp add: push_bit_eq_mult drop_bit_eq_div unat_word_ariths unat_div_distrib)
  moreover have "not (mask 2 :: u32) = - 4"
    by (simp add: mask_eq_exp_minus_1)
  ultimately show ?thesis by simp
qed

lemma unat_generateAlignedSizeOf:
  assumes "dl_alloc dl t + 3 < 2 ^ 32"
  shows "unat (generateAlignedSizeOf dl t) = 4 * ((dl_alloc dl t + 3) div 4)"
proof -
  have "unat (word_of_nat (dl_alloc dl t) + 3 :: u32) = dl_alloc dl t + 3"
    using assms by (simp add: unat_word_ariths unat_of_nat)
  then show ?thesis
    by (simp add: generateAlignedSizeOf_def unat_and_minus_4)
qed

text \<open>
  The aligned size of a type is the smallest multiple of the four bytes of a state slot
  that holds the type, for every type whose size leaves room for the rounding in 32 bits.
\<close>

lemma generateAlignedSizeOf_least:
  assumes "dl_alloc dl t + 3 < 2 ^ 32"
  shows "4 dvd unat (generateAlignedSizeOf dl t)
    \<and> dl_alloc dl t \<le> unat (generateAlignedSizeOf dl t)
    \<and> (4 dvd n \<longrightarrow> dl_alloc dl t \<le> n \<longrightarrow> unat (generateAlignedSizeOf dl t) \<le> n)"
  unfolding unat_generateAlignedSizeOf [OF assms] by (auto simp: dvd_def)

lemma generateAlignedSizeOf_least_witness:
  "unat (generateAlignedSizeOf \<lparr>dl_alloc = (\<lambda>_. 5), dl_store = (\<lambda>_. 5), dl_bits = (\<lambda>_. 40),
     dl_elem = (\<lambda>_ _. 0), dl_field = (\<lambda>_ _. 0)\<rparr> (IntTy 40)) \<le> 8"
  using generateAlignedSizeOf_least [of "\<lparr>dl_alloc = (\<lambda>_. 5), dl_store = (\<lambda>_. 5), dl_bits = (\<lambda>_. 40),
     dl_elem = (\<lambda>_ _. 0), dl_field = (\<lambda>_ _. 0)\<rparr>" "IntTy 40" 8] by simp

section \<open>The register mapping\<close>

text \<open>
  Every argument and every non-void instruction of a defined function gets the next index;
  the counter \<open>nextID\<close> starts again at 0 for each function.  The mapping of the program is
  \<open>gn_argIndex\<close>, \<open>gn_instIndex\<close> (\<open>valueRegisterIndex\<close>) and \<open>gn_registerTypes\<close>.
\<close>

datatype reg_value = ArgReg nat | InstReg nat

definition newmap :: "string \<Rightarrow> reg_value \<times> ty \<Rightarrow> nat \<times> generator \<Rightarrow> nat \<times> generator" where
  "newmap F vt st =
     (let g = (snd st)\<lparr>gn_registerTypes := (gn_registerTypes (snd st))(F := gn_registerTypes (snd st) F @ [snd vt])\<rparr>
      in (fst st + 1,
          (case fst vt of
             ArgReg k \<Rightarrow> g\<lparr>gn_argIndex := (gn_argIndex g)(F := (gn_argIndex g F)(k \<mapsto> fst st))\<rparr>
           | InstReg i \<Rightarrow> g\<lparr>gn_instIndex := (gn_instIndex g)(i \<mapsto> fst st)\<rparr>)))"

definition args_of :: "func \<Rightarrow> (reg_value \<times> ty) list" where
  "args_of F = map (\<lambda>k. (ArgReg k, f_params F ! k)) [0..<length (f_params F)]"

definition regs_of :: "func \<Rightarrow> (reg_value \<times> ty) list" where
  "regs_of F = map (\<lambda>i. (InstReg (i_id i), i_ty i)) (filter (\<lambda>i. i_ty i \<noteq> VoidTy) (f_insts F))"

definition createRegisterMappingForFunction :: "func \<Rightarrow> generator \<Rightarrow> generator" where
  "createRegisterMappingForFunction F g =
     (if f_decl F then g
      else snd (fold (newmap (f_name F)) (regs_of F) (fold (newmap (f_name F)) (args_of F) (0, g))))"

definition createRegisterMapping :: "generator \<Rightarrow> generator" where
  "createRegisterMapping g = fold createRegisterMappingForFunction (m_functions (gn_module g)) g"

definition reg_index :: "generator \<Rightarrow> string \<Rightarrow> reg_value \<Rightarrow> nat option" where
  "reg_index g F v = (case v of ArgReg k \<Rightarrow> gn_argIndex g F k | InstReg i \<Rightarrow> gn_instIndex g i)"

text \<open>What the mapping of one function does to the tables.\<close>

lemma newmap_step:
  assumes "newmap F vt (n, g) = (n1, g1)"
  shows "n1 = n + 1"
    and "gn_registerTypes g1 = (gn_registerTypes g)(F := gn_registerTypes g F @ [snd vt])"
    and "reg_index g1 F (fst vt) = Some n"
    and "v \<noteq> fst vt \<Longrightarrow> reg_index g1 G v = reg_index g G v"
    and "G \<noteq> F \<Longrightarrow> reg_index g1 G (ArgReg j) = reg_index g G (ArgReg j)"
    and "gn_module g1 = gn_module g"
    and "gn_programLocations g1 = gn_programLocations g"
  using assms
  by (auto simp: newmap_def Let_def reg_index_def split: reg_value.splits if_splits)

lemma newmap_fold_all:
  "distinct (map fst vts) \<Longrightarrow> fold (newmap F) vts (n, g) = (n', g') \<Longrightarrow>
     n' = n + length vts
     \<and> gn_registerTypes g' = (gn_registerTypes g)(F := gn_registerTypes g F @ map snd vts)
     \<and> (\<forall>k < length vts. reg_index g' F (fst (vts ! k)) = Some (n + k))
     \<and> (\<forall>G v. v \<notin> set (map fst vts) \<longrightarrow> reg_index g' G v = reg_index g G v)
     \<and> (\<forall>G j. G \<noteq> F \<longrightarrow> reg_index g' G (ArgReg j) = reg_index g G (ArgReg j))
     \<and> gn_module g' = gn_module g \<and> gn_programLocations g' = gn_programLocations g"
proof (induction vts arbitrary: n g)
  case Nil
  then show ?case by auto
next
  case (Cons vt vts)
  obtain n1 g1 where eq: "newmap F vt (n, g) = (n1, g1)"
    by (metis prod.exhaust)
  note g1 = newmap_step [OF eq]
  have IH: "n' = n + 1 + length vts"
    "gn_registerTypes g' = (gn_registerTypes g1)(F := gn_registerTypes g1 F @ map snd vts)"
    "\<forall>k < length vts. reg_index g' F (fst (vts ! k)) = Some (n + 1 + k)"
    "\<forall>G v. v \<notin> set (map fst vts) \<longrightarrow> reg_index g' G v = reg_index g1 G v"
    "\<forall>G j. G \<noteq> F \<longrightarrow> reg_index g' G (ArgReg j) = reg_index g1 G (ArgReg j)"
    "gn_module g' = gn_module g1" "gn_programLocations g' = gn_programLocations g1"
    using Cons.IH [of "n + 1" g1] Cons.prems eq g1(1) by (simp_all add: fun_upd_def)
  have "reg_index g' F (fst ((vt # vts) ! k)) = Some (n + k)" if "k < length (vt # vts)" for k
    using that IH(3,4) g1(3) Cons.prems(1) by (cases k) auto
  with IH g1 show ?case by auto
qed

lemma newmap_fold:
  fixes F :: string and vts :: "(reg_value \<times> ty) list" and n :: nat and g :: generator
  assumes "distinct (map fst vts)"
  defines "g' \<equiv> snd (fold (newmap F) vts (n, g))"
  shows "gn_registerTypes g' = (gn_registerTypes g)(F := gn_registerTypes g F @ map snd vts)"
    and "k < length vts \<Longrightarrow> reg_index g' F (fst (vts ! k)) = Some (n + k)"
    and "v \<notin> set (map fst vts) \<Longrightarrow> reg_index g' G v = reg_index g G v"
    and "G \<noteq> F \<Longrightarrow> reg_index g' G (ArgReg j) = reg_index g G (ArgReg j)"
    and "gn_module g' = gn_module g" and "gn_programLocations g' = gn_programLocations g"
  using newmap_fold_all [OF assms(1), of F n g "fst (fold (newmap F) vts (n, g))" g']
  by (simp_all add: g'_def)

definition function_values :: "func \<Rightarrow> (reg_value \<times> ty) list" where
  "function_values F = args_of F @ regs_of F"

definition well_numbered :: "ir_module \<Rightarrow> bool" where
  "well_numbered m \<longleftrightarrow> distinct (map f_name (m_functions m))
     \<and> distinct (map i_id (concat (map f_insts (m_functions m))))"

lemma distinct_function_values:
  assumes "distinct (map i_id (f_insts F))"
  shows "distinct (map fst (function_values F))"
proof -
  have "distinct (map i_id (filter (\<lambda>i. i_ty i \<noteq> VoidTy) (f_insts F)))"
    using assms by (rule distinct_map_filter)
  then have "distinct (map (InstReg \<circ> i_id) (filter (\<lambda>i. i_ty i \<noteq> VoidTy) (f_insts F)))"
    by (metis distinct_map inj_on_def map_map reg_value.inject(2))
  moreover have "distinct (map ArgReg [0..<length (f_params F)])"
    by (simp add: distinct_map inj_on_def)
  ultimately show ?thesis
    by (auto simp: function_values_def args_of_def regs_of_def comp_def)
qed

lemma createRegisterMappingForFunction_fold:
  "\<not> f_decl F \<Longrightarrow> createRegisterMappingForFunction F g = snd (fold (newmap (f_name F)) (function_values F) (0, g))"
  by (simp add: createRegisterMappingForFunction_def function_values_def)

lemma createRegisterMappingForFunction_other:
  assumes "distinct (map i_id (f_insts G))" and "f_name F \<noteq> f_name G"
    and "set (map i_id (f_insts G)) \<inter> set (map i_id (f_insts F)) = {}"
  shows "gn_registerTypes (createRegisterMappingForFunction G g) (f_name F) = gn_registerTypes g (f_name F)"
    and "v \<in> set (map fst (function_values F)) \<Longrightarrow>
      reg_index (createRegisterMappingForFunction G g) (f_name F) v = reg_index g (f_name F) v"
proof -
  note fold = newmap_fold [OF distinct_function_values [OF assms(1)], where F = "f_name G" and n = 0 and g = g]
  show "gn_registerTypes (createRegisterMappingForFunction G g) (f_name F) = gn_registerTypes g (f_name F)"
    using fold(1) assms(2)
    by (cases "f_decl G")
      (simp_all add: createRegisterMappingForFunction_fold, simp add: createRegisterMappingForFunction_def)
  assume v: "v \<in> set (map fst (function_values F))"
  show "reg_index (createRegisterMappingForFunction G g) (f_name F) v = reg_index g (f_name F) v"
  proof (cases "f_decl G")
    case True
    then show ?thesis by (simp add: createRegisterMappingForFunction_def)
  next
    case False
    show ?thesis
    proof (cases v)
      case (ArgReg j)
      with fold(4) [of "f_name F"] assms(2) False show ?thesis
        by (simp add: createRegisterMappingForFunction_fold)
    next
      case (InstReg i)
      then have "i \<in> set (map i_id (f_insts F))"
        using v by (auto simp: function_values_def args_of_def regs_of_def)
      then have "v \<notin> set (map fst (function_values G))"
        using InstReg assms(3) by (auto simp: function_values_def args_of_def regs_of_def)
      with fold(3) False show ?thesis
        by (simp add: createRegisterMappingForFunction_fold)
    qed
  qed
qed

lemma createRegisterMapping_others:
  assumes "\<And>G. G \<in> set Gs \<Longrightarrow> distinct (map i_id (f_insts G)) \<and> f_name F \<noteq> f_name G
      \<and> set (map i_id (f_insts G)) \<inter> set (map i_id (f_insts F)) = {}"
  shows "(\<forall>v \<in> set (map fst (function_values F)).
      reg_index (fold createRegisterMappingForFunction Gs g) (f_name F) v = reg_index g (f_name F) v)
    \<and> gn_registerTypes (fold createRegisterMappingForFunction Gs g) (f_name F) = gn_registerTypes g (f_name F)"
  using assms
proof (induction Gs arbitrary: g)
  case Nil
  then show ?case by simp
next
  case (Cons G Gs)
  have G: "distinct (map i_id (f_insts G))" "f_name F \<noteq> f_name G"
    "set (map i_id (f_insts G)) \<inter> set (map i_id (f_insts F)) = {}"
    using Cons.prems by auto
  with Cons.IH [of "createRegisterMappingForFunction G g"] Cons.prems
    createRegisterMappingForFunction_other [OF G]
  show ?case by auto
qed

text \<open>
  C22: in a module with distinct function names and instructions, the register mapping gives
  every argument and non-void instruction of a defined function its position in the list of
  both (arguments first, indices from 0), and the register types of the function are the
  types of these values in the same order: no two values of a function share a register.
\<close>

theorem createRegisterMapping_positions:
  assumes "well_numbered m" and "F \<in> set (m_functions m)" and "\<not> f_decl F"
    and "gn_module g = m" and "gn_registerTypes g (f_name F) = []"
  shows "gn_registerTypes (createRegisterMapping g) (f_name F) = map snd (function_values F)
    \<and> distinct (map fst (function_values F))
    \<and> (k < length (function_values F) \<longrightarrow>
        reg_index (createRegisterMapping g) (f_name F) (fst (function_values F ! k)) = Some k)"
proof -
  obtain pre post where split: "m_functions m = pre @ F # post"
    using assms(2) by (auto dest: split_list)
  have others: "distinct (map i_id (f_insts G)) \<and> f_name F \<noteq> f_name G
      \<and> set (map i_id (f_insts G)) \<inter> set (map i_id (f_insts F)) = {}"
    if "G \<in> set pre \<or> G \<in> set post" for G
    using that
  proof
    assume "G \<in> set pre"
    then obtain xs ys where "pre = xs @ G # ys"
      by (auto dest: split_list)
    with split have "m_functions m = xs @ G # ys @ F # post"
      by simp
    with assms(1) show ?thesis
      unfolding well_numbered_def by auto
  next
    assume "G \<in> set post"
    then obtain xs ys where "post = xs @ G # ys"
      by (auto dest: split_list)
    with split have "m_functions m = pre @ F # xs @ G # ys"
      by simp
    with assms(1) show ?thesis
      unfolding well_numbered_def by auto
  qed
  have dF: "distinct (map i_id (f_insts F))"
    using assms(1) unfolding well_numbered_def split by simp
  let ?pre = "fold createRegisterMappingForFunction pre g"
  note fold = newmap_fold [OF distinct_function_values [OF dF], where F = "f_name F" and n = 0 and g = ?pre]
  have pre: "gn_registerTypes ?pre (f_name F) = []"
    using createRegisterMapping_others [of pre F g] others assms(5) by simp
  have eq: "createRegisterMapping g = fold createRegisterMappingForFunction post
      (snd (fold (newmap (f_name F)) (function_values F) (0, ?pre)))"
    using assms(3,4) split by (simp add: createRegisterMapping_def createRegisterMappingForFunction_fold)
  note post = createRegisterMapping_others [of post F
      "snd (fold (newmap (f_name F)) (function_values F) (0, ?pre))"]
  show ?thesis
    using post others fold(1,2) pre distinct_function_values [OF dF] unfolding eq by simp
qed

text \<open>A small module for the examples: \<open>i32 inc(i32 x) { %1 = add x, 1; ret %1 }\<close>.\<close>

definition inc_insts :: "instruction list" where
  "inc_insts =
     [\<lparr>i_id = 11, i_ty = IntTy 32, i_op = OtherOp ''add'' [ArgV ''inc'' 0, ConstV (IntTy 32) [1, 0, 0, 0]]\<rparr>,
      \<lparr>i_id = 12, i_ty = VoidTy, i_op = Ret (Some (InstV ''inc'' 11, IntTy 32))\<rparr>]"

definition inc_func :: func where
  "inc_func = \<lparr>f_name = ''inc'', f_params = [IntTy 32], f_vararg = False, f_decl = False,
     f_blocks = [inc_insts]\<rparr>"

definition inc_module :: ir_module where
  "inc_module = \<lparr>m_globals = [], m_functions = [inc_func]\<rparr>"

theorem createRegisterMapping_positions_witness:
  "reg_index (createRegisterMapping (generator_new inc_module False)) ''inc'' (InstReg 11) = Some 1
   \<and> gn_registerTypes (createRegisterMapping (generator_new inc_module False)) ''inc'' = [IntTy 32, IntTy 32]"
  using createRegisterMapping_positions [of inc_module inc_func "generator_new inc_module False" 1]
  by (simp add: well_numbered_def inc_module_def inc_func_def inc_insts_def f_insts_def
      generator_new_def function_values_def args_of_def regs_of_def)

section \<open>The state vector\<close>

text \<open>
  The nodes of the state-vector tree that \<open>generateTypes\<close> builds: the root with
  \<open>status\<close>, \<open>threadsStarted\<close>, \<open>tres\<close> and the array of processes.  The register area \<open>r\<close> is
  the byte vector of \<open>t_registers_max\<close>; \<open>stk\<close>, \<open>m\<close> and \<open>tres\<close> are identifiers of stored
  vectors.
\<close>

record process =
  p_status :: u32
  p_tid :: u32
  p_pc :: u32
  p_msize :: u32
  p_stk :: u64
  p_r :: bytes
  p_m :: u64

record statevector =
  sv_status :: u32
  sv_threadsStarted :: u32
  sv_tres :: u64
  sv_processes :: "process list"

text \<open>
  The bytes of a state vector.  The struct types are not packed, so the field \<open>m\<close> behind
  the register area is aligned to 8 bytes.
\<close>

definition process_bytes :: "process \<Rightarrow> bytes" where
  "process_bytes p = bytes_u32 (p_status p) @ bytes_u32 (p_tid p) @ bytes_u32 (p_pc p)
     @ bytes_u32 (p_msize p) @ bytes_u64 (p_stk p) @ p_r p
     @ replicate ((8 - length (p_r p) mod 8) mod 8) 0 @ bytes_u64 (p_m p)"

definition sv_bytes :: "statevector \<Rightarrow> bytes" where
  "sv_bytes sv = bytes_u32 (sv_status sv) @ bytes_u32 (sv_threadsStarted sv)
     @ bytes_u64 (sv_tres sv) @ concat (map process_bytes (sv_processes sv))"

text \<open>
  \<open>t_registers_max\<close>: an array of 32-bit slots for the largest register struct of the
  program; the division by 32 drops a rest.
\<close>

definition registers_max_slots :: "layout \<Rightarrow> generator \<Rightarrow> nat" where
  "registers_max_slots dl g =
     foldl (\<lambda>registersInBits F. if registersInBits < dl_bits dl (gn_registerTypes g (f_name F))
            then dl_bits dl (gn_registerTypes g (f_name F)) else registersInBits)
       0 (filter (\<lambda>F. \<not> f_decl F) (m_functions (gn_module g))) div 32"

text \<open>
  The globals get the indices of the packed struct \<open>t_globals\<close> in the order of the module;
  \<open>llvm.global_ctors\<close> gets none if it has an initializer.
\<close>

definition is_ctors :: "global_var \<Rightarrow> bool" where
  "is_ctors v \<longleftrightarrow> g_init v \<noteq> None \<and> g_name v = ''llvm.global_ctors''"

definition mapGlobals :: "generator \<Rightarrow> generator" where
  "mapGlobals g =
     snd (fold (\<lambda>v st. if is_ctors v then st
         else (fst st + 1,
               (snd st)\<lparr>gn_globalIndex := (gn_globalIndex (snd st))(g_name v \<mapsto> fst st),
                       gn_globalTypes := gn_globalTypes (snd st) @ [g_ty v]\<rparr>))
       (m_globals (gn_module g)) (0, g))"

section \<open>The context of generated code\<close>

text \<open>
  The environment holds what is fixed while the model runs: the tables of the generator,
  the layout, the storage interface, the register area in bytes (\<open>t_registers_max_size\<close>),
  the results of cloned instructions and of constant expressions, and the iteration order of
  the unordered map of PHI nodes.  The context is
  \<open>GenerationContext\<close> at run time: the running thread slot, the source state vector, the
  state vector under construction, and the store.
\<close>

record 's env =
  en_gen :: generator
  en_dl :: layout
  en_api :: "'s dmc_api"
  en_regs :: nat
  en_exec :: "instruction \<Rightarrow> bytes list \<Rightarrow> bytes"
  en_expr :: "string \<Rightarrow> ty \<Rightarrow> bytes list \<Rightarrow> bytes"
  en_order :: "(nat \<times> val) list \<Rightarrow> (nat \<times> val) list"

record 's gctx =
  gc_thread :: nat
  gc_src :: statevector
  gc_svout :: statevector
  gc_store :: 's

definition proc_at :: "nat \<Rightarrow> statevector \<Rightarrow> process outcome" where
  "proc_at t sv = (if t < length (sv_processes sv) then Ok (sv_processes sv ! t) else Fail BadAccess)"

definition upd_sv :: "(statevector \<Rightarrow> statevector) \<Rightarrow> 's gctx \<Rightarrow> 's gctx" where
  "upd_sv f gc = gc\<lparr>gc_svout := f (gc_svout gc)\<rparr>"

definition upd_proc :: "nat \<Rightarrow> (process \<Rightarrow> process) \<Rightarrow> 's gctx \<Rightarrow> 's gctx" where
  "upd_proc t f = upd_sv (\<lambda>sv. sv\<lparr>sv_processes := (sv_processes sv)[t := f (sv_processes sv ! t)]\<rparr>)"

definition set_pc :: "nat \<Rightarrow> u32 \<Rightarrow> 's gctx \<Rightarrow> 's gctx" where
  "set_pc t pc = upd_proc t (\<lambda>p. p\<lparr>p_pc := pc\<rparr>)"

lemma proc_at_Ok_iff [outcome_simps]:
  "proc_at t sv = Ok p \<longleftrightarrow> t < length (sv_processes sv) \<and> p = sv_processes sv ! t"
  by (auto simp: proc_at_def)

lemma gc_upd_sv [simp]:
  "gc_thread (upd_sv f gc) = gc_thread gc" "gc_src (upd_sv f gc) = gc_src gc"
  "gc_store (upd_sv f gc) = gc_store gc" "gc_svout (upd_sv f gc) = f (gc_svout gc)"
  by (simp_all add: upd_sv_def)

lemma gc_upd_proc [simp]:
  "gc_thread (upd_proc t f gc) = gc_thread gc" "gc_src (upd_proc t f gc) = gc_src gc"
  "gc_store (upd_proc t f gc) = gc_store gc"
  "sv_status (gc_svout (upd_proc t f gc)) = sv_status (gc_svout gc)"
  "sv_threadsStarted (gc_svout (upd_proc t f gc)) = sv_threadsStarted (gc_svout gc)"
  "sv_tres (gc_svout (upd_proc t f gc)) = sv_tres (gc_svout gc)"
  "sv_processes (gc_svout (upd_proc t f gc))
     = (sv_processes (gc_svout gc))[t := f (sv_processes (gc_svout gc) ! t)]"
  by (simp_all add: upd_proc_def)

section \<open>Registers and values\<close>

text \<open>The byte offset of a register in the area of its function (\<open>vReg\<close>, \<open>vRegDirect\<close>), and
  the type the area has there.\<close>

definition vRegDirect :: "layout \<Rightarrow> ty list \<Rightarrow> nat \<Rightarrow> nat" where
  "vRegDirect dl ts reg = dl_elem dl ts reg"

definition vReg :: "'s env \<Rightarrow> val \<Rightarrow> (nat \<times> ty) outcome" where
  "vReg env v =
     (let g = en_gen env;
          at = (\<lambda>F r. case reg_index g F r of
             Some idx \<Rightarrow> Ok (vRegDirect (en_dl env) (gn_registerTypes g F) idx, gn_registerTypes g F ! idx)
           | None \<Rightarrow> Fail Assertion)
      in case v of
           InstV F i \<Rightarrow> at F (InstReg i)
         | ArgV F k \<Rightarrow> at F (ArgReg k)
         | _ \<Rightarrow> Fail Assertion)"

definition load_reg :: "'s gctx \<Rightarrow> nat \<Rightarrow> nat \<Rightarrow> bytes outcome" where
  "load_reg gc off n =
     obind (proc_at (gc_thread gc) (gc_svout gc)) (\<lambda>p.
       if off + n \<le> length (p_r p) then Ok (bytes_at off n (p_r p)) else Fail BadAccess)"

definition store_reg_of :: "nat \<Rightarrow> nat \<Rightarrow> bytes \<Rightarrow> 's gctx \<Rightarrow> 's gctx outcome" where
  "store_reg_of t off d gc =
     obind (proc_at t (gc_svout gc)) (\<lambda>p.
       if off + length d \<le> length (p_r p)
       then Ok (upd_proc t (\<lambda>p. p\<lparr>p_r := put_at off d (p_r p)\<rparr>) gc) else Fail BadAccess)"

definition store_reg :: "nat \<Rightarrow> bytes \<Rightarrow> 's gctx \<Rightarrow> 's gctx outcome" where
  "store_reg off d gc = store_reg_of (gc_thread gc) off d gc"

definition vRegUsingOffset :: "u32 \<Rightarrow> bytes \<Rightarrow> 's gctx \<Rightarrow> 's gctx outcome" where
  "vRegUsingOffset offset d gc = store_reg (unat offset) d gc"

text \<open>Pointers of the model: the number of the owning process plus one in the top byte, the
  offset into its memory below.\<close>

definition makePointer :: "u64 \<Rightarrow> u64 \<Rightarrow> u64" where
  "makePointer processorID offset = or (push_bit 56 (processorID + 1)) offset"

definition getCreatorProcessorIDOfPointer :: "u64 \<Rightarrow> u64" where
  "getCreatorProcessorIDOfPointer v = drop_bit 56 v - 1"

definition getOffsetPartOfPointer :: "u64 \<Rightarrow> u64" where
  "getOffsetPartOfPointer v = and v 0xFFFFFFFFFFFFFF"

definition getLengthOfStateID :: "u64 \<Rightarrow> u64" where
  "getLengthOfStateID v = drop_bit 40 v"

definition getLength :: "u64 \<Rightarrow> nat" where
  "getLength stateID = unat (drop_bit 40 stateID)"

definition generateModelPointerToGlobal :: "'s env \<Rightarrow> string \<Rightarrow> u64" where
  "generateModelPointerToGlobal env gv =
     (let idx = (case gn_globalIndex (en_gen env) gv of Some k \<Rightarrow> k | None \<Rightarrow> 0)
      in makePointer 0 (word_of_nat (packed_offset (en_dl env) (gn_globalTypes (en_gen env)) idx)))"

definition entry_location :: "generator \<Rightarrow> func \<Rightarrow> nat option" where
  "entry_location g F =
     (case f_blocks F of (i # _) # _ \<Rightarrow> Some (gn_programLocations g (i_id i)) | _ \<Rightarrow> None)"

fun vMap :: "'s env \<Rightarrow> 's gctx \<Rightarrow> val \<Rightarrow> bytes outcome" where
  "vMap env gc (GlobalV gv) = Ok (bytes_u64 (generateModelPointerToGlobal env gv))"
| "vMap env gc (ExprV op operands t) =
     obind (omap (vMap env gc) operands) (\<lambda>xs. Ok (en_expr env op t xs))"
| "vMap env gc (FunctionV n) =
     obind (of_option BadAccess (Option.bind (getFunction (gn_module (en_gen env)) n)
         (entry_location (en_gen env)))) (\<lambda>loc. Ok (bytes_u64 (word_of_nat loc)))"
| "vMap env gc (ConstV t bs) = Ok bs"
| "vMap env gc (ArgV F k) =
     obind (vReg env (ArgV F k)) (\<lambda>(off, t). load_reg gc off (dl_store (en_dl env) t))"
| "vMap env gc (InstV F i) =
     obind (vReg env (InstV F i)) (\<lambda>(off, t). load_reg gc off (dl_store (en_dl env) t))"

definition vMapOperands :: "'s env \<Rightarrow> 's gctx \<Rightarrow> val list \<Rightarrow> bytes list outcome" where
  "vMapOperands env gc vs = omap (vMap env gc) vs"

definition vGetMemOffset :: "'s env \<Rightarrow> 's gctx \<Rightarrow> val \<Rightarrow> u64 outcome" where
  "vGetMemOffset env gc v = obind (vMap env gc v) (\<lambda>bs. Ok (u64_of bs))"

end
