(* ===== verification/Transition_Groups.thy ===== *)
theory Transition_Groups
  imports IR
begin

text \<open>
  How LLDMCModelGenerator.h cuts the instructions of the input program into transition
  groups: the three collapsability tests, the grouping of a basic block with the assignment
  of program counters, and the default groups.
\<close>

section \<open>Which instructions may share a transition\<close>

definition nonatomic_collapsable :: "generator \<Rightarrow> bool \<Rightarrow> bool" where
  "nonatomic_collapsable g atomic \<longleftrightarrow> gn_assumeNonAtomicCollapsable g \<and> \<not> atomic"

definition isFrontCollapsableCall :: "generator \<Rightarrow> call_inst \<Rightarrow> bool" where
  "isFrontCollapsableCall g c =
     (let F = getCalledFunction (gn_module g) c in
      if (case F of Some f \<Rightarrow> isIntrinsic f | None \<Rightarrow> False) then True
      else if c_asm c \<noteq> None then False
      else case F of
        None \<Rightarrow> False
      | Some f \<Rightarrow>
          if f_decl f then
            (if f_name f = ''malloc'' then True
             else if f_name f = ''pthread_join'' then True
             else False)
          else False)"

definition isFrontCollapsableInstruction :: "generator \<Rightarrow> instruction \<Rightarrow> bool" where
  "isFrontCollapsableInstruction g i =
     (case i_op i of
        Alloca _ \<Rightarrow> True
      | Load _ atomic \<Rightarrow> nonatomic_collapsable g atomic
      | Store _ _ _ atomic \<Rightarrow> nonatomic_collapsable g atomic
      | Ret _ \<Rightarrow> True
      | Br _ _ \<Rightarrow> True | Switch \<Rightarrow> True | IndirectBr \<Rightarrow> True
      | Invoke \<Rightarrow> False | Resume \<Rightarrow> False
      | Unreachable \<Rightarrow> True
      | CleanupRet \<Rightarrow> False | CatchRet \<Rightarrow> False | CatchSwitch \<Rightarrow> False
      | GetElementPtr _ \<Rightarrow> True
      | Fence \<Rightarrow> False | AtomicCmpXchg _ _ _ _ \<Rightarrow> False | AtomicRMW _ _ _ _ \<Rightarrow> False
      | CleanupPad \<Rightarrow> True | PHI _ \<Rightarrow> True
      | Call c \<Rightarrow> isFrontCollapsableCall g c
      | VAArg \<Rightarrow> True | ExtractElement _ \<Rightarrow> True | InsertElement _ \<Rightarrow> True
      | ShuffleVector \<Rightarrow> True | ExtractValue _ _ _ \<Rightarrow> True | InsertValue _ \<Rightarrow> True
      | LandingPad \<Rightarrow> False
      | OtherOp _ _ \<Rightarrow> True)"

definition isBackCollapsableCall :: "generator \<Rightarrow> call_inst \<Rightarrow> bool" where
  "isBackCollapsableCall g c =
     (let F = getCalledFunction (gn_module g) c in
      if (case F of Some f \<Rightarrow> isIntrinsic f | None \<Rightarrow> False) then True
      else if c_asm c \<noteq> None then False
      else case F of
        None \<Rightarrow> False
      | Some f \<Rightarrow>
          if f_decl f then (if f_name f = ''malloc'' then True else False)
          else False)"

definition isBackCollapsableInstruction :: "generator \<Rightarrow> instruction \<Rightarrow> bool" where
  "isBackCollapsableInstruction g i =
     (case i_op i of
        Alloca _ \<Rightarrow> True
      | Load _ atomic \<Rightarrow> nonatomic_collapsable g atomic
      | Store _ _ _ atomic \<Rightarrow> nonatomic_collapsable g atomic
      | Ret _ \<Rightarrow> True
      | Br _ _ \<Rightarrow> True | Switch \<Rightarrow> True | IndirectBr \<Rightarrow> True
      | Invoke \<Rightarrow> False | Resume \<Rightarrow> False
      | Unreachable \<Rightarrow> True
      | CleanupRet \<Rightarrow> False | CatchRet \<Rightarrow> False | CatchSwitch \<Rightarrow> False
      | GetElementPtr _ \<Rightarrow> True
      | Fence \<Rightarrow> False | AtomicCmpXchg _ _ _ _ \<Rightarrow> False | AtomicRMW _ _ _ _ \<Rightarrow> False
      | CleanupPad \<Rightarrow> True | PHI _ \<Rightarrow> True
      | Call c \<Rightarrow> isBackCollapsableCall g c
      | VAArg \<Rightarrow> True | ExtractElement _ \<Rightarrow> True | InsertElement _ \<Rightarrow> True
      | ShuffleVector \<Rightarrow> True | ExtractValue _ _ _ \<Rightarrow> True | InsertValue _ \<Rightarrow> True
      | LandingPad \<Rightarrow> False
      | OtherOp _ _ \<Rightarrow> True)"

definition isCollapsableInstruction :: "generator \<Rightarrow> instruction \<Rightarrow> bool" where
  "isCollapsableInstruction g i \<longleftrightarrow>
     isFrontCollapsableInstruction g i \<and> isBackCollapsableInstruction g i"

definition isRuntimeCollapsableCall :: "generator \<Rightarrow> call_inst \<Rightarrow> bool" where
  "isRuntimeCollapsableCall g c =
     (let F = getCalledFunction (gn_module g) c in
      if (case F of Some f \<Rightarrow> isIntrinsic f | None \<Rightarrow> False) then True
      else if c_asm c \<noteq> None then False
      else case F of
        None \<Rightarrow> False
      | Some f \<Rightarrow>
          if f_decl f then (if f_name f = ''malloc'' then True else False)
          else True)"

definition isRuntimeCollapsableInstruction :: "generator \<Rightarrow> instruction \<Rightarrow> bool" where
  "isRuntimeCollapsableInstruction g i =
     (case i_op i of
        Alloca _ \<Rightarrow> True
      | Load _ atomic \<Rightarrow> nonatomic_collapsable g atomic
      | Store _ _ _ atomic \<Rightarrow> nonatomic_collapsable g atomic
      | Ret _ \<Rightarrow> True
      | Br _ _ \<Rightarrow> True | Switch \<Rightarrow> True | IndirectBr \<Rightarrow> True
      | Invoke \<Rightarrow> False | Resume \<Rightarrow> False
      | Unreachable \<Rightarrow> True
      | CleanupRet \<Rightarrow> False | CatchRet \<Rightarrow> False | CatchSwitch \<Rightarrow> False
      | GetElementPtr _ \<Rightarrow> True
      | Fence \<Rightarrow> False | AtomicCmpXchg _ _ _ _ \<Rightarrow> False | AtomicRMW _ _ _ _ \<Rightarrow> False
      | CleanupPad \<Rightarrow> True | PHI _ \<Rightarrow> True
      | Call c \<Rightarrow> isRuntimeCollapsableCall g c
      | VAArg \<Rightarrow> True | ExtractElement _ \<Rightarrow> True | InsertElement _ \<Rightarrow> True
      | ShuffleVector \<Rightarrow> True | ExtractValue _ _ _ \<Rightarrow> True | InsertValue _ \<Rightarrow> True
      | LandingPad \<Rightarrow> False
      | OtherOp _ _ \<Rightarrow> True)"

definition instructionsCanCollapse :: "generator \<Rightarrow> instruction \<Rightarrow> instruction \<Rightarrow> bool" where
  "instructionsCanCollapse g before after =
     (case (i_op before, i_op after) of
        (Call b, Call a) \<Rightarrow>
          (case (getCalledFunction (gn_module g) b, getCalledFunction (gn_module g) a) of
             (Some F, Some G) \<Rightarrow>
               f_name F = f_name G \<and>
               f_name F \<in> {''pthread_create'', ''pthread_join'', ''__LLMCOS_Thread_New'',
                 ''__LLMCOS_Thread_Join''}
           | _ \<Rightarrow> False)
      | _ \<Rightarrow> False)"

section \<open>Program counters and groups\<close>

definition assignLocation :: "instruction \<Rightarrow> generator \<Rightarrow> generator" where
  "assignLocation i g =
     (if gn_programLocations g (i_id i) = 0
      then g\<lparr>gn_programLocations := (gn_programLocations g)(i_id i := gn_nextProgramLocation g),
             gn_nextProgramLocation := gn_nextProgramLocation g + 1\<rparr>
      else g)"

definition addTransitionGroup :: "tgroup \<Rightarrow> generator \<Rightarrow> generator" where
  "addTransitionGroup tg g = g\<lparr>gn_transitionGroups := gn_transitionGroups g @ [tg]\<rparr>"

text \<open>
  The two loops of \<open>createTransitionGroupsForInstruction\<close>.  The first takes all leading
  front-collapsable instructions; the second takes the main instruction and what may follow
  it, and stops after a call.  Both return the instructions taken, the rest of the block
  and the generator.
\<close>

fun takeFront :: "instruction list \<Rightarrow> generator \<Rightarrow> instruction list \<times> instruction list \<times> generator"
where
  "takeFront [] g = ([], [], g)"
| "takeFront (i # is) g =
     (if isFrontCollapsableInstruction g i
      then (let (fs, rest, g') = takeFront is (assignLocation i g) in (i # fs, rest, g'))
      else ([], i # is, g))"

definition isCall :: "instruction \<Rightarrow> bool" where
  "isCall i = (case i_op i of Call _ \<Rightarrow> True | _ \<Rightarrow> False)"

fun takeMain ::
  "instruction \<Rightarrow> instruction list \<Rightarrow> generator \<Rightarrow> instruction list \<times> instruction list \<times> generator"
where
  "takeMain main [] g = ([], [], g)"
| "takeMain main [i] g = ([i], [], assignLocation i g)"
| "takeMain main (i # j # is) g =
     (let g = assignLocation i g in
      if \<not> isBackCollapsableInstruction g j \<and> \<not> instructionsCanCollapse g main j
      then ([i], j # is, g)
      else if isCall i then ([i], j # is, g)
      else (let (ms, rest, g') = takeMain main (j # is) g in (i # ms, rest, g')))"

definition createTransitionGroupsForInstruction ::
  "instruction list \<Rightarrow> generator \<Rightarrow> instruction list \<times> generator" where
  "createTransitionGroupsForInstruction is g =
     (let (fs, rest, g1) = takeFront is g;
          (instructions, rest, g2, emitter) =
            (case rest of
               [] \<Rightarrow> (fs, [], g1, False)
             | main # _ \<Rightarrow>
                 (let (ms, rest', g') = takeMain main rest g1
                  in (fs @ ms, rest',
                      (case rest' of [] \<Rightarrow> g' | j # _ \<Rightarrow> assignLocation j g'), True)))
      in (rest, fold addTransitionGroup
            (map (\<lambda>t. TGInstructions t instructions emitter) [0..<MAX_THREADS]) g2))"

lemma takeFront_append: "takeFront is g = (fs, rest, g') \<Longrightarrow> is = fs @ rest"
  by (induction "is" g arbitrary: fs rest g' rule: takeFront.induct)
    (auto split: if_splits prod.splits)

lemma takeMain_append: "takeMain main is g = (ms, rest, g') \<Longrightarrow> is = ms @ rest"
  by (induction main "is" g arbitrary: ms rest g' rule: takeMain.induct)
    (auto simp: Let_def split: if_splits prod.splits)

lemma takeMain_nonempty: "is \<noteq> [] \<Longrightarrow> takeMain main is g = (ms, rest, g') \<Longrightarrow> ms \<noteq> []"
  by (induction main "is" g arbitrary: ms rest g' rule: takeMain.induct)
    (auto simp: Let_def split: if_splits prod.splits)

lemma createTransitionGroupsForInstruction_shorter:
  assumes "is \<noteq> []"
  shows "length (fst (createTransitionGroupsForInstruction is g)) < length is"
proof -
  obtain fs rest g1 where f: "takeFront is g = (fs, rest, g1)"
    by (metis prod.exhaust)
  show ?thesis
  proof (cases rest)
    case Nil
    with f assms show ?thesis
      by (simp add: createTransitionGroupsForInstruction_def)
  next
    case (Cons main r)
    obtain ms rest' g' where m: "takeMain main rest g1 = (ms, rest', g')"
      by (metis prod.exhaust)
    with Cons have "ms \<noteq> []"
      using takeMain_nonempty by blast
    moreover have "is = fs @ ms @ rest'"
      using takeFront_append [OF f] takeMain_append [OF m] by simp
    ultimately show ?thesis
      using f m Cons by (simp add: createTransitionGroupsForInstruction_def)
  qed
qed

function createTransitionGroupsForBasicBlock :: "instruction list \<Rightarrow> generator \<Rightarrow> generator" where
  "createTransitionGroupsForBasicBlock is g =
     (if is = [] then g
      else (let (rest, g') = createTransitionGroupsForInstruction is g
            in createTransitionGroupsForBasicBlock rest g'))"
  by pat_completeness auto
termination
proof (relation "measure (\<lambda>(is, g). length is)", goal_cases)
  case 1
  show ?case by simp
next
  case (2 "is" g x rest g')
  with createTransitionGroupsForInstruction_shorter [of "is" g] show ?case
    by (metis case_prod_conv fst_conv in_measure)
qed

declare createTransitionGroupsForBasicBlock.simps [simp del]

definition createTransitionGroupsForFunction :: "func \<Rightarrow> generator \<Rightarrow> generator" where
  "createTransitionGroupsForFunction F g = fold createTransitionGroupsForBasicBlock (f_blocks F) g"

definition createDefaultTransitionGroups :: "generator \<Rightarrow> generator" where
  "createDefaultTransitionGroups g =
     addTransitionGroup (TGLambda MainGroup) (addTransitionGroup (TGLambda ConstructorsGroup) g)"

definition createTransitionGroups :: "generator \<Rightarrow> generator" where
  "createTransitionGroups g =
     fold (\<lambda>F g. if f_decl F then g else createTransitionGroupsForFunction F g)
       (m_functions (gn_module g)) (createDefaultTransitionGroups g)"

section \<open>What the grouping guarantees\<close>

text \<open>Program counters are positive, bounded by the counter and never shared.\<close>

definition loc_inv :: "generator \<Rightarrow> bool" where
  "loc_inv g \<longleftrightarrow> 0 < gn_nextProgramLocation g
     \<and> (\<forall>i. gn_programLocations g i < gn_nextProgramLocation g)
     \<and> (\<forall>i j. gn_programLocations g i = gn_programLocations g j \<longrightarrow> gn_programLocations g i \<noteq> 0 \<longrightarrow> i = j)"

text \<open>Later stages of the grouping keep the module, the options and the counters given out.\<close>

definition gen_ext :: "generator \<Rightarrow> generator \<Rightarrow> bool" where
  "gen_ext g g' \<longleftrightarrow> gn_module g' = gn_module g
     \<and> gn_assumeNonAtomicCollapsable g' = gn_assumeNonAtomicCollapsable g
     \<and> (\<forall>i. gn_programLocations g i \<noteq> 0 \<longrightarrow> gn_programLocations g' i = gn_programLocations g i)"

abbreviation located :: "generator \<Rightarrow> instruction list \<Rightarrow> bool" where
  "located g is \<equiv> \<forall>i \<in> set is. 0 < gn_programLocations g (i_id i)"

lemma gen_ext_refl [simp, intro]: "gen_ext g g"
  by (simp add: gen_ext_def)

lemma gen_ext_trans: "gen_ext g g' \<Longrightarrow> gen_ext g' g'' \<Longrightarrow> gen_ext g g''"
  by (simp add: gen_ext_def)

lemma gen_ext_located: "gen_ext g g' \<Longrightarrow> located g is \<Longrightarrow> located g' is"
  by (simp add: gen_ext_def)

lemma gen_ext_tests:
  assumes "gen_ext g g'"
  shows "isFrontCollapsableInstruction g' = isFrontCollapsableInstruction g"
    and "isBackCollapsableInstruction g' = isBackCollapsableInstruction g"
    and "instructionsCanCollapse g' = instructionsCanCollapse g"
proof -
  have eqs: "nonatomic_collapsable g' = nonatomic_collapsable g"
    "isFrontCollapsableCall g' = isFrontCollapsableCall g"
    "isBackCollapsableCall g' = isBackCollapsableCall g" "gn_module g' = gn_module g"
    using assms unfolding gen_ext_def nonatomic_collapsable_def isFrontCollapsableCall_def
      isBackCollapsableCall_def by (auto simp only: fun_eq_iff)
  show "isFrontCollapsableInstruction g' = isFrontCollapsableInstruction g"
    by (rule ext) (simp only: isFrontCollapsableInstruction_def eqs)
  show "isBackCollapsableInstruction g' = isBackCollapsableInstruction g"
    by (rule ext) (simp only: isBackCollapsableInstruction_def eqs)
  show "instructionsCanCollapse g' = instructionsCanCollapse g"
    by (intro ext) (simp only: instructionsCanCollapse_def eqs)
qed

lemma loc_inv_assignLocation [simp]:
  assumes "loc_inv g"
  shows "loc_inv (assignLocation i g)"
proof (cases "gn_programLocations g (i_id i) = 0")
  case False
  with assms show ?thesis by (simp add: assignLocation_def)
next
  case True
  let ?p = "gn_programLocations (assignLocation i g)"
  have bound: "gn_programLocations g j < gn_nextProgramLocation g" for j
    using assms by (simp add: loc_inv_def)
  have p: "?p j = (if j = i_id i then gn_nextProgramLocation g else gn_programLocations g j)" for j
    using True by (simp add: assignLocation_def)
  have inj: "j = k" if "gn_programLocations g j = gn_programLocations g k"
      "gn_programLocations g j \<noteq> 0" for j k
    using that assms unfolding loc_inv_def by blast
  have "?p j < Suc (gn_nextProgramLocation g)" for j
    using bound [of j] by (simp add: p less_SucI)
  moreover have "j = k" if "?p j = ?p k" "?p j \<noteq> 0" for j k
    using that bound [of j] bound [of k] inj [of j k] unfolding p by (simp split: if_splits)
  moreover have "gn_nextProgramLocation (assignLocation i g) = Suc (gn_nextProgramLocation g)"
    using True by (simp add: assignLocation_def)
  ultimately show ?thesis
    unfolding loc_inv_def by (metis zero_less_Suc)
qed

lemma assignLocation_props [simp]:
  "gen_ext g (assignLocation i g)"
  "gn_transitionGroups (assignLocation i g) = gn_transitionGroups g"
  by (simp_all add: assignLocation_def gen_ext_def)

lemma assignLocation_located [simp]:
  "loc_inv g \<Longrightarrow> 0 < gn_programLocations (assignLocation i g) (i_id i)"
  by (simp add: assignLocation_def loc_inv_def)

lemma gen_ext_step:
  assumes "loc_inv g" and "gen_ext (assignLocation i g) g'"
  shows "gen_ext g g'" and "0 < gn_programLocations g' (i_id i)"
proof -
  show "gen_ext g g'"
    using gen_ext_trans [OF assignLocation_props(1) assms(2)] .
  show "0 < gn_programLocations g' (i_id i)"
    using assignLocation_located [OF assms(1), of i] assms(2) by (simp add: gen_ext_def)
qed

lemma assignLocation_tests [simp]:
  "isFrontCollapsableInstruction (assignLocation j g) = isFrontCollapsableInstruction g"
  "isBackCollapsableInstruction (assignLocation j g) = isBackCollapsableInstruction g"
  "instructionsCanCollapse (assignLocation j g) = instructionsCanCollapse g"
  by (rule gen_ext_tests, simp)+

lemma fold_addTransitionGroup:
  "fold addTransitionGroup tgs g = g\<lparr>gn_transitionGroups := gn_transitionGroups g @ tgs\<rparr>"
  by (induction tgs arbitrary: g) (simp_all add: addTransitionGroup_def)

lemma gen_ext_groups [simp]:
  "gen_ext g (g'\<lparr>gn_transitionGroups := x\<rparr>) = gen_ext g g'"
  "gen_ext (g\<lparr>gn_transitionGroups := x\<rparr>) g' = gen_ext g g'"
  "loc_inv (g\<lparr>gn_transitionGroups := x\<rparr>) = loc_inv g"
  by (simp_all add: gen_ext_def loc_inv_def)

lemma takeFront_props:
  assumes "takeFront is g = (fs, rest, g')" and "loc_inv g"
  shows "loc_inv g'" and "gen_ext g g'" and "located g' fs"
    and "gn_transitionGroups g' = gn_transitionGroups g"
    and "list_all (isFrontCollapsableInstruction g) fs"
    and "rest \<noteq> [] \<Longrightarrow> \<not> isFrontCollapsableInstruction g (hd rest)"
proof -
  have "loc_inv g' \<and> gen_ext g g' \<and> located g' fs \<and> gn_transitionGroups g' = gn_transitionGroups g
      \<and> list_all (isFrontCollapsableInstruction g) fs
      \<and> (rest \<noteq> [] \<longrightarrow> \<not> isFrontCollapsableInstruction g (hd rest))"
    using assms
  proof (induction "is" g arbitrary: fs rest g' rule: takeFront.induct)
    case (1 g)
    then show ?case by simp
  next
    case (2 i "is" g)
    show ?case
    proof (cases "isFrontCollapsableInstruction g i")
      case False
      with 2 show ?thesis by auto
    next
      case True
      then obtain fs' where fs': "takeFront is (assignLocation i g) = (fs', rest, g')" "fs = i # fs'"
        using "2.prems"(1) by (auto split: prod.splits)
      then show ?thesis
        using True "2.prems"(2) "2.IH" [OF True fs'(1)] gen_ext_step [of g i g'] by auto
    qed
  qed
  then show "loc_inv g'" "gen_ext g g'" "located g' fs"
    "gn_transitionGroups g' = gn_transitionGroups g"
    "list_all (isFrontCollapsableInstruction g) fs"
    "rest \<noteq> [] \<Longrightarrow> \<not> isFrontCollapsableInstruction g (hd rest)"
    by blast+
qed

definition main_shape :: "generator \<Rightarrow> instruction \<Rightarrow> instruction list \<Rightarrow> bool" where
  "main_shape g main ms \<longleftrightarrow>
     list_all (\<lambda>j. isBackCollapsableInstruction g j \<or> instructionsCanCollapse g main j) (tl ms)
     \<and> list_all (\<lambda>j. \<not> isCall j) (butlast ms)"

lemma takeMain_props:
  assumes "takeMain main is g = (ms, rest, g')" and "loc_inv g"
  shows "loc_inv g'" and "gen_ext g g'" and "located g' ms"
    and "gn_transitionGroups g' = gn_transitionGroups g" and "main_shape g main ms"
    and "is \<noteq> [] \<Longrightarrow> hd ms = hd is"
proof -
  have "loc_inv g' \<and> gen_ext g g' \<and> located g' ms \<and> gn_transitionGroups g' = gn_transitionGroups g
      \<and> main_shape g main ms \<and> (is \<noteq> [] \<longrightarrow> ms \<noteq> [] \<and> hd ms = hd is)"
    using assms
  proof (induction main "is" g arbitrary: ms rest g' rule: takeMain.induct)
    case (1 main g)
    then show ?case by (auto simp: main_shape_def)
  next
    case (2 main i g)
    then show ?case by (auto simp: main_shape_def)
  next
    case (3 main i j "is" g)
    show ?case
    proof (cases "(isBackCollapsableInstruction g j \<or> instructionsCanCollapse g main j) \<and> \<not> isCall i")
      case False
      then have "ms = [i] \<and> g' = assignLocation i g"
        using "3.prems"(1) by (auto simp: Let_def split: if_splits)
      with "3.prems"(2) show ?thesis by (simp add: main_shape_def)
    next
      case True
      then obtain ms' where ms': "takeMain main (j # is) (assignLocation i g) = (ms', rest, g')"
          "ms = i # ms'"
        using "3.prems"(1) by (auto simp: Let_def split: prod.splits)
      have "loc_inv g' \<and> gen_ext (assignLocation i g) g' \<and> located g' ms'
          \<and> gn_transitionGroups g' = gn_transitionGroups (assignLocation i g)
          \<and> main_shape (assignLocation i g) main ms' \<and> ms' \<noteq> [] \<and> hd ms' = j"
        using "3.IH" [OF refl _ _ ms'(1)] True "3.prems"(2) by simp
      moreover from this have "main_shape g main (i # ms')"
        using True by (cases ms') (auto simp: main_shape_def)
      ultimately show ?thesis
        using ms'(2) "3.prems"(2) gen_ext_step [of g i g'] by simp
    qed
  qed
  then show "loc_inv g'" "gen_ext g g'" "located g' ms"
    "gn_transitionGroups g' = gn_transitionGroups g" "main_shape g main ms"
    "is \<noteq> [] \<Longrightarrow> hd ms = hd is"
    by blast+
qed

text \<open>The shape of one group: front-collapsable instructions, then (in an emitting group) one
  main instruction that is not front-collapsable and instructions that may follow it.\<close>

definition group_shape :: "generator \<Rightarrow> instruction list \<times> bool \<Rightarrow> bool" where
  "group_shape g = (\<lambda>(ins, emitter).
     \<exists>fs ms. ins = fs @ ms \<and> ins \<noteq> [] \<and> list_all (isFrontCollapsableInstruction g) fs
       \<and> (emitter \<longleftrightarrow> ms \<noteq> [])
       \<and> (ms \<noteq> [] \<longrightarrow> \<not> isFrontCollapsableInstruction g (hd ms) \<and> main_shape g (hd ms) ms))"

definition per_thread :: "instruction list \<times> bool \<Rightarrow> tgroup list" where
  "per_thread = (\<lambda>(ins, emitter). map (\<lambda>t. TGInstructions t ins emitter) [0..<MAX_THREADS])"

lemma createTransitionGroupsForInstruction_props:
  assumes "createTransitionGroupsForInstruction is g = (rest, g')" and "loc_inv g" and "is \<noteq> []"
  shows "\<exists>ins emitter. is = ins @ rest \<and> group_shape g (ins, emitter) \<and> loc_inv g' \<and> gen_ext g g'
    \<and> located g' ins
    \<and> gn_transitionGroups g' = gn_transitionGroups g @ per_thread (ins, emitter)"
proof -
  obtain fs r1 g1 where f: "takeFront is g = (fs, r1, g1)"
    by (metis prod.exhaust)
  note fp = takeFront_props [OF f assms(2)] and fa = takeFront_append [OF f]
  show ?thesis
  proof (cases r1)
    case Nil
    with f assms(1) have "rest = []" "g' = fold addTransitionGroup (per_thread (fs, False)) g1"
      by (simp_all add: createTransitionGroupsForInstruction_def per_thread_def)
    with Nil fa fp assms(3) show ?thesis
      by (intro exI [of _ fs] exI [of _ False])
        (auto simp: fold_addTransitionGroup group_shape_def)
  next
    case (Cons main r)
    obtain ms r2 g2 where m: "takeMain main r1 g1 = (ms, r2, g2)"
      by (metis prod.exhaust)
    note mp = takeMain_props [OF m fp(1)] and ma = takeMain_append [OF m]
    define g3 where "g3 = (case r2 of [] \<Rightarrow> g2 | j # _ \<Rightarrow> assignLocation j g2)"
    have g3: "loc_inv g3" "gen_ext g2 g3" "gn_transitionGroups g3 = gn_transitionGroups g2"
      using mp(1) by (auto simp: g3_def split: list.splits)
    have res: "rest = r2" "g' = fold addTransitionGroup (per_thread (fs @ ms, True)) g3"
      using f m Cons assms(1)
      by (auto simp add: createTransitionGroupsForInstruction_def per_thread_def g3_def)
    have ne: "ms \<noteq> []" and hd: "hd ms = main"
      using takeMain_nonempty [OF _ m] Cons mp(6) by auto
    have "main_shape g (hd ms) ms"
      using mp(5) gen_ext_tests [OF fp(2)] hd by (simp add: main_shape_def)
    then have "group_shape g (fs @ ms, True)"
      using fp(5,6) ne hd Cons unfolding group_shape_def by auto
    moreover have "gen_ext g g3" "located g3 (fs @ ms)"
      using gen_ext_trans [OF fp(2) gen_ext_trans [OF mp(2) g3(2)]]
        gen_ext_located [OF gen_ext_trans [OF mp(2) g3(2)] fp(3)] gen_ext_located [OF g3(2) mp(3)]
      by auto
    ultimately show ?thesis
      using res g3 fa ma fp(4) mp(4)
      by (intro exI [of _ "fs @ ms"] exI [of _ True]) (simp add: fold_addTransitionGroup)
  qed
qed

text \<open>Groups of a block, a function and the module.  \<open>groups_cover g is g'\<close>: the groups \<open>g'\<close> has
  beyond those of \<open>g\<close> are well shaped and cut exactly the instructions \<open>is\<close>, in order.\<close>

definition groups_cover :: "generator \<Rightarrow> instruction list \<Rightarrow> generator \<Rightarrow> bool" where
  "groups_cover g is g' \<longleftrightarrow> loc_inv g' \<and> gen_ext g g'
     \<and> list_all (\<lambda>i. 0 < gn_programLocations g' (i_id i)) is
     \<and> (\<exists>gs. gn_transitionGroups g' = gn_transitionGroups g @ concat (map per_thread gs)
          \<and> concat (map fst gs) = is \<and> list_all (group_shape g) gs)"

lemma gen_ext_group_shape: "gen_ext g g' \<Longrightarrow> group_shape g' = group_shape g"
  unfolding group_shape_def main_shape_def by (simp only: gen_ext_tests)

lemma groups_cover_refl: "loc_inv g \<Longrightarrow> groups_cover g [] g"
  by (auto simp: groups_cover_def intro: exI [of _ "[]"])

lemma groups_cover_trans:
  assumes "groups_cover g is g1" and "groups_cover g1 js g2"
  shows "groups_cover g (is @ js) g2"
proof -
  from assms obtain gs hs where
    gs: "gn_transitionGroups g1 = gn_transitionGroups g @ concat (map per_thread gs)"
      "concat (map fst gs) = is" "list_all (group_shape g) gs" and
    hs: "gn_transitionGroups g2 = gn_transitionGroups g1 @ concat (map per_thread hs)"
      "concat (map fst hs) = js" "list_all (group_shape g1) hs"
    unfolding groups_cover_def by blast
  have e: "gen_ext g g1" "gen_ext g1 g2"
    using assms by (simp_all add: groups_cover_def)
  have "list_all (\<lambda>i. 0 < gn_programLocations g2 (i_id i)) is"
    using assms(1) e(2) by (auto simp: groups_cover_def gen_ext_def list_all_iff)
  moreover have "list_all (group_shape g) hs"
    using hs(3) gen_ext_group_shape [OF e(1)] by simp
  ultimately show ?thesis
    using assms gs hs gen_ext_trans [OF e] unfolding groups_cover_def
    by (intro conjI exI [of _ "gs @ hs"]) simp_all
qed

lemma createTransitionGroupsForBasicBlock_cover:
  "loc_inv g \<Longrightarrow> groups_cover g is (createTransitionGroupsForBasicBlock is g)"
proof (induction "is" g rule: createTransitionGroupsForBasicBlock.induct)
  case (1 "is" g)
  show ?case
  proof (cases "is = []")
    case True
    with 1 show ?thesis
      by (simp add: createTransitionGroupsForBasicBlock.simps groups_cover_refl)
  next
    case False
    obtain rest g1 where r: "createTransitionGroupsForInstruction is g = (rest, g1)"
      by (metis prod.exhaust)
    from createTransitionGroupsForInstruction_props [OF r 1(2) False]
    obtain ins em where p: "is = ins @ rest" "group_shape g (ins, em)" "loc_inv g1" "gen_ext g g1"
      "located g1 ins" "gn_transitionGroups g1 = gn_transitionGroups g @ per_thread (ins, em)"
      by blast
    have "groups_cover g ins g1"
      using p unfolding groups_cover_def list_all_iff
      by (intro conjI exI [of _ "[(ins, em)]"]) simp_all
    moreover have "groups_cover g1 rest (createTransitionGroupsForBasicBlock rest g1)"
      using 1(1) [OF False r [symmetric] refl p(3)] .
    ultimately have "groups_cover g is (createTransitionGroupsForBasicBlock rest g1)"
      using groups_cover_trans p(1) by blast
    then show ?thesis
      using False r by (simp add: createTransitionGroupsForBasicBlock.simps [of "is"])
  qed
qed

lemma groups_cover_inv: "groups_cover g is g' \<Longrightarrow> loc_inv g'"
  by (simp add: groups_cover_def)

lemma createTransitionGroupsForFunction_cover:
  "loc_inv g \<Longrightarrow> groups_cover g (f_insts F) (createTransitionGroupsForFunction F g)"
proof -
  have "loc_inv g \<Longrightarrow> groups_cover g (concat bs) (fold createTransitionGroupsForBasicBlock bs g)" for bs
  proof (induction bs arbitrary: g)
    case Nil
    then show ?case by (simp add: groups_cover_refl)
  next
    case (Cons b bs)
    note c = createTransitionGroupsForBasicBlock_cover [OF Cons.prems, of b]
    from groups_cover_trans [OF c Cons.IH [OF groups_cover_inv [OF c]]]
    show ?case by simp
  qed
  then show "loc_inv g \<Longrightarrow> ?thesis"
    by (simp add: createTransitionGroupsForFunction_def f_insts_def)
qed

definition defined_insts :: "ir_module \<Rightarrow> instruction list" where
  "defined_insts m = concat (map f_insts (filter (\<lambda>F. \<not> f_decl F) (m_functions m)))"

lemma createTransitionGroups_cover:
  assumes "loc_inv g"
  shows "groups_cover (createDefaultTransitionGroups g) (defined_insts (gn_module g))
           (createTransitionGroups g)"
proof -
  let ?step = "\<lambda>F g. if f_decl F then g else createTransitionGroupsForFunction F g"
  have "loc_inv g \<Longrightarrow>
      groups_cover g (concat (map f_insts (filter (\<lambda>F. \<not> f_decl F) Fs))) (fold ?step Fs g)" for Fs g
  proof (induction Fs arbitrary: g)
    case Nil
    then show ?case by (simp add: groups_cover_refl)
  next
    case (Cons F Fs)
    show ?case
    proof (cases "f_decl F")
      case True
      with Cons show ?thesis by simp
    next
      case False
      note c = createTransitionGroupsForFunction_cover [OF Cons.prems, of F]
      from False groups_cover_trans [OF c Cons.IH [OF groups_cover_inv [OF c]]]
      show ?thesis by simp
    qed
  qed
  moreover have "loc_inv (createDefaultTransitionGroups g)"
    using assms by (simp add: createDefaultTransitionGroups_def addTransitionGroup_def)
  ultimately show ?thesis
    by (simp add: createTransitionGroups_def defined_insts_def)
qed

section \<open>Properties\<close>

text \<open>
  C12: the transition groups of a module are the two default groups followed, for a cut of the
  instructions of all defined functions into consecutive non-empty groups, by one copy of
  each group per thread slot; every group is a run of front-collapsable instructions and, if
  it emits, one instruction that is not front-collapsable followed by instructions that may
  share its transition, with no call before the last one; every instruction gets a positive
  program counter, and two instructions share one only if they are the same instruction.
\<close>

theorem createTransitionGroups_partition:
  fixes m :: ir_module and na :: bool
  defines "g \<equiv> createTransitionGroups (generator_new m na)"
  shows "(\<exists>gs. gn_transitionGroups g
              = [TGLambda ConstructorsGroup, TGLambda MainGroup] @ concat (map per_thread gs)
            \<and> concat (map fst gs) = defined_insts m
            \<and> list_all (group_shape (generator_new m na)) gs)
         \<and> loc_inv g
         \<and> list_all (\<lambda>i. 0 < gn_programLocations g (i_id i)) (defined_insts m)"
proof -
  have inv: "loc_inv (generator_new m na)"
    by (simp add: loc_inv_def generator_new_def)
  let ?d = "createDefaultTransitionGroups (generator_new m na)"
  have "gn_module (generator_new m na) = m"
    by (simp add: generator_new_def)
  with createTransitionGroups_cover [OF inv] have c: "groups_cover ?d (defined_insts m) g"
    by (simp add: g_def)
  have "group_shape ?d = group_shape (generator_new m na)"
    by (rule gen_ext_group_shape)
      (simp add: createDefaultTransitionGroups_def addTransitionGroup_def)
  moreover have "gn_transitionGroups ?d = [TGLambda ConstructorsGroup, TGLambda MainGroup]"
    by (simp add: createDefaultTransitionGroups_def addTransitionGroup_def generator_new_def)
  ultimately show ?thesis
    using c by (auto simp: groups_cover_def)
qed

text \<open>
  C24: every instruction that may be collapsed behind another one may also stand in front: the
  back test is stronger than the front test, and the two differ only at a call of the
  declared function \<open>pthread_join\<close>.
\<close>

theorem back_front_collapsable:
  "isBackCollapsableInstruction g i =
     (isFrontCollapsableInstruction g i \<and>
      \<not> (case i_op i of
           Call c \<Rightarrow> (case getCalledFunction (gn_module g) c of
               Some F \<Rightarrow> \<not> isIntrinsic F \<and> f_name F = ''pthread_join''
             | None \<Rightarrow> False)
         | _ \<Rightarrow> False))"
  by (cases "i_op i")
    (auto simp: isBackCollapsableInstruction_def isFrontCollapsableInstruction_def
      isBackCollapsableCall_def isFrontCollapsableCall_def Let_def split: option.splits)

end
