(* ===== verification/Register_File.thy ===== *)
theory Register_File
  imports Model_State Transition_Groups
begin

text \<open>
  What the generated code relies on from the layout of a register struct (the locale
  \<open>register_layout\<close>), the layout that LLVM derives from the layout string the generator
  sets (LLDMCModelGenerator.h, \<open>pinsify\<close>), and the behaviour of the register file over it.
\<close>

section \<open>The contract of a register layout\<close>

locale register_layout =
  fixes dl :: layout
  assumes store_alloc: "dl_store dl t \<le> dl_alloc dl t"
    and elem_apart: "j < k \<Longrightarrow> k < length ts \<Longrightarrow>
      dl_elem dl ts j + dl_alloc dl (ts ! j) \<le> dl_elem dl ts k"
    and elem_inside: "k < length ts \<Longrightarrow> 8 * (dl_elem dl ts k + dl_alloc dl (ts ! k)) \<le> dl_bits dl ts"
begin

lemma elem_disjoint:
  assumes "j < length ts" and "k < length ts" and "j \<noteq> k"
  shows "dl_elem dl ts j + dl_store dl (ts ! j) \<le> dl_elem dl ts k
    \<or> dl_elem dl ts k + dl_store dl (ts ! k) \<le> dl_elem dl ts j"
  using assms elem_apart [of j k ts] elem_apart [of k j ts] store_alloc [of "ts ! j"]
    store_alloc [of "ts ! k"] by linarith

lemma elem_store_inside:
  "k < length ts \<Longrightarrow> dl_elem dl ts k + dl_store dl (ts ! k) \<le> dl_bits dl ts div 8"
proof -
  assume "k < length ts"
  have "8 * (dl_elem dl ts k + dl_store dl (ts ! k)) \<le> 8 * (dl_elem dl ts k + dl_alloc dl (ts ! k))"
    using store_alloc [of "ts ! k"] by simp
  also have "\<dots> \<le> dl_bits dl ts"
    using elem_inside [OF \<open>k < length ts\<close>] .
  finally have "8 * (dl_elem dl ts k + dl_store dl (ts ! k)) \<le> dl_bits dl ts" .
  then show ?thesis
    by (metis div_le_mono nonzero_mult_div_cancel_left zero_neq_numeral)
qed

text \<open>Writing one register of a function and reading another.\<close>

lemma read_other_register:
  assumes "dl_bits dl ts div 8 \<le> length r" and "j < length ts" and "k < length ts" and "j \<noteq> k"
    and "length v = dl_store dl (ts ! j)"
  shows "bytes_at (dl_elem dl ts k) (dl_store dl (ts ! k)) (put_at (dl_elem dl ts j) v r)
    = bytes_at (dl_elem dl ts k) (dl_store dl (ts ! k)) r"
proof (rule bytes_at_put_at_disjoint)
  show "dl_elem dl ts k + dl_store dl (ts ! k) \<le> dl_elem dl ts j
      \<or> dl_elem dl ts j + length v \<le> dl_elem dl ts k"
    using elem_disjoint [OF assms(2-4)] assms(5) by auto
  show "dl_elem dl ts j + length v \<le> length r" "dl_elem dl ts k + dl_store dl (ts ! k) \<le> length r"
    using elem_store_inside [OF assms(2)] elem_store_inside [OF assms(3)] assms(1,5) by linarith+
qed

end

section \<open>The layout of the generated module\<close>

text \<open>
  \<open>p:64:64:64-i1:32:32-i8:32:32-i16:32:32-i32:32:32-i64:64:64-i128:128:128-f32:32:32-f64:64:64\<close>:
  LLVM rounds the store size of a type up to its ABI alignment and places every field of a
  struct at the next multiple of its alignment.
\<close>

definition round_up :: "nat \<Rightarrow> nat \<Rightarrow> nat" where
  "round_up a n = (n + (a - 1)) div a * a"

lemma round_up_ge: "0 < a \<Longrightarrow> n \<le> round_up a n"
proof -
  assume "0 < a"
  have "n + (a - 1) = (n + (a - 1)) div a * a + (n + (a - 1)) mod a"
    by simp
  moreover have "(n + (a - 1)) mod a \<le> a - 1"
    using mod_less_divisor [OF \<open>0 < a\<close>, of "n + (a - 1)"] by linarith
  ultimately show ?thesis
    unfolding round_up_def by linarith
qed

fun dmc_align :: "ty \<Rightarrow> nat" where
  "dmc_align VoidTy = 1"
| "dmc_align (IntTy n) = (if n \<le> 32 then 4 else if n \<le> 64 then 8 else 16)"
| "dmc_align (FloatTy n) = (if n \<le> 32 then 4 else if n \<le> 64 then 8 else 16)"
| "dmc_align (PtrTy t) = 8"
| "dmc_align (StructTy ts) = Max (set (1 # map dmc_align ts))"
| "dmc_align (ArrayTy n t) = dmc_align t"
| "dmc_align (FunTy r ps v) = 1"

fun dmc_alloc :: "ty \<Rightarrow> nat" where
  "dmc_alloc VoidTy = 0"
| "dmc_alloc (IntTy n) = round_up (dmc_align (IntTy n)) ((n + 7) div 8)"
| "dmc_alloc (FloatTy n) = round_up (dmc_align (FloatTy n)) ((n + 7) div 8)"
| "dmc_alloc (PtrTy t) = 8"
| "dmc_alloc (StructTy ts) =
     round_up (dmc_align (StructTy ts)) (foldl (\<lambda>off t. round_up (dmc_align t) off + dmc_alloc t) 0 ts)"
| "dmc_alloc (ArrayTy n t) = n * dmc_alloc t"
| "dmc_alloc (FunTy r ps v) = 0"

definition dmc_end :: "ty list \<Rightarrow> nat" where
  "dmc_end ts = foldl (\<lambda>off t. round_up (dmc_align t) off + dmc_alloc t) 0 ts"

definition dmc_elem :: "ty list \<Rightarrow> nat \<Rightarrow> nat" where
  "dmc_elem ts k = round_up (dmc_align (ts ! k)) (dmc_end (take k ts))"

fun dmc_store :: "ty \<Rightarrow> nat" where
  "dmc_store (IntTy n) = (n + 7) div 8"
| "dmc_store (FloatTy n) = (n + 7) div 8"
| "dmc_store t = dmc_alloc t"

fun dmc_field :: "ty \<Rightarrow> nat list \<Rightarrow> nat" where
  "dmc_field (StructTy ts) (k # ks) = dmc_elem ts k + (if k < length ts then dmc_field (ts ! k) ks else 0)"
| "dmc_field (ArrayTy n t) (k # ks) = k * dmc_alloc t + dmc_field t ks"
| "dmc_field t ks = 0"

definition dmc_layout :: layout where
  "dmc_layout = \<lparr>dl_alloc = dmc_alloc, dl_store = dmc_store,
     dl_bits = (\<lambda>ts. 8 * dmc_alloc (StructTy ts)), dl_elem = dmc_elem, dl_field = dmc_field\<rparr>"

lemma dmc_align_pos: "0 < dmc_align t"
proof (induction t rule: dmc_align.induct)
  case (5 ts)
  have "1 \<le> Max (set (1 # map dmc_align ts))"
    by (rule Max_ge) auto
  then show ?case unfolding dmc_align.simps by linarith
qed simp_all

lemma dmc_store_alloc: "dmc_store t \<le> dmc_alloc t"
  using round_up_ge [OF dmc_align_pos [of t], of "dmc_store t"] by (cases t) simp_all

lemma dmc_end_step:
  assumes "k < length ts"
  shows "dmc_end (take (Suc k) ts) = dmc_elem ts k + dmc_alloc (ts ! k)"
  using assms by (simp add: dmc_end_def dmc_elem_def take_Suc_conv_app_nth)

lemma dmc_end_mono: "j \<le> k \<Longrightarrow> k \<le> length ts \<Longrightarrow> dmc_end (take j ts) \<le> dmc_end (take k ts)"
proof (induction k)
  case 0
  then show ?case by simp
next
  case (Suc k)
  have "dmc_end (take k ts) \<le> dmc_elem ts k"
    unfolding dmc_elem_def by (rule round_up_ge [OF dmc_align_pos])
  with Suc dmc_end_step [of k ts] show ?case
    by (cases "j = Suc k") auto
qed

interpretation dmc: register_layout dmc_layout
proof (unfold_locales, goal_cases)
  case (1 t)
  then show ?case by (simp add: dmc_layout_def dmc_store_alloc)
next
  case (2 j k ts)
  then have "dmc_end (take (Suc j) ts) \<le> dmc_end (take k ts)"
    by (intro dmc_end_mono) auto
  also have "\<dots> \<le> dmc_elem ts k"
    unfolding dmc_elem_def by (rule round_up_ge [OF dmc_align_pos])
  finally show ?case
    using 2 dmc_end_step [of j ts] by (simp add: dmc_layout_def)
next
  case (3 k ts)
  then have "dmc_elem ts k + dmc_alloc (ts ! k) \<le> dmc_end ts"
    using dmc_end_step [of k ts] dmc_end_mono [of "Suc k" "length ts" ts] by simp
  also have "\<dots> \<le> dmc_alloc (StructTy ts)"
    using round_up_ge [OF dmc_align_pos [of "StructTy ts"], of "dmc_end ts"]
    by (simp add: dmc_end_def)
  finally show ?case by (simp add: dmc_layout_def)
qed

section \<open>The register file\<close>

text \<open>
  \<open>regs_fit env gc\<close>: the register area of the running thread has the generator's size, and
  the register struct of every function fits into it.
\<close>

definition regs_fit :: "'s env \<Rightarrow> 's gctx \<Rightarrow> bool" where
  "regs_fit env gc \<longleftrightarrow> gc_thread gc < length (sv_processes (gc_svout gc))
     \<and> length (p_r (sv_processes (gc_svout gc) ! gc_thread gc)) = en_regs env
     \<and> (\<forall>F. dl_bits (en_dl env) (gn_registerTypes (en_gen env) F) div 8 \<le> en_regs env)"

text \<open>The place of a register: the register index of a value of function \<open>F\<close> and its type.\<close>

definition register_of :: "'s env \<Rightarrow> val \<Rightarrow> (string \<times> nat) option" where
  "register_of env v =
     (case v of
        InstV F i \<Rightarrow> map_option (Pair F) (reg_index (en_gen env) F (InstReg i))
      | ArgV F k \<Rightarrow> map_option (Pair F) (reg_index (en_gen env) F (ArgReg k))
      | _ \<Rightarrow> None)"

lemma vReg_register_of:
  assumes "register_of env v = Some (F, idx)"
  shows "vReg env v = Ok (dl_elem (en_dl env) (gn_registerTypes (en_gen env) F) idx,
      gn_registerTypes (en_gen env) F ! idx)"
    and "vMap env gc v = load_reg gc (dl_elem (en_dl env) (gn_registerTypes (en_gen env) F) idx)
      (dl_store (en_dl env) (gn_registerTypes (en_gen env) F ! idx))"
proof -
  have "(\<exists>i. v = InstV F i \<and> reg_index (en_gen env) F (InstReg i) = Some idx)
      \<or> (\<exists>k. v = ArgV F k \<and> reg_index (en_gen env) F (ArgReg k) = Some idx)"
    using assms by (cases v) (auto simp: register_of_def)
  then show "vReg env v = Ok (dl_elem (en_dl env) (gn_registerTypes (en_gen env) F) idx,
      gn_registerTypes (en_gen env) F ! idx)"
    and "vMap env gc v = load_reg gc (dl_elem (en_dl env) (gn_registerTypes (en_gen env) F) idx)
      (dl_store (en_dl env) (gn_registerTypes (en_gen env) F ! idx))"
    by (elim disjE exE conjE; simp add: vReg_def vRegDirect_def Let_def)+
qed

context register_layout begin

lemma register_write_read:
  assumes "en_dl env = dl" and "regs_fit env gc" and "register_of env w = Some (F, j)"
    and "j < length (gn_registerTypes (en_gen env) F)"
    and "length d = dl_store dl (gn_registerTypes (en_gen env) F ! j)"
    and "vReg env w = Ok (off, t)"
  obtains gc' where "store_reg off d gc = Ok gc'" and "vMap env gc' w = Ok d"
    and "regs_fit env gc'" and "gc' = upd_proc (gc_thread gc) (\<lambda>p. p\<lparr>p_r := put_at off d (p_r p)\<rparr>) gc"
    and "\<And>v k. register_of env v = Some (F, k) \<Longrightarrow> k < length (gn_registerTypes (en_gen env) F) \<Longrightarrow>
      k \<noteq> j \<Longrightarrow> vMap env gc' v = vMap env gc v"
proof -
  let ?ts = "gn_registerTypes (en_gen env) F"
  let ?t = "gc_thread gc"
  let ?r = "p_r (sv_processes (gc_svout gc) ! ?t)"
  let ?gc = "upd_proc ?t (\<lambda>p. p\<lparr>p_r := put_at off d (p_r p)\<rparr>) gc"
  have off: "off = dl_elem dl ?ts j"
    using assms(1,6) vReg_register_of(1) [OF assms(3)] by simp
  have fit: "?t < length (sv_processes (gc_svout gc))" "length ?r = en_regs env"
    "dl_bits dl ?ts div 8 \<le> length ?r"
    using assms(1,2) by (auto simp: regs_fit_def)
  have inside: "off + length d \<le> length ?r"
    using elem_store_inside [OF assms(4)] fit(3) assms(5) off by simp
  show thesis
  proof (rule that [of ?gc])
    show "store_reg off d gc = Ok ?gc"
      using fit(1) inside by (simp add: store_reg_def store_reg_of_def proc_at_def)
    show "vMap env ?gc w = Ok d"
      using vReg_register_of(2) [OF assms(3), of ?gc] fit(1) inside off assms(1,5)
        bytes_at_put_at_same [of off ?r d]
      by (simp add: load_reg_def proc_at_def length_put_at)
    show "regs_fit env ?gc"
      using assms(2) inside by (simp add: regs_fit_def length_put_at)
    show "vMap env ?gc v = vMap env gc v"
      if v: "register_of env v = Some (F, k)" "k < length ?ts" "k \<noteq> j" for v k
      using vReg_register_of(2) [OF v(1)] fit off inside assms(1)
        read_other_register [of ?ts ?r j k d] assms(4,5) v(2,3) elem_store_inside [OF v(2)]
      by (simp add: load_reg_def proc_at_def length_put_at)
  qed (rule refl)
qed

end

text \<open>
  C21: the register file works: storing the result of an instruction in its register makes
  \<open>vMap\<close> return exactly that value for it, and leaves every other value of the same function
  (argument or instruction) as it was, for the layout of the generated module.
\<close>

theorem store_result_vMap:
  assumes "en_dl env = dmc_layout" and "regs_fit env gc" and "register_of env w = Some (F, j)"
    and "j < length (gn_registerTypes (en_gen env) F)"
    and "length d = dmc_store (gn_registerTypes (en_gen env) F ! j)"
    and "register_of env v = Some (F, k)" and "k < length (gn_registerTypes (en_gen env) F)"
  shows "\<exists>gc'. obind (vReg env w) (\<lambda>(off, t). store_reg off d gc) = Ok gc'
    \<and> vMap env gc' w = Ok d \<and> (k \<noteq> j \<longrightarrow> vMap env gc' v = vMap env gc v)"
proof -
  let ?off = "dl_elem (en_dl env) (gn_registerTypes (en_gen env) F) j"
  note w = vReg_register_of(1) [OF assms(3)]
  have d: "length d = dl_store dmc_layout (gn_registerTypes (en_gen env) F ! j)"
    using assms(5) by (simp add: dmc_layout_def)
  show ?thesis
  proof (rule dmc.register_write_read [OF assms(1-4) d w], goal_cases)
    case (1 gc')
    with w 1(5) [OF assms(6,7)] show ?case by (intro exI [of _ gc']) simp
  qed
qed

text \<open>An environment and a context for the examples: the module of \<open>inc\<close>, the layout of the
  generated module and the chunk store with one stored memory of eight bytes.\<close>

definition ex_gen :: generator where
  "ex_gen = createRegisterMapping (createTransitionGroups (generator_new inc_module False))"

definition ex_db :: "u64 \<times> tree_store" where
  "ex_db = insertB (ssgen_api (\<lambda>_. 0) 3) tree_store_new [1, 2, 3, 4, 5, 6, 7, 8]"

definition ex_env :: "tree_store env" where
  "ex_env = \<lparr>en_gen = ex_gen, en_dl = dmc_layout, en_api = ssgen_api (\<lambda>_. 0) 3, en_regs = 8,
     en_exec = (\<lambda>i xs. case xs of [a, b] \<Rightarrow> bytes_u32 (u32_of a + u32_of b) | _ \<Rightarrow> []),
     en_expr = (\<lambda>op t xs. concat xs), en_order = rev\<rparr>"

definition ex_process :: process where
  "ex_process = \<lparr>p_status = 0, p_tid = 0, p_pc = 0, p_msize = 8, p_stk = 0,
     p_r = [41, 0, 0, 0, 0, 0, 0, 0], p_m = fst ex_db\<rparr>"

definition ex_sv :: statevector where
  "ex_sv = \<lparr>sv_status = 3, sv_threadsStarted = 1, sv_tres = fst ex_db,
     sv_processes = replicate MAX_THREADS ex_process\<rparr>"

definition ex_ctx :: "tree_store gctx" where
  "ex_ctx = \<lparr>gc_thread = 0, gc_src = ex_sv, gc_svout = ex_sv, gc_store = snd ex_db\<rparr>"

lemma ex_groups:
  "createTransitionGroups (generator_new inc_module False) =
     (generator_new inc_module False)\<lparr>gn_programLocations := (\<lambda>_. 0)(11 := 1, 12 := 2),
       gn_nextProgramLocation := 3,
       gn_transitionGroups := [TGLambda ConstructorsGroup, TGLambda MainGroup]
         @ map (\<lambda>t. TGInstructions t inc_insts False) [0..<MAX_THREADS]\<rparr>"
  by (simp add: createTransitionGroups_def createDefaultTransitionGroups_def inc_module_def
      inc_func_def inc_insts_def generator_new_def addTransitionGroup_def createTransitionGroupsForFunction_def
      createTransitionGroupsForBasicBlock.simps createTransitionGroupsForInstruction_def
      isFrontCollapsableInstruction_def assignLocation_def upt_rec fun_eq_iff)

lemma ex_gen_simps [simp]:
  "gn_registerTypes ex_gen = (\<lambda>_. [])(''inc'' := [IntTy 32, IntTy 32])"
  "reg_index ex_gen ''inc'' (ArgReg 0) = Some 0" "reg_index ex_gen ''inc'' (InstReg 11) = Some 1"
  "gn_module ex_gen = inc_module" "gn_programLocations ex_gen = (\<lambda>_. 0)(11 := 1, 12 := 2)"
  unfolding ex_gen_def ex_groups
  by (simp_all add: createRegisterMapping_def createRegisterMappingForFunction_def
      generator_new_def inc_module_def inc_func_def inc_insts_def args_of_def regs_of_def f_insts_def
      newmap_def reg_index_def fun_eq_iff)

lemma ex_env_simps [simp]:
  "en_gen ex_env = ex_gen" "en_dl ex_env = dmc_layout" "en_regs ex_env = 8"
  "en_api ex_env = ssgen_api (\<lambda>_. 0) 3" "en_order ex_env = rev"
  by (simp_all add: ex_env_def)

lemma ex_ctx_simps [simp]:
  "gc_thread ex_ctx = 0" "gc_svout ex_ctx = ex_sv" "gc_src ex_ctx = ex_sv" "gc_store ex_ctx = snd ex_db"
  "length (sv_processes ex_sv) = 6" "t < 6 \<Longrightarrow> sv_processes ex_sv ! t = ex_process"
  by (simp_all add: ex_ctx_def ex_sv_def)

lemma dmc_inc_layout [simp]:
  "dl_bits dmc_layout [] = 0" "dl_bits dmc_layout [IntTy 32, IntTy 32] = 64"
  "dmc_elem [IntTy 32, IntTy 32] 0 = 0" "dmc_elem [IntTy 32, IntTy 32] (Suc 0) = 4"
  by (simp_all add: dmc_layout_def dmc_elem_def dmc_end_def round_up_def)

lemma ex_regs_fit [simp]: "regs_fit ex_env ex_ctx"
  by (simp add: regs_fit_def ex_process_def)

theorem store_result_vMap_witness:
  "\<exists>gc'. obind (vReg ex_env (InstV ''inc'' 11)) (\<lambda>(off, t). store_reg off [42, 0, 0, 0] ex_ctx) = Ok gc'
    \<and> vMap ex_env gc' (InstV ''inc'' 11) = Ok [42, 0, 0, 0]
    \<and> vMap ex_env gc' (ArgV ''inc'' 0) = vMap ex_env ex_ctx (ArgV ''inc'' 0)"
  using store_result_vMap [of ex_env ex_ctx "InstV ''inc'' 11" "''inc''" 1 "[42, 0, 0, 0]" "ArgV ''inc'' 0" 0]
  by (simp add: register_of_def)

text \<open>The store of the examples is a store of the contract with room and a stored memory.\<close>

lemma ex_store:
  "ssgen_inv 3 (snd ex_db)" "ssgen_room 3 (Suc 1000) (snd ex_db)"
  "ssgen_content 3 (snd ex_db) (fst ex_db) = Some [1, 2, 3, 4, 5, 6, 7, 8]" "fst ex_db \<noteq> 0"
proof -
  have new: "ssgen_inv 3 tree_store_new" "ssgen_room 3 (Suc (Suc 1000)) tree_store_new"
    by (simp_all add: ssgen_inv_def ssgen_room_def tree_store_new_def tree_store_inv_def tree_contents_def)
  show "ssgen_inv 3 (snd ex_db)" "ssgen_room 3 (Suc 1000) (snd ex_db)"
    "ssgen_content 3 (snd ex_db) (fst ex_db) = Some [1, 2, 3, 4, 5, 6, 7, 8]" "fst ex_db \<noteq> 0"
    unfolding ex_db_def using ssgen_insertB_laws [OF new] by blast+
qed

end
