(* ===== verification/SV_Tree.thy ===== *)
theory SV_Tree
  imports Register_File "HOL-Library.Sublist"
begin

text \<open>
  The description of the state vector: types (SVType.h), the tree of its variables (SVTree.h),
  the accessor that turns names and indices into a position (SVAccessor.h), the type manager
  (SVTypeManager.h) and the LTS type (LLVMLTSType.h, LLVMLTS.cpp), together with the part of
  \<open>generateTypes\<close> that builds them.  A tree is a value: the parent pointers are the path from
  the root, and the children of an array, one shared node, are equal.
\<close>

section \<open>Types\<close>

text \<open>\<open>DataLayout::getTypeSizeInBits\<close> and \<open>Type::isSized\<close>.\<close>

fun dmc_bits :: "ty \<Rightarrow> nat" where
  "dmc_bits (IntTy n) = n"
| "dmc_bits (FloatTy n) = n"
| "dmc_bits t = 8 * dmc_alloc t"

fun is_sized :: "ty \<Rightarrow> bool" where
  "is_sized (StructTy ts) \<longleftrightarrow> list_all is_sized ts"
| "is_sized (ArrayTy n t) \<longleftrightarrow> is_sized t"
| "is_sized VoidTy \<longleftrightarrow> False"
| "is_sized (FunTy r ps v) \<longleftrightarrow> False"
| "is_sized t \<longleftrightarrow> True"

text \<open>The index is the one \<open>finish\<close> assigns; it is not initialised before.\<close>

record svtype =
  st_name :: string
  st_index :: "nat option"
  st_real :: ty
  st_padded :: ty

definition svtype_new :: "string \<Rightarrow> ty \<Rightarrow> svtype outcome" where
  "svtype_new name llvmType =
     (let bytesNeeded = dmc_bits llvmType div 8 in
      if \<not> is_sized llvmType \<or> bytesNeeded = 0 then Fail Assertion
      else Ok \<lparr>st_name = name, st_index = None, st_real = llvmType,
        st_padded = (if bytesNeeded mod 4 \<noteq> 0 then ArrayTy ((bytesNeeded + 3) div 4) (IntTy 32) else llvmType)\<rparr>)"

definition svstruct_type :: "string \<Rightarrow> ty list \<Rightarrow> svtype" where
  "svstruct_type name types =
     \<lparr>st_name = name, st_index = None, st_real = StructTy types, st_padded = StructTy types\<rparr>"

definition svarray_type :: "string \<Rightarrow> svtype \<Rightarrow> nat \<Rightarrow> svtype" where
  "svarray_type name elementType count =
     \<lparr>st_name = name, st_index = None, st_real = ArrayTy count (st_padded elementType),
      st_padded = ArrayTy count (st_padded elementType)\<rparr>"

text \<open>The type manager starts with sixteen null pointers in its list of types.\<close>

definition type_manager_new :: "svtype option list" where
  "type_manager_new = replicate 16 None"

definition newType :: "string \<Rightarrow> ty \<Rightarrow> svtype option list \<Rightarrow> (svtype \<times> svtype option list) outcome" where
  "newType name t tm = obind (svtype_new name t) (\<lambda>st. Ok (st, tm @ [Some st]))"

definition newArrayType :: "string \<Rightarrow> svtype \<Rightarrow> nat \<Rightarrow> svtype option list \<Rightarrow> svtype \<times> svtype option list" where
  "newArrayType name elementType count tm = (let st = svarray_type name elementType count in (st, tm @ [Some st]))"

section \<open>The tree\<close>

datatype svtree =
  SVNode (sn_name: string) (sn_typeName: string) (sn_index: nat) (sn_type: "svtype option")
    (sn_isArray: bool) (sn_dynamic: "svtype option") (sn_children: "svtree list")

definition svtree_leaf :: "string \<Rightarrow> svtype option \<Rightarrow> svtree" where
  "svtree_leaf name type = SVNode name '''' 0 type False None []"

definition svtree_inner :: "string \<Rightarrow> string \<Rightarrow> svtype option \<Rightarrow> svtree outcome" where
  "svtree_inner name typeName type =
     (case map_option st_padded type of
        Some (StructTy (t # ts)) \<Rightarrow> Fail Assertion
      | _ \<Rightarrow> Ok (SVNode name typeName 0 type False None []))"

text \<open>
  A node computes its LLVM type from its children unless it has a type.  \<open>getType\<close> keeps the
  type it has made, so it also returns the changed node.
\<close>

fun getLLVMType :: "svtree \<Rightarrow> ty" where
  "getLLVMType (SVNode name tn i type a dyn cs) =
     (case type of Some t \<Rightarrow> st_padded t | None \<Rightarrow> StructTy (map getLLVMType cs))"

definition set_type :: "svtype \<Rightarrow> svtree \<Rightarrow> svtree list \<Rightarrow> svtree" where
  "set_type t n cs = SVNode (sn_name n) (sn_typeName n) (sn_index n) (Some t) (sn_isArray n) (sn_dynamic n) cs"

fun getType :: "svtree \<Rightarrow> (svtype \<times> svtree) outcome" where
  "getType (SVNode name tn i (Some t) a dyn cs) =
     (if \<not> a \<and> cs \<noteq> [] \<and> (case st_padded t of StructTy ts \<Rightarrow> length ts \<noteq> length cs | _ \<Rightarrow> False)
      then Fail Assertion else Ok (t, SVNode name tn i (Some t) a dyn cs))"
| "getType (SVNode name tn i None False dyn cs) =
     (let t = svstruct_type (name @ ''_struct'') (map getLLVMType cs)
      in Ok (t, SVNode name tn i (Some t) False dyn cs))"
| "getType (SVNode name tn i None True (Some d) cs) =
     (let t = svarray_type (name @ ''_array'') d 0 in Ok (t, SVNode name tn i (Some t) True (Some d) cs))"
| "getType (SVNode name tn i None True None []) = Fail BadAccess"
| "getType (SVNode name tn i None True None (c # cs)) =
     obind (getType c) (\<lambda>(e, c').
       let t = svarray_type (name @ ''_array'') e (Suc (length cs))
       in Ok (t, SVNode name tn i (Some t) True None (replicate (Suc (length cs)) c')))"

definition newStructType :: "string \<Rightarrow> svtree list \<Rightarrow> svtype option list \<Rightarrow> svtype \<times> svtype option list" where
  "newStructType name children tm =
     (let st = svstruct_type name (map getLLVMType children) in (st, tm @ [Some st]))"

text \<open>The two forms of \<open>newArray\<close>, and \<open>operator<<\<close>, whose check compares with the own name.\<close>

definition newArrayOfType :: "string \<Rightarrow> string \<Rightarrow> svtype \<Rightarrow> svtree" where
  "newArrayOfType name typeName type = SVNode name typeName 0 None True (Some type) []"

definition newArray :: "string \<Rightarrow> string \<Rightarrow> svtree \<Rightarrow> nat \<Rightarrow> bool \<Rightarrow> svtree outcome" where
  "newArray name typeName tree count dynamic =
     (if dynamic
      then obind (getType tree) (\<lambda>(t, tree'). Ok (SVNode name typeName 0 None True (Some t) (replicate count tree')))
      else Ok (SVNode name typeName 0 None True None (replicate count tree)))"

definition set_index :: "nat \<Rightarrow> svtree \<Rightarrow> svtree" where
  "set_index i t = SVNode (sn_name t) (sn_typeName t) i (sn_type t) (sn_isArray t) (sn_dynamic t) (sn_children t)"

definition add_child :: "svtree \<Rightarrow> svtree \<Rightarrow> svtree outcome" where
  "add_child n t =
     (if list_ex (\<lambda>c. sn_name c = sn_name n) (sn_children n) then Fail Assertion
      else Ok (SVNode (sn_name n) (sn_typeName n) (sn_index n) (sn_type n) (sn_isArray n) (sn_dynamic n)
        (sn_children n @ [set_index (length (sn_children n)) t])))"

fun add_children :: "svtree \<Rightarrow> svtree list \<Rightarrow> svtree outcome" where
  "add_children n [] = Ok n"
| "add_children n (t # ts) = obind (add_child n t) (\<lambda>n'. add_children n' ts)"

definition svtree_isEmpty :: "svtree \<Rightarrow> bool" where
  "svtree_isEmpty n \<longleftrightarrow> sn_children n = [] \<and> sn_type n = None"

fun executeLeaves :: "svtree \<Rightarrow> svtree list" where
  "executeLeaves (SVNode name tn i type a dyn []) = [SVNode name tn i type a dyn []]"
| "executeLeaves (SVNode name tn i type a dyn (c # cs)) = concat (map executeLeaves (c # cs))"

definition getSizeValue :: "svtree \<Rightarrow> u32" where
  "getSizeValue n = generateSizeOf dmc_layout (getLLVMType n)"

definition getSizeValueInSlots :: "svtree \<Rightarrow> u32" where
  "getSizeValueInSlots n = getSizeValue n div 4"

text \<open>
  \<open>verify\<close> asserts the indices of the children and gives every node a type, the children
  first; the result can only be true.
\<close>

fun svtree_verify :: "svtree \<Rightarrow> (bool \<times> svtree) outcome"
  and verify_children :: "bool \<Rightarrow> nat \<Rightarrow> svtree list \<Rightarrow> (bool \<times> svtree list) outcome" where
  "svtree_verify (SVNode name tn i type a dyn cs) =
     obind (verify_children a 0 cs) (\<lambda>(r, cs').
     obind (getType (SVNode name tn i type a dyn cs')) (\<lambda>(t, n). Ok (r, n)))"
| "verify_children a k [] = Ok (True, [])"
| "verify_children a k (c # cs) =
     (if \<not> a \<and> sn_index c \<noteq> k then Fail Assertion
      else obind (svtree_verify c) (\<lambda>(b, c').
        obind (verify_children a (Suc k) cs) (\<lambda>(r, cs'). Ok (b \<and> r, c' # cs'))))"

section \<open>The accessor\<close>

record accessor =
  ac_idx :: "nat list"
  ac_current :: svtree

definition accessor_new :: "svtree \<Rightarrow> accessor" where
  "accessor_new t = \<lparr>ac_idx = [], ac_current = t\<rparr>"

text \<open>
  The three forms of \<open>operator[]\<close>: by name, by a number known to the generator, and by a value
  of the generated code, here the number it has at run time.
\<close>

datatype key = Name string | At nat | Val u32

fun accessor_at :: "key \<Rightarrow> accessor \<Rightarrow> accessor outcome" where
  "accessor_at (Name n) a =
     (case find (\<lambda>c. sn_name c = n) (sn_children (ac_current a)) of
        None \<Rightarrow> Fail AbortCall
      | Some c \<Rightarrow> Ok \<lparr>ac_idx = ac_idx a @ [sn_index c], ac_current = c\<rparr>)"
| "accessor_at (At i) a =
     (if i < length (sn_children (ac_current a))
      then Ok \<lparr>ac_idx = ac_idx a @ [i], ac_current = sn_children (ac_current a) ! i\<rparr> else Fail BadAccess)"
| "accessor_at (Val v) a =
     (case sn_children (ac_current a) of
        [] \<Rightarrow> Fail BadAccess
      | c # cs \<Rightarrow> Ok \<lparr>ac_idx = ac_idx a @ [unat v], ac_current = c\<rparr>)"

fun access :: "key list \<Rightarrow> accessor \<Rightarrow> accessor outcome" where
  "access [] a = Ok a"
| "access (k # ks) a = obind (accessor_at k a) (access ks)"

text \<open>
  \<open>getValue\<close>: the indices of the origin and its ancestors, from the root down, and then the
  collected ones, as operands of a \<open>getelementptr\<close>.
\<close>

definition getValue_indices :: "svtree list \<Rightarrow> accessor \<Rightarrow> nat list" where
  "getValue_indices ancestors a = rev (map sn_index ancestors) @ ac_idx a"

text \<open>
  \<open>SVTree::getValue\<close> and \<open>getLoadedValue\<close> do the same for the node itself, given by the node and
  its ancestors, and assert that a root has the index 0.
\<close>

definition svtree_getValue :: "svtree list \<Rightarrow> nat list outcome" where
  "svtree_getValue ancestors =
     (case ancestors of
        [] \<Rightarrow> Fail BadAccess
      | n # parents \<Rightarrow>
          if parents = [] \<and> sn_index n \<noteq> 0 then Fail Assertion else Ok (rev (map sn_index ancestors)))"

lemma svtree_getValue_accessor:
  "svtree_getValue ancestors = Ok is \<Longrightarrow> getValue_indices ancestors (accessor_new t) = is"
  by (auto simp: svtree_getValue_def getValue_indices_def accessor_new_def split: list.splits if_splits)

fun gep_offset :: "ty \<Rightarrow> nat list \<Rightarrow> nat" where
  "gep_offset t [] = 0"
| "gep_offset t (i # is) = i * dmc_alloc t + dmc_field t is"

section \<open>The LTS type\<close>

record lts_type =
  lts_sv :: "svtree option"
  lts_labels :: "svtree option"
  lts_edgeLabels :: "svtree option"
  lts_types :: "svtype list"

definition lts_new :: lts_type where
  "lts_new = \<lparr>lts_sv = None, lts_labels = None, lts_edgeLabels = None, lts_types = []\<rparr>"

definition lts_set_sv :: "svtree \<Rightarrow> lts_type \<Rightarrow> lts_type outcome" where
  "lts_set_sv r l = (if lts_sv l \<noteq> None then Fail Assertion else Ok (l\<lparr>lts_sv := Some r\<rparr>))"

definition lts_set_labels :: "svtree \<Rightarrow> lts_type \<Rightarrow> lts_type outcome" where
  "lts_set_labels r l = (if lts_labels l \<noteq> None then Fail Assertion else Ok (l\<lparr>lts_labels := Some r\<rparr>))"

definition lts_set_edgeLabels :: "svtree \<Rightarrow> lts_type \<Rightarrow> lts_type outcome" where
  "lts_set_edgeLabels r l = (if lts_edgeLabels l \<noteq> None then Fail Assertion else Ok (l\<lparr>lts_edgeLabels := Some r\<rparr>))"

definition lts_add_type :: "svtype \<Rightarrow> lts_type \<Rightarrow> lts_type" where
  "lts_add_type t l = l\<lparr>lts_types := lts_types l @ [t]\<rparr>"

definition lts_add_node :: "svtree \<Rightarrow> lts_type \<Rightarrow> lts_type outcome" where
  "lts_add_node t l =
     (case lts_sv l of
        None \<Rightarrow> Fail BadAccess
      | Some sv \<Rightarrow> obind (add_child sv t) (\<lambda>sv'. Ok (l\<lparr>lts_sv := Some sv'\<rparr>)))"

definition lts_finish :: "lts_type \<Rightarrow> lts_type" where
  "lts_finish l = l\<lparr>lts_types := map (\<lambda>(n, t). t\<lparr>st_index := Some n\<rparr>) (enumerate 0 (lts_types l))\<rparr>"

definition verify_root :: "svtree option \<Rightarrow> (bool \<times> svtree option) outcome" where
  "verify_root r =
     (case r of None \<Rightarrow> Ok (True, None)
      | Some t \<Rightarrow> obind (svtree_verify t) (\<lambda>(b, t'). Ok (b, Some t')))"

definition lts_verify :: "lts_type \<Rightarrow> (bool \<times> lts_type) outcome" where
  "lts_verify l =
     obind (verify_root (lts_sv l)) (\<lambda>(b1, sv).
     obind (verify_root (lts_labels l)) (\<lambda>(b2, labels).
     obind (verify_root (lts_edgeLabels l)) (\<lambda>(b3, edges).
       Ok (b1 \<and> b2 \<and> b3, l\<lparr>lts_sv := sv, lts_labels := labels, lts_edgeLabels := edges\<rparr>))))"

definition lts_access :: "key list \<Rightarrow> lts_type \<Rightarrow> accessor outcome" where
  "lts_access ks l =
     (case lts_sv l of None \<Rightarrow> Fail BadAccess | Some sv \<Rightarrow> access ks (accessor_new sv))"

definition getRootType :: "lts_type \<Rightarrow> (svtype \<times> svtree) outcome" where
  "getRootType l = (case lts_sv l of None \<Rightarrow> Fail Assertion | Some sv \<Rightarrow> getType sv)"

end
