(* ===== verification/Tree_Positions.thy ===== *)
theory Tree_Positions
  imports SV_Tree
begin

text \<open>
  Verified trees are typed consistently, and in such a tree the positions of different variables
  never overlap.
\<close>

section \<open>Positions inside a type\<close>

text \<open>The type at the end of a list of indices, if the indices are in range.\<close>

fun at_path :: "ty \<Rightarrow> nat list \<Rightarrow> ty option" where
  "at_path t [] = Some t"
| "at_path (StructTy ts) (k # ks) = (if k < length ts then at_path (ts ! k) ks else None)"
| "at_path (ArrayTy n t) (k # ks) = (if k < n then at_path t ks else None)"
| "at_path t (k # ks) = None"

lemma element_inside: "k < length ts \<Longrightarrow> dmc_elem ts k + dmc_alloc (ts ! k) \<le> dmc_alloc (StructTy ts)"
proof -
  assume k: "k < length ts"
  then have "dmc_elem ts k + dmc_alloc (ts ! k) \<le> dmc_end ts"
    using dmc_end_step [of k ts] dmc_end_mono [of "Suc k" "length ts" ts] by simp
  also have "\<dots> \<le> dmc_alloc (StructTy ts)"
    using round_up_ge [OF dmc_align_pos [of "StructTy ts"], of "dmc_end ts"]
    by (simp add: dmc_end_def)
  finally show ?thesis .
qed

lemma element_before:
  "j < k \<Longrightarrow> k < length ts \<Longrightarrow> dmc_elem ts j + dmc_alloc (ts ! j) \<le> dmc_elem ts k"
proof -
  assume "j < k" and "k < length ts"
  then have "dmc_elem ts j + dmc_alloc (ts ! j) \<le> dmc_end (take k ts)"
    using dmc_end_step [of j ts] dmc_end_mono [of "Suc j" k ts] by simp
  also have "\<dots> \<le> dmc_elem ts k"
    unfolding dmc_elem_def by (rule round_up_ge [OF dmc_align_pos])
  finally show ?thesis .
qed

lemma at_path_inside: "at_path t ks = Some u \<Longrightarrow> dmc_field t ks + dmc_alloc u \<le> dmc_alloc t"
proof (induction t ks rule: at_path.induct)
  case (2 ts k ks)
  then have "dmc_field (ts ! k) ks + dmc_alloc u \<le> dmc_alloc (ts ! k)" and k: "k < length ts"
    by (simp_all split: if_splits)
  with element_inside [OF k] show ?case
    by (simp del: dmc_alloc.simps)
next
  case (3 n t k ks)
  then have f: "dmc_field t ks + dmc_alloc u \<le> dmc_alloc t" and k: "Suc k \<le> n"
    by (simp_all split: if_splits)
  have "k * dmc_alloc t + dmc_alloc t \<le> n * dmc_alloc t"
    using mult_le_mono1 [OF k, of "dmc_alloc t"] by simp
  with f show ?case by simp
qed simp_all

lemma at_path_before:
  assumes "at_path t (ps @ i # qs) = Some u" and "at_path t (ps @ j # rs) = Some v" and "i < j"
  shows "dmc_field t (ps @ i # qs) + dmc_alloc u \<le> dmc_field t (ps @ j # rs)"
  using assms(1,2)
proof (induction ps arbitrary: t)
  case Nil
  show ?case
  proof (cases t)
    case (StructTy ts)
    with Nil have ij: "i < length ts" "j < length ts" and u: "at_path (ts ! i) qs = Some u"
      by (simp_all split: if_splits)
    from at_path_inside [OF u] element_before [OF \<open>i < j\<close> ij(2)] StructTy ij show ?thesis by simp
  next
    case (ArrayTy n e)
    with Nil have u: "at_path e qs = Some u"
      by (simp split: if_splits)
    have "i * dmc_alloc e + dmc_alloc e \<le> j * dmc_alloc e"
      using mult_le_mono1 [of "Suc i" j "dmc_alloc e"] \<open>i < j\<close> by simp
    with at_path_inside [OF u] ArrayTy show ?thesis by simp
  qed (use Nil in simp_all)
next
  case (Cons p ps)
  then show ?case by (cases t) (auto split: if_splits)
qed

section \<open>Typed trees\<close>

text \<open>
  A tree as the constructors build it: leaves have types, inner nodes have none yet, and an
  array has one shared child.
\<close>

fun fresh :: "svtree \<Rightarrow> bool" where
  "fresh (SVNode n tn i t a d cs) \<longleftrightarrow>
     (if cs = [] then t \<noteq> None
      else t = None \<and> d = None \<and> list_all fresh cs \<and> (a \<longrightarrow> (\<forall>c \<in> set cs. c = hd cs)))"

text \<open>The type of a node is the one its children call for.\<close>

fun typed :: "svtree \<Rightarrow> bool" where
  "typed (SVNode n tn i t a d cs) \<longleftrightarrow>
     t \<noteq> None \<and> list_all typed cs \<and>
     (cs \<noteq> [] \<longrightarrow>
       (if a then (\<forall>c \<in> set cs. c = hd cs) \<and> st_padded (the t) = ArrayTy (length cs) (getLLVMType (hd cs))
        else st_padded (the t) = StructTy (map getLLVMType cs) \<and> map sn_index cs = [0..<length cs]))"

lemma typed_getType:
  "typed n \<Longrightarrow> getType n = Ok (t, n') \<Longrightarrow> n' = n \<and> getLLVMType n = st_padded t"
  by (cases n) (auto split: if_splits)

lemma verify_children_equal:
  "verify_children True k cs = Ok (r, cs') \<Longrightarrow> \<forall>c \<in> set cs. c = x \<Longrightarrow> cs \<noteq> [] \<Longrightarrow>
   \<exists>x' b. svtree_verify x = Ok (b, x') \<and> cs' = replicate (length cs) x'"
proof (induction cs arbitrary: k r cs')
  case (Cons c cs)
  then obtain b c' r' cs'' where c: "svtree_verify x = Ok (b, c')" and
    rest: "verify_children True (Suc k) cs = Ok (r', cs'')" and cs': "cs' = c' # cs''"
    by (auto simp: outcome_simps)
  show ?case
  proof (cases "cs = []")
    case True
    with c rest cs' show ?thesis by simp
  next
    case False
    have "\<forall>c \<in> set cs. c = x"
      using Cons.prems(2) by (simp only: list.set ball_simps) blast
    from Cons.IH [OF rest this False] obtain x' b' where
      "svtree_verify x = Ok (b', x')" "cs'' = replicate (length cs) x'"
      by blast
    with c cs' show ?thesis by simp
  qed
qed simp

text \<open>The node of an array, whose elements are all the same, with the type it gets.\<close>

lemma typed_array:
  assumes "getType (SVNode name tn i None True None (x # replicate m x)) = Ok (t, n)" and "typed x"
  shows "typed n \<and> sn_index n = i \<and> sn_name n = name"
proof -
  from assms(1) obtain e x' where "getType x = Ok (e, x')" and n: "t = svarray_type (name @ ''_array'') e (Suc m)"
    "n = SVNode name tn i (Some t) True None (replicate (Suc m) x')"
    by (auto simp: outcome_simps Let_def simp del: getType.simps(1))
  moreover from this have "x' = x" "getLLVMType x = st_padded e"
    using typed_getType assms(2) by blast+
  ultimately show ?thesis
    using assms(2) by (simp add: svarray_type_def list_all_iff)
qed

lemma verify_typed:
  "svtree_verify n = Ok (b, n') \<Longrightarrow> fresh n \<Longrightarrow> b \<and> typed n' \<and> sn_index n' = sn_index n \<and> sn_name n' = sn_name n"
  "verify_children a k cs = Ok (r, cs') \<Longrightarrow> list_all fresh cs \<Longrightarrow>
     r \<and> list_all typed cs' \<and> length cs' = length cs \<and> map sn_index cs' = map sn_index cs
     \<and> (\<not> a \<longrightarrow> map sn_index cs = [k..<k + length cs])"
proof (induction n and a k cs arbitrary: b n' and r cs' rule: svtree_verify_verify_children.induct)
  case (1 name tn i type a dyn cs)
  then obtain r cs' t where c: "verify_children a 0 cs = Ok (r, cs')"
    and g: "getType (SVNode name tn i type a dyn cs') = Ok (t, n')" and "b = r"
    by (auto simp: outcome_simps)
  show ?case
  proof (cases "cs = []")
    case True
    with c g 1(3) \<open>b = r\<close> show ?thesis by auto
  next
    case False
    with 1(3) have f: "list_all fresh cs" "type = None" "dyn = None" "a \<longrightarrow> (\<forall>c \<in> set cs. c = hd cs)"
      by auto
    from 1(1) [OF c f(1)] have IH: "r" "list_all typed cs'" "length cs' = length cs"
      "map sn_index cs' = map sn_index cs" "\<not> a \<longrightarrow> map sn_index cs = [0..<length cs]"
      by simp_all
    show ?thesis
    proof (cases a)
      case True
      obtain m where m: "length cs = Suc m"
        using \<open>cs \<noteq> []\<close> by (cases cs) simp_all
      have "verify_children True 0 cs = Ok (r, cs')" "\<forall>c \<in> set cs. c = hd cs"
        using c f(4) True by simp_all
      from verify_children_equal [OF this \<open>cs \<noteq> []\<close>] m obtain x where x: "cs' = x # replicate m x"
        by auto
      have "getType (SVNode name tn i None True None (x # replicate m x)) = Ok (t, n')"
        using g f(2,3) True x by simp
      with typed_array [OF this] IH(1,2) x \<open>b = r\<close> show ?thesis by simp
    next
      case False
      with g f(2) have "n' = SVNode name tn i (Some (svstruct_type (name @ ''_struct'') (map getLLVMType cs'))) False dyn cs'"
        by (auto simp: Let_def)
      with IH False \<open>b = r\<close> show ?thesis
        by (simp add: svstruct_type_def)
    qed
  qed
next
  case (2 a k)
  then show ?case by simp
next
  case (3 a k c cs)
  from 3(3) obtain b c' r' cs'' where ok: "\<not> (\<not> a \<and> sn_index c \<noteq> k)" and c: "svtree_verify c = Ok (b, c')"
    and cs: "verify_children a (Suc k) cs = Ok (r', cs'')" and eq: "r = (b \<and> r')" "cs' = c' # cs''"
    by (auto simp: outcome_simps split: if_splits)
  from 3(4) have f: "fresh c" "list_all fresh cs" by simp_all
  from 3(1) [OF ok c f(1)] 3(2) [OF ok c refl cs f(2)] ok eq show ?case
    by (auto simp: upt_rec [of k])
qed

section \<open>Access paths\<close>

text \<open>The node at a list of indices.\<close>

fun node_at :: "svtree \<Rightarrow> nat list \<Rightarrow> svtree option" where
  "node_at n [] = Some n"
| "node_at n (k # ks) = (if k < length (sn_children n) then node_at (sn_children n ! k) ks else None)"

lemma node_at_append: "node_at n (ks @ ls) = Option.bind (node_at n ks) (\<lambda>m. node_at m ls)"
  by (induction ks arbitrary: n) simp_all

text \<open>Values of the generated code are only used to select an element of an array.\<close>

fun values_select :: "key list \<Rightarrow> accessor \<Rightarrow> bool" where
  "values_select [] a \<longleftrightarrow> True"
| "values_select (k # ks) a \<longleftrightarrow>
     (case k of Val v \<Rightarrow> sn_isArray (ac_current a) | _ \<Rightarrow> True)
     \<and> (case accessor_at k a of Ok a' \<Rightarrow> values_select ks a' | _ \<Rightarrow> True)"

lemma typed_child:
  assumes "typed n" and "k < length (sn_children n)"
  shows "typed (sn_children n ! k)"
  using assms by (cases n) (simp add: list_all_iff split: if_splits)

lemma typed_type_of_child:
  assumes "typed n" and "sn_children n \<noteq> []"
  shows "at_path (getLLVMType n) (k # ks) =
    (if k < length (sn_children n) then at_path (getLLVMType (sn_children n ! k)) ks else None)"
proof (cases n)
  case (SVNode nm tn i t a d cs)
  show ?thesis
  proof (cases a)
    case True
    have eq: "cs ! k = hd cs" if "k < length cs"
      using assms SVNode True that by (simp add: list_all_iff)
    show ?thesis
    proof (cases "k < length cs")
      case True
      have "at_path (getLLVMType n) (k # ks) = at_path (getLLVMType (hd cs)) ks"
        using assms SVNode \<open>a\<close> True by (auto split: option.splits)
      with True SVNode show ?thesis by (simp add: eq [OF True])
    next
      case False
      with assms SVNode \<open>a\<close> show ?thesis by (auto split: option.splits)
    qed
  next
    case False
    with assms SVNode show ?thesis by (auto split: option.splits)
  qed
qed

lemma accessor_step:
  assumes "typed (ac_current a)" and "accessor_at k a = Ok a'"
    and "case k of Val v \<Rightarrow> sn_isArray (ac_current a) | _ \<Rightarrow> True"
  obtains i where "ac_idx a' = ac_idx a @ [i]" and "sn_children (ac_current a) \<noteq> []"
    and "i < length (sn_children (ac_current a)) \<Longrightarrow> ac_current a' = sn_children (ac_current a) ! i"
proof (cases "ac_current a")
  case (SVNode nm tn j t arr d cs)
  have same: "c = cs ! i" if "arr" "i < length cs" "c \<in> set cs" for c i
    using assms(1) SVNode that by (metis list.size(3) nth_mem not_less_zero svtree.sel typed.simps)
  have own: "cs ! sn_index c = c" if "\<not> arr" "c \<in> set cs" for c
  proof -
    have "map sn_index cs = [0..<length cs]"
      using assms(1) SVNode that by (auto split: if_splits)
    moreover from that obtain m where "m < length cs" "cs ! m = c"
      by (auto simp: in_set_conv_nth)
    ultimately show ?thesis
      by (metis add_0 nth_map nth_upt)
  qed
  show thesis
  proof (cases k)
    case (Name s)
    with assms(2) SVNode obtain c where c: "find (\<lambda>c. sn_name c = s) cs = Some c"
      and a': "a' = \<lparr>ac_idx = ac_idx a @ [sn_index c], ac_current = c\<rparr>"
      by (auto split: option.splits)
    from c have "c \<in> set cs"
      by (auto simp: find_Some_iff)
    moreover from this have "c = cs ! sn_index c" if "sn_index c < length cs"
      using same [OF _ that] own by (cases arr) auto
    ultimately show thesis
      using a' SVNode by (intro that [of "sn_index c"]) auto
  next
    case (At i)
    with assms(2) SVNode show thesis
      by (intro that [of i]) (auto split: if_splits)
  next
    case (Val v)
    with assms(2,3) SVNode same show thesis
      by (intro that [of "unat v"]) (auto split: list.splits)
  qed
qed

lemma access_node_at:
  assumes "typed (ac_current a)" and "access ks a = Ok b" and "values_select ks a"
  shows "\<exists>is. ac_idx b = ac_idx a @ is \<and> (at_path (getLLVMType (ac_current a)) is \<noteq> None \<longrightarrow>
      at_path (getLLVMType (ac_current a)) is = Some (getLLVMType (ac_current b))
      \<and> node_at (ac_current a) is = Some (ac_current b))"
  using assms
proof (induction ks arbitrary: a)
  case Nil
  then show ?case by simp
next
  case (Cons k ks)
  then obtain a' where s: "accessor_at k a = Ok a'" and r: "access ks a' = Ok b"
    by (auto simp: outcome_simps)
  with Cons.prems have v: "case k of Val v \<Rightarrow> sn_isArray (ac_current a) | _ \<Rightarrow> True" "values_select ks a'"
    by auto
  from accessor_step [OF Cons.prems(1) s v(1)] obtain i where i: "ac_idx a' = ac_idx a @ [i]"
    "sn_children (ac_current a) \<noteq> []"
    "i < length (sn_children (ac_current a)) \<Longrightarrow> ac_current a' = sn_children (ac_current a) ! i"
    by metis
  show ?case
  proof (cases "i < length (sn_children (ac_current a))")
    case True
    with i(3) typed_child [OF Cons.prems(1)] have "typed (ac_current a')" by simp
    from Cons.IH [OF this r v(2)] obtain "is" where "ac_idx b = ac_idx a' @ is"
      "at_path (getLLVMType (ac_current a')) is \<noteq> None \<longrightarrow>
        at_path (getLLVMType (ac_current a')) is = Some (getLLVMType (ac_current b))
        \<and> node_at (ac_current a') is = Some (ac_current b)" by blast
    with True i typed_type_of_child [OF Cons.prems(1) i(2)] show ?thesis
      by (intro exI [of _ "i # is"]) simp
  next
    case False
    then have none: "at_path (getLLVMType (ac_current a)) (i # is) = None" for "is"
      by (simp add: typed_type_of_child [OF Cons.prems(1) i(2)])
    have "\<exists>is. ac_idx b = ac_idx a' @ is"
      using r
    proof (induction ks arbitrary: a')
      case (Cons k ks)
      then obtain a'' where 1: "accessor_at k a' = Ok a''" and 2: "access ks a'' = Ok b"
        by (auto simp: outcome_simps)
      from 1 have "\<exists>j. ac_idx a'' = ac_idx a' @ [j]"
        by (cases k) (auto split: option.splits if_splits list.splits)
      with Cons.IH [OF 2] show ?case by auto
    qed simp
    with i(1) none show ?thesis by fastforce
  qed
qed

text \<open>The bytes of the variable an accessor stands for, in the state vector of the type.\<close>

definition variable_range :: "ty \<Rightarrow> accessor \<Rightarrow> nat set" where
  "variable_range t a = {gep_offset t (0 # ac_idx a)..<
     gep_offset t (0 # ac_idx a) + dmc_alloc (getLLVMType (ac_current a))}"

text \<open>
  C9: two different variables of a state vector never share a byte.  In a tree built by the
  constructors and accepted by \<open>verify\<close>, two access paths that lead to leaves by different
  indices denote ranges that lie inside the state vector and do not overlap, where values of
  the generated code select elements of arrays and stay below their lengths.
\<close>

theorem variables_disjoint:
  assumes "fresh sv" and "svtree_verify sv = Ok (r, sv')"
    and "access ks (accessor_new sv') = Ok a" and "values_select ks (accessor_new sv')"
    and "access ls (accessor_new sv') = Ok b" and "values_select ls (accessor_new sv')"
    and "sn_children (ac_current a) = []" and "sn_children (ac_current b) = []"
    and "at_path (getLLVMType sv') (ac_idx a) \<noteq> None" and "at_path (getLLVMType sv') (ac_idx b) \<noteq> None"
    and "ac_idx a \<noteq> ac_idx b"
  shows "variable_range (getLLVMType sv') a \<inter> variable_range (getLLVMType sv') b = {} \<and> variable_range (getLLVMType sv') a \<union> variable_range (getLLVMType sv') b \<subseteq> {0..<dmc_alloc (getLLVMType sv')}"
proof -
  have t: "typed sv'"
    using verify_typed(1) [OF assms(2,1)] by simp
  have at: "at_path (getLLVMType sv') (ac_idx x) = Some (getLLVMType (ac_current x))
      \<and> node_at sv' (ac_idx x) = Some (ac_current x)"
    if "access ks (accessor_new sv') = Ok x" "values_select ks (accessor_new sv')"
      "at_path (getLLVMType sv') (ac_idx x) \<noteq> None" for ks x
    using access_node_at [OF _ that(1,2)] t that(3) by (auto simp: accessor_new_def)
  note a = at [OF assms(3,4,9)] and b = at [OF assms(5,6,10)]
  have leaf: "\<not> strict_prefix (ac_idx x) (ac_idx y)"
    if "node_at sv' (ac_idx x) = Some n" "sn_children n = []" "node_at sv' (ac_idx y) \<noteq> None" for x y n
  proof
    assume "strict_prefix (ac_idx x) (ac_idx y)"
    then obtain j js where "ac_idx y = ac_idx x @ j # js"
      by (rule strict_prefixE')
    with that show False by (simp add: node_at_append)
  qed
  have "ac_idx a \<parallel> ac_idx b"
    using leaf [of a _ b] leaf [of b _ a] a b assms(7,8,11) by (auto simp: prefix_order.less_le)
  then obtain ps i qs j rs where p: "i \<noteq> j" "ac_idx a = ps @ i # qs" "ac_idx b = ps @ j # rs"
    using parallel_decomp by metis
  have "variable_range (getLLVMType sv') a \<inter> variable_range (getLLVMType sv') b = {}"
  proof (cases "i < j")
    case True
    from at_path_before [OF _ _ True, of "getLLVMType sv'" ps qs _ rs] a b p
    show ?thesis by (fastforce simp: variable_range_def)
  next
    case False
    with p(1) have "j < i" by simp
    from at_path_before [OF _ _ this, of "getLLVMType sv'" ps rs _ qs] a b p
    show ?thesis by (fastforce simp: variable_range_def)
  qed
  moreover have "variable_range (getLLVMType sv') a \<union> variable_range (getLLVMType sv') b \<subseteq> {0..<dmc_alloc (getLLVMType sv')}"
    using at_path_inside [of "getLLVMType sv'" "ac_idx a"] at_path_inside [of "getLLVMType sv'" "ac_idx b"] a b
    by (fastforce simp: variable_range_def)
  ultimately show ?thesis by blast
qed

end
