(* ===== verification/State_Layout.thy ===== *)
theory State_Layout
  imports Tree_Positions
begin

text \<open>
  The types \<open>generateTypes\<close> builds for a number of register slots, the invariant of verified
  trees, and what accessors denote: positions that do not overlap, and, for the tree of the
  generator, the positions at which the state vector of the model has its components.
\<close>

section \<open>The types of the generated model\<close>

record model_types =
  mt_lts :: lts_type
  mt_types :: "svtype option list"
  mt_threadresults_element :: svtype
  mt_statevector :: ty
  mt_edgeLabels :: ty
  mt_statevector_size :: u32

text \<open>The element of the list of thread results: a status and the returned pointer.\<close>

definition svroot :: "string \<Rightarrow> svtree" where
  "svroot name = SVNode name '''' 0 None False None []"

definition threadresults_element ::
  "svtype option list \<Rightarrow> (svtype \<times> svtree \<times> svtype option list) outcome" where
  "threadresults_element tm =
     obind (newType ''status'' (IntTy 64) tm) (\<lambda>(sType, tm).
     obind (newType ''value'' (PtrTy (IntTy 8)) tm) (\<lambda>(vType, tm).
     obind (add_children (svroot ''tres_element'')
       [svtree_leaf ''status'' (Some sType), svtree_leaf ''value'' (Some vType)]) (\<lambda>root.
     obind (getType root) (\<lambda>(t, root). Ok (t, root, tm)))))"

definition generateTypes :: "nat \<Rightarrow> model_types outcome" where
  "generateTypes slots =
     obind (newType ''status'' (IntTy 32) type_manager_new) (\<lambda>(type_status, tm).
     obind (newType ''pc'' (IntTy 32) tm) (\<lambda>(type_pc, tm).
     obind (newType ''tid'' (IntTy 32) tm) (\<lambda>(type_tid, tm).
     obind (newType ''threadresults'' (IntTy 64) tm) (\<lambda>(type_threadresults, tm).
     obind (newType ''stack'' (IntTy 64) tm) (\<lambda>(type_stack, tm).
     obind (newType ''rframe'' (IntTy 64) tm) (\<lambda>(type_register_frame, tm).
     obind (newType ''register'' (ArrayTy slots (IntTy 32)) tm) (\<lambda>(type_registers, tm).
     obind (newType ''memory'' (IntTy 64) tm) (\<lambda>(type_memory, tm).
     obind (newType ''msize'' (IntTy 32) tm) (\<lambda>(type_size, tm).
     obind (newType ''action'' (IntTy 64) tm) (\<lambda>(type_action, tm).
     let lts = fold lts_add_type [type_status, type_tid, type_threadresults, type_pc, type_stack,
           type_register_frame, type_registers, type_memory, type_size, type_action] lts_new in
     obind (threadresults_element tm) (\<lambda>(type_threadresults_element, root_element, tm).
     obind (svtree_inner ''proc'' ''process'' None) (\<lambda>sv_proc.
     obind (add_children sv_proc
       [svtree_leaf ''status'' (Some type_status), svtree_leaf ''tid'' (Some type_tid),
        svtree_leaf ''pc'' (Some type_pc), svtree_leaf ''msize'' (Some type_size),
        svtree_leaf ''stk'' (Some type_stack), svtree_leaf ''r'' (Some type_registers),
        svtree_leaf ''m'' (Some type_memory)]) (\<lambda>sv_proc.
     obind (newArray ''processes'' ''processes'' sv_proc MAX_THREADS False) (\<lambda>sv_processes.
     obind (add_children (svroot ''type_sv'')
       [svtree_leaf ''status'' (Some type_status), svtree_leaf ''threadsStarted'' (Some type_tid),
        svtree_leaf ''tres'' (Some type_threadresults), sv_processes]) (\<lambda>sv.
     obind (add_children (svroot ''type_edgelabels'') [svtree_leaf ''action'' (Some type_action)]) (\<lambda>edges.
     obind (lts_set_sv sv lts) (\<lambda>lts.
     obind (lts_set_edgeLabels edges lts) (\<lambda>lts.
     obind (lts_verify (lts_finish lts)) (\<lambda>(ok, lts).
       let t_statevector = (case lts_sv lts of Some sv \<Rightarrow> getLLVMType sv | None \<Rightarrow> VoidTy);
           t_edgeLabels = (case lts_edgeLabels lts of Some e \<Rightarrow> getLLVMType e | None \<Rightarrow> VoidTy)
       in Ok \<lparr>mt_lts = lts, mt_types = tm, mt_threadresults_element = type_threadresults_element,
            mt_statevector = t_statevector, mt_edgeLabels = t_edgeLabels,
            mt_statevector_size = generateAlignedSizeOf dmc_layout t_statevector\<rparr>)))))))))))))))))))"

section \<open>The types it yields\<close>

definition proc_ty :: "nat \<Rightarrow> ty" where
  "proc_ty slots = StructTy [IntTy 32, IntTy 32, IntTy 32, IntTy 32, IntTy 64, ArrayTy slots (IntTy 32), IntTy 64]"

definition sv_ty :: "nat \<Rightarrow> ty" where
  "sv_ty slots = StructTy [IntTy 32, IntTy 32, IntTy 64, ArrayTy MAX_THREADS (proc_ty slots)]"

definition plain :: "string \<Rightarrow> ty \<Rightarrow> svtype" where
  "plain n t = \<lparr>st_name = n, st_index = None, st_real = t, st_padded = t\<rparr>"

lemma plain_simps [simp]: "st_padded (plain n t) = t" "st_real (plain n t) = t"
  by (simp_all add: plain_def)

lemma newType_plain:
  "is_sized t \<Longrightarrow> dmc_bits t div 8 \<noteq> 0 \<Longrightarrow> (dmc_bits t div 8) mod 4 = 0 \<Longrightarrow>
   newType n t tm = Ok (plain n t, tm @ [Some (plain n t)])"
  by (simp add: newType_def svtype_new_def plain_def)

lemma newType_registers:
  assumes "0 < slots"
  shows "newType n (ArrayTy slots (IntTy 32)) tm
    = Ok (plain n (ArrayTy slots (IntTy 32)), tm @ [Some (plain n (ArrayTy slots (IntTy 32)))])"
proof -
  have a: "dmc_alloc (IntTy 32) = 4"
    by (simp add: round_up_def)
  have "dmc_bits (ArrayTy slots (IntTy 32)) = 8 * (slots * 4)"
    by (simp add: a del: dmc_alloc.simps(2))
  then have "dmc_bits (ArrayTy slots (IntTy 32)) div 8 = slots * 4"
    by (simp del: dmc_bits.simps)
  with assms show ?thesis
    by (intro newType_plain) (simp_all del: dmc_bits.simps)
qed

text \<open>The nodes of the tree, without and with the types \<open>verify\<close> adds.\<close>

definition var :: "string \<Rightarrow> nat \<Rightarrow> string \<Rightarrow> ty \<Rightarrow> svtree" where
  "var n i tn t = SVNode n '''' i (Some (plain tn t)) False None []"

definition proc_node :: "nat \<Rightarrow> svtype option \<Rightarrow> svtree" where
  "proc_node slots t = SVNode ''proc'' ''process'' 0 t False None
     [var ''status'' 0 ''status'' (IntTy 32), var ''tid'' 1 ''tid'' (IntTy 32), var ''pc'' 2 ''pc'' (IntTy 32),
      var ''msize'' 3 ''msize'' (IntTy 32), var ''stk'' 4 ''stack'' (IntTy 64),
      var ''r'' 5 ''register'' (ArrayTy slots (IntTy 32)), var ''m'' 6 ''memory'' (IntTy 64)]"

definition procs_node :: "nat \<Rightarrow> nat \<Rightarrow> svtype option \<Rightarrow> svtype option \<Rightarrow> svtree" where
  "procs_node slots i t tp = SVNode ''processes'' ''processes'' i t True None (replicate MAX_THREADS (proc_node slots tp))"

definition sv_node :: "nat \<Rightarrow> svtype option \<Rightarrow> svtype option \<Rightarrow> svtype option \<Rightarrow> svtree" where
  "sv_node slots t ta tp = SVNode ''type_sv'' '''' 0 t False None
     [var ''status'' 0 ''status'' (IntTy 32), var ''threadsStarted'' 1 ''tid'' (IntTy 32),
      var ''tres'' 2 ''threadresults'' (IntTy 64), procs_node slots 3 ta tp]"

definition edges_node :: "svtype option \<Rightarrow> svtree" where
  "edges_node t = SVNode ''type_edgelabels'' '''' 0 t False None [var ''action'' 0 ''action'' (IntTy 64)]"

definition tres_node :: svtree where
  "tres_node = SVNode ''tres_element'' '''' 0 (Some (plain ''tres_element_struct'' (StructTy [IntTy 64, PtrTy (IntTy 8)])))
     False None [var ''status'' 0 ''status'' (IntTy 64), var ''value'' 1 ''value'' (PtrTy (IntTy 8))]"

abbreviation "proc_type slots \<equiv> plain ''proc_struct'' (proc_ty slots)"
abbreviation "procs_type slots \<equiv> plain ''processes_array'' (ArrayTy MAX_THREADS (proc_ty slots))"
abbreviation "sv_type slots \<equiv> plain ''type_sv_struct'' (sv_ty slots)"
abbreviation "edges_type \<equiv> plain ''type_edgelabels_struct'' (StructTy [IntTy 64])"

abbreviation typed_sv :: "nat \<Rightarrow> svtree" where
  "typed_sv slots \<equiv> sv_node slots (Some (sv_type slots)) (Some (procs_type slots)) (Some (proc_type slots))"

lemma build_nodes:
  "add_children (SVNode ''proc'' ''process'' 0 None False None [])
     [svtree_leaf ''status'' (Some (plain ''status'' (IntTy 32))), svtree_leaf ''tid'' (Some (plain ''tid'' (IntTy 32))),
      svtree_leaf ''pc'' (Some (plain ''pc'' (IntTy 32))), svtree_leaf ''msize'' (Some (plain ''msize'' (IntTy 32))),
      svtree_leaf ''stk'' (Some (plain ''stack'' (IntTy 64))),
      svtree_leaf ''r'' (Some (plain ''register'' (ArrayTy slots (IntTy 32)))),
      svtree_leaf ''m'' (Some (plain ''memory'' (IntTy 64)))] = Ok (proc_node slots None)"
  "add_children (svroot ''type_sv'')
     [svtree_leaf ''status'' (Some (plain ''status'' (IntTy 32))),
      svtree_leaf ''threadsStarted'' (Some (plain ''tid'' (IntTy 32))),
      svtree_leaf ''tres'' (Some (plain ''threadresults'' (IntTy 64))), procs_node slots 0 None None]
    = Ok (sv_node slots None None None)"
  "add_children (svroot ''type_edgelabels'') [svtree_leaf ''action'' (Some (plain ''action'' (IntTy 64)))]
    = Ok (edges_node None)"
  by (simp_all add: add_child_def svtree_leaf_def set_index_def svroot_def proc_node_def sv_node_def
      procs_node_def edges_node_def var_def)

lemma verify_var [simp]: "svtree_verify (var n i tn t) = Ok (True, var n i tn t)" "sn_index (var n i tn t) = i"
  "getLLVMType (var n i tn t) = t"
  by (simp_all add: var_def)

lemma verify_proc: "svtree_verify (proc_node slots None) = Ok (True, proc_node slots (Some (proc_type slots)))"
  by (simp add: proc_node_def svstruct_type_def plain_def proc_ty_def Let_def)

lemma verify_replicate:
  "svtree_verify c = Ok (True, c') \<Longrightarrow> verify_children True k (replicate n c) = Ok (True, replicate n c')"
  by (induction n arbitrary: k) simp_all

lemma verify_procs:
  "svtree_verify (procs_node slots i None None) = Ok (True, procs_node slots i (Some (procs_type slots)) (Some (proc_type slots)))"
proof -
  let ?p = "proc_node slots (Some (proc_type slots))"
  have "getType ?p = Ok (proc_type slots, ?p)"
    by (simp add: proc_node_def proc_ty_def)
  moreover have "replicate MAX_THREADS ?p = ?p # replicate 5 ?p"
    by (simp add: numeral_eq_Suc)
  ultimately show ?thesis
    using verify_replicate [OF verify_proc, of 0 6 slots]
    by (simp add: procs_node_def svarray_type_def plain_def Let_def)
qed

lemma verify_sv: "svtree_verify (sv_node slots None None None) = Ok (True, typed_sv slots)"
proof -
  have "sn_index (procs_node slots 3 t tp) = 3" for t tp
    by (simp add: procs_node_def)
  moreover have "getLLVMType (procs_node slots 3 (Some (procs_type slots)) tp) = ArrayTy MAX_THREADS (proc_ty slots)" for tp
    by (simp add: procs_node_def)
  ultimately show ?thesis
    using verify_procs [of slots 3] by (simp add: sv_node_def svstruct_type_def plain_def sv_ty_def Let_def)
qed

lemma verify_edges: "svtree_verify (edges_node None) = Ok (True, edges_node (Some edges_type))"
  by (simp add: edges_node_def svstruct_type_def plain_def Let_def)

lemma generateTypes_eq:
  assumes "0 < slots"
  obtains mt where "generateTypes slots = Ok mt" and "lts_sv (mt_lts mt) = Some (typed_sv slots)"
    and "mt_statevector mt = sv_ty slots" and "mt_statevector_size mt = generateAlignedSizeOf dmc_layout (sv_ty slots)"
    and "st_padded (mt_threadresults_element mt) = StructTy [IntTy 64, PtrTy (IntTy 8)]"
proof -
  have element: "threadresults_element tm
      = Ok (plain ''tres_element_struct'' (StructTy [IntTy 64, PtrTy (IntTy 8)]), tres_node,
          tm @ [Some (plain ''status'' (IntTy 64)), Some (plain ''value'' (PtrTy (IntTy 8)))])" for tm
    by (simp add: threadresults_element_def newType_plain svroot_def svtree_leaf_def add_child_def set_index_def
        svstruct_type_def plain_def Let_def tres_node_def var_def)
  have arr: "newArray ''processes'' ''processes'' (proc_node slots None) MAX_THREADS False
    = Ok (procs_node slots 0 None None)"
    by (simp add: newArray_def procs_node_def)
  have sv: "getLLVMType (typed_sv slots) = sv_ty slots" "getLLVMType (edges_node (Some edges_type)) = StructTy [IntTy 64]"
    by (simp_all add: sv_node_def edges_node_def)
  have "\<exists>mt. generateTypes slots = Ok mt \<and> lts_sv (mt_lts mt) = Some (typed_sv slots)
    \<and> mt_statevector mt = sv_ty slots \<and> mt_statevector_size mt = generateAlignedSizeOf dmc_layout (sv_ty slots)
    \<and> st_padded (mt_threadresults_element mt) = StructTy [IntTy 64, PtrTy (IntTy 8)]"
    by (simp add: generateTypes_def newType_plain newType_registers [OF assms] svtree_inner_def element Let_def
        build_nodes arr lts_set_sv_def lts_set_edgeLabels_def lts_new_def lts_add_type_def lts_finish_def
        lts_verify_def verify_root_def verify_sv verify_edges sv del: add_children.simps svtree_verify.simps)
  with that show thesis by blast
qed

lemma generateTypes_slots: "generateTypes slots = Ok mt \<Longrightarrow> 0 < slots"
proof (rule ccontr)
  assume "generateTypes slots = Ok mt" and "\<not> 0 < slots"
  then show False
    by (simp add: generateTypes_def newType_plain) (simp add: newType_def svtype_new_def)
qed

section \<open>Where the state vector has its components\<close>

text \<open>The position an access path denotes in the state vector, in bytes.\<close>

definition lts_offset :: "key list \<Rightarrow> model_types \<Rightarrow> nat outcome" where
  "lts_offset ks mt =
     obind (lts_access ks (mt_lts mt)) (\<lambda>a.
       case lts_sv (mt_lts mt) of
         None \<Rightarrow> Fail BadAccess
       | Some root \<Rightarrow> Ok (gep_offset (mt_statevector mt) (getValue_indices [root] a)))"

text \<open>The components of the records by the names the generator uses.\<close>

definition process_fields :: "(string \<times> (process \<Rightarrow> bytes)) list" where
  "process_fields =
     [(''status'', \<lambda>p. bytes_u32 (p_status p)), (''tid'', \<lambda>p. bytes_u32 (p_tid p)),
      (''pc'', \<lambda>p. bytes_u32 (p_pc p)), (''msize'', \<lambda>p. bytes_u32 (p_msize p)),
      (''stk'', \<lambda>p. bytes_u64 (p_stk p)), (''r'', p_r), (''m'', \<lambda>p. bytes_u64 (p_m p))]"

definition statevector_fields :: "(string \<times> (statevector \<Rightarrow> bytes)) list" where
  "statevector_fields =
     [(''status'', \<lambda>sv. bytes_u32 (sv_status sv)),
      (''threadsStarted'', \<lambda>sv. bytes_u32 (sv_threadsStarted sv)),
      (''tres'', \<lambda>sv. bytes_u64 (sv_tres sv))]"

abbreviation reg_space :: "nat \<Rightarrow> nat" where
  "reg_space slots \<equiv> 4 * slots + (8 - 4 * slots mod 8) mod 8"

lemma round_up_add: "0 < a \<Longrightarrow> round_up a (a * k + n) = a * k + round_up a n"
proof -
  assume a: "0 < a"
  have "(a * k + n + (a - 1)) div a = k + (n + (a - 1)) div a"
    using div_mult_self2 [of a "n + (a - 1)" k] a by (simp only: add.commute add.left_commute)
  then show ?thesis
    by (simp only: round_up_def distrib_right mult.commute [of k a])
qed

lemma round_up_8: "round_up 8 n = n + (8 - n mod 8) mod 8"
proof -
  have n: "n = 8 * (n div 8) + n mod 8" by simp
  have "round_up 8 (n mod 8) = n mod 8 + (8 - n mod 8) mod 8"
  proof (cases "n mod 8 = 0")
    case False
    then have "(n mod 8 + 7) div 8 = 1" by (intro div_nat_eqI) simp_all
    with False show ?thesis by (simp add: round_up_def)
  qed (simp add: round_up_def)
  with round_up_add [of 8 "n div 8" "n mod 8"] show ?thesis by simp
qed

lemma proc_layout:
  "map (dmc_elem [IntTy 32, IntTy 32, IntTy 32, IntTy 32, IntTy 64, ArrayTy slots (IntTy 32), IntTy 64]) [0..<7]
    = [0, 4, 8, 12, 16, 24, 24 + reg_space slots]"
  "dmc_alloc (proc_ty slots) = 32 + reg_space slots" "dmc_align (proc_ty slots) = 8"
proof -
  have r: "round_up 4 0 = 0" "round_up 4 4 = 4" "round_up 4 8 = 8" "round_up 4 12 = 12" "round_up 8 16 = 16"
    "round_up 4 24 = 24" "round_up 8 8 = 8"
    by (simp_all add: round_up_def)
  have e: "round_up 8 (24 + slots * 4) = 24 + reg_space slots"
    using round_up_add [of 8 3 "4 * slots"] round_up_8 [of "4 * slots"] by (simp add: mult.commute)
  show "map (dmc_elem [IntTy 32, IntTy 32, IntTy 32, IntTy 32, IntTy 64, ArrayTy slots (IntTy 32), IntTy 64]) [0..<7]
    = [0, 4, 8, 12, 16, 24, 24 + reg_space slots]"
    by (simp add: upt_rec dmc_elem_def dmc_end_def r e)
  show "dmc_align (proc_ty slots) = 8"
    by (simp add: proc_ty_def)
  have "32 + reg_space slots = 8 * (4 + (slots * 4 + 7) div 8)"
    using round_up_8 [of "4 * slots"] by (simp add: round_up_def mult.commute)
  then have "round_up 8 (32 + reg_space slots) = 32 + reg_space slots"
    using round_up_add [of 8 "4 + (slots * 4 + 7) div 8" 0] by (simp add: round_up_def)
  then show "dmc_alloc (proc_ty slots) = 32 + reg_space slots"
    by (simp add: proc_ty_def r e)
qed

lemma bytes_at_concat:
  assumes "\<And>x. x \<in> set xs \<Longrightarrow> length (f x) = m" and "t < length xs" and "off + n \<le> m"
  shows "bytes_at (t * m + off) n (concat (map f xs)) = bytes_at off n (f (xs ! t))"
  using assms
proof (induction xs arbitrary: t)
  case (Cons x xs)
  show ?case
  proof (cases t)
    case 0
    with Cons.prems show ?thesis by (simp add: bytes_at_def)
  next
    case (Suc t')
    with Cons.prems have "bytes_at (t * m + off) n (concat (map f (x # xs))) = bytes_at (t' * m + off) n (concat (map f xs))"
      by (simp add: bytes_at_append2 add.assoc)
    with Cons.IH [of t'] Cons.prems Suc show ?thesis by simp
  qed
qed simp

lemma process_field_offsets:
  assumes "length (p_r p) = 4 * slots" and "k < 7"
  shows "bytes_at (dmc_elem [IntTy 32, IntTy 32, IntTy 32, IntTy 32, IntTy 64, ArrayTy slots (IntTy 32), IntTy 64] k)
      (length (snd (process_fields ! k) p)) (process_bytes p) = snd (process_fields ! k) p"
    and "dmc_elem [IntTy 32, IntTy 32, IntTy 32, IntTy 32, IntTy 64, ArrayTy slots (IntTy 32), IntTy 64] k
      + length (snd (process_fields ! k) p) \<le> 32 + reg_space slots"
proof -
  have m: "bytes_at 0 n xs = xs" if "n = length xs" for n and xs :: bytes
    using that by (simp add: bytes_at_def)
  have e: "dmc_elem [IntTy 32, IntTy 32, IntTy 32, IntTy 32, IntTy 64, ArrayTy slots (IntTy 32), IntTy 64] k
    = [0, 4, 8, 12, 16, 24, 24 + reg_space slots] ! k"
    using assms(2) by (simp flip: proc_layout(1))
  from assms(2) have "k \<in> {0, 1, 2, 3, 4, 5, 6}" by auto
  then show "bytes_at (dmc_elem [IntTy 32, IntTy 32, IntTy 32, IntTy 32, IntTy 64, ArrayTy slots (IntTy 32), IntTy 64] k)
      (length (snd (process_fields ! k) p)) (process_bytes p) = snd (process_fields ! k) p"
    using assms(1) unfolding e
    by (elim insertE emptyE)
      (simp_all add: process_fields_def process_bytes_def bytes_at_append1 bytes_at_append2 m)
  from \<open>k \<in> {0, 1, 2, 3, 4, 5, 6}\<close>
  show "dmc_elem [IntTy 32, IntTy 32, IntTy 32, IntTy 32, IntTy 64, ArrayTy slots (IntTy 32), IntTy 64] k
      + length (snd (process_fields ! k) p) \<le> 32 + reg_space slots"
    using assms(1) unfolding e by (elim insertE emptyE) (simp_all add: process_fields_def)
qed

lemma sv_layout:
  "map (dmc_elem [IntTy 32, IntTy 32, IntTy 64, ArrayTy MAX_THREADS (proc_ty slots)]) [0..<4] = [0, 4, 8, 16]"
  "dmc_alloc (sv_ty slots) = 16 + 6 * (32 + reg_space slots)"
proof -
  have r: "round_up 4 0 = 0" "round_up 4 4 = 4" "round_up 8 8 = 8" "round_up 8 16 = 16"
    by (simp_all add: round_up_def)
  note p = proc_layout(2,3)
  show "map (dmc_elem [IntTy 32, IntTy 32, IntTy 64, ArrayTy MAX_THREADS (proc_ty slots)]) [0..<4] = [0, 4, 8, 16]"
    by (simp add: upt_rec dmc_elem_def dmc_end_def r p)
  have "16 + 6 * (32 + reg_space slots) = 8 * (2 + 6 * (4 + (slots * 4 + 7) div 8))"
    using round_up_8 [of "4 * slots"] by (simp add: round_up_def mult.commute)
  then have "round_up 8 (16 + 6 * (32 + reg_space slots)) = 16 + 6 * (32 + reg_space slots)"
    using round_up_add [of 8 "2 + 6 * (4 + (slots * 4 + 7) div 8)" 0] by (simp add: round_up_def)
  then show "dmc_alloc (sv_ty slots) = 16 + 6 * (32 + reg_space slots)"
    by (simp add: sv_ty_def r p)
qed

lemma access_statevector:
  assumes "k < 3"
  shows "access [Name (fst (statevector_fields ! k))] (accessor_new (typed_sv slots))
    = Ok \<lparr>ac_idx = [k], ac_current = sn_children (typed_sv slots) ! k\<rparr>"
proof -
  from assms have "k \<in> {0, 1, 2}" by auto
  then show ?thesis
    by (elim insertE emptyE) (simp_all add: statevector_fields_def accessor_new_def sv_node_def var_def)
qed

lemma access_process:
  assumes "k < 7"
  shows "\<exists>c. access [Name ''processes'', Val v, Name (fst (process_fields ! k))] (accessor_new (typed_sv slots))
    = Ok \<lparr>ac_idx = [3, unat v, k], ac_current = c\<rparr>"
proof -
  have "replicate MAX_THREADS c = c # replicate 5 c" for c :: svtree
    by (simp add: numeral_eq_Suc)
  then have "access [Name ''processes'', Val v, Name n] (accessor_new (typed_sv slots))
    = accessor_at (Name n) \<lparr>ac_idx = [3, unat v], ac_current = proc_node slots (Some (proc_type slots))\<rparr>" for n
    by (simp add: accessor_new_def sv_node_def var_def procs_node_def split: option.splits)
  moreover from assms have "k \<in> {0, 1, 2, 3, 4, 5, 6}" by auto
  then have "\<exists>c. accessor_at (Name (fst (process_fields ! k))) \<lparr>ac_idx = [3, unat v], ac_current = proc_node slots t\<rparr>
    = Ok \<lparr>ac_idx = [3, unat v, k], ac_current = c\<rparr>" for t
    by (elim insertE emptyE) (simp_all add: process_fields_def proc_node_def var_def)
  ultimately show ?thesis by simp
qed

lemma statevector_field_at:
  assumes "k < 3"
  shows "bytes_at (dmc_elem [IntTy 32, IntTy 32, IntTy 64, ArrayTy MAX_THREADS (proc_ty slots)] k)
      (length (snd (statevector_fields ! k) sv)) (sv_bytes sv) = snd (statevector_fields ! k) sv"
proof -
  have e: "dmc_elem [IntTy 32, IntTy 32, IntTy 64, ArrayTy MAX_THREADS (proc_ty slots)] k = [0, 4, 8, 16] ! k"
    using assms by (simp flip: sv_layout(1) [of slots])
  from assms have "k \<in> {0, 1, 2}" by auto
  then show ?thesis
    unfolding e by (elim insertE emptyE)
      (simp_all add: statevector_fields_def sv_bytes_def bytes_at_append1 bytes_at_append2)
qed

lemma length_process_bytes_reg:
  "length (p_r p) = 4 * slots \<Longrightarrow> length (process_bytes p) = 32 + reg_space slots"
  by (simp add: process_bytes_def)

lemma process_field_at:
  assumes "\<forall>p \<in> set (sv_processes sv). length (p_r p) = 4 * slots" and "t < length (sv_processes sv)" and "k < 7"
  shows "bytes_at (16 + (t * (32 + reg_space slots)
        + dmc_elem [IntTy 32, IntTy 32, IntTy 32, IntTy 32, IntTy 64, ArrayTy slots (IntTy 32), IntTy 64] k))
      (length (snd (process_fields ! k) (sv_processes sv ! t))) (sv_bytes sv)
    = snd (process_fields ! k) (sv_processes sv ! t)"
proof -
  have len: "length (process_bytes p) = 32 + reg_space slots" if "p \<in> set (sv_processes sv)" for p
    using assms(1) that length_process_bytes_reg by blast
  have "length (p_r (sv_processes sv ! t)) = 4 * slots"
    using assms(1,2) by simp
  note f = process_field_offsets [OF this assms(3)]
  show ?thesis
    using bytes_at_concat [of "sv_processes sv" process_bytes, OF len assms(2) f(2)] f(1)
    by (simp add: sv_bytes_def bytes_at_append2)
qed

text \<open>The positions of the access paths in the types that \<open>generateTypes\<close> has built.\<close>

lemma generateTypes_sv:
  assumes "generateTypes slots = Ok mt"
  shows "lts_sv (mt_lts mt) = Some (typed_sv slots)" and "mt_statevector mt = sv_ty slots"
  using generateTypes_eq [OF generateTypes_slots [OF assms]] assms by (metis outcome.inject(1))+

lemma lts_offset_typed:
  assumes "generateTypes slots = Ok mt" and "access ks (accessor_new (typed_sv slots)) = Ok \<lparr>ac_idx = is, ac_current = c\<rparr>"
  shows "lts_offset ks mt = Ok (dmc_field (sv_ty slots) is)"
proof -
  have "sn_index (typed_sv slots) = 0"
    by (simp add: sv_node_def)
  with assms(2) generateTypes_sv [OF assms(1)] show ?thesis
    by (simp add: lts_offset_def lts_access_def getValue_indices_def)
qed

lemma lts_offset_statevector:
  assumes "generateTypes slots = Ok mt" and "k < 3"
  shows "lts_offset [Name (fst (statevector_fields ! k))] mt
    = Ok (dmc_elem [IntTy 32, IntTy 32, IntTy 64, ArrayTy MAX_THREADS (proc_ty slots)] k)"
  using lts_offset_typed [OF assms(1) access_statevector [OF assms(2)]] assms(2) by (simp add: sv_ty_def nth_Cons')

lemma lts_offset_process:
  assumes "generateTypes slots = Ok mt" and "k < 7" and "t < MAX_THREADS"
  shows "lts_offset [Name ''processes'', Val (word_of_nat t), Name (fst (process_fields ! k))] mt
    = Ok (16 + (t * (32 + reg_space slots)
        + dmc_elem [IntTy 32, IntTy 32, IntTy 32, IntTy 32, IntTy 64, ArrayTy slots (IntTy 32), IntTy 64] k))"
proof -
  have t: "unat (word_of_nat t :: u32) = t"
    using assms(3) by (simp add: unat_of_nat)
  obtain c where c: "access [Name ''processes'', Val (word_of_nat t), Name (fst (process_fields ! k))]
      (accessor_new (typed_sv slots)) = Ok \<lparr>ac_idx = [3, t, k], ac_current = c\<rparr>"
    using access_process [OF assms(2), of "word_of_nat t" slots] t by (auto simp del: access.simps)
  have "[IntTy 32, IntTy 32, IntTy 64, ArrayTy MAX_THREADS (proc_ty slots)] ! 3 = ArrayTy MAX_THREADS (proc_ty slots)"
    by (simp add: numeral_eq_Suc)
  moreover have "dmc_elem [IntTy 32, IntTy 32, IntTy 64, ArrayTy MAX_THREADS (proc_ty slots)] 3 = 16"
    using arg_cong [OF sv_layout(1) [of slots], of "\<lambda>xs. xs ! 3"] by simp
  moreover have "dmc_field (proc_ty slots) [k]
    = dmc_elem [IntTy 32, IntTy 32, IntTy 32, IntTy 32, IntTy 64, ArrayTy slots (IntTy 32), IntTy 64] k"
    by (simp add: proc_ty_def)
  ultimately show ?thesis
    using lts_offset_typed [OF assms(1) c] by (simp add: sv_ty_def proc_layout(2))
qed

lemma length_all_process_bytes:
  "\<forall>p \<in> set ps. length (p_r p) = 4 * slots \<Longrightarrow>
   length (concat (map process_bytes ps)) = length ps * (32 + reg_space slots)"
  by (induction ps) (simp_all add: length_process_bytes_reg)

text \<open>
  C7: the tree of variables describes the state vector: the struct type that \<open>generateTypes\<close>
  derives from it has the size of the bytes of a state vector, and every access path of the
  generator (\<open>lts["status"]\<close>, \<open>lts["processes"][t]["pc"]\<close> and so on) denotes the position at which
  these bytes hold the component of that name.
\<close>

theorem state_vector_layout:
  assumes "generateTypes slots = Ok mt" and "length (sv_processes sv) = MAX_THREADS"
    and "\<forall>p \<in> set (sv_processes sv). length (p_r p) = 4 * slots"
  shows "dmc_alloc (mt_statevector mt) = length (sv_bytes sv)
    \<and> (\<forall>(n, f) \<in> set statevector_fields. \<exists>off. lts_offset [Name n] mt = Ok off
          \<and> bytes_at off (length (f sv)) (sv_bytes sv) = f sv)
    \<and> (\<forall>t < MAX_THREADS. \<forall>(n, f) \<in> set process_fields. \<exists>off.
          lts_offset [Name ''processes'', Val (word_of_nat t), Name n] mt = Ok off
          \<and> bytes_at off (length (f (sv_processes sv ! t))) (sv_bytes sv) = f (sv_processes sv ! t))"
proof -
  have "length (concat (map process_bytes (sv_processes sv))) = 6 * (32 + reg_space slots)"
    using length_all_process_bytes [OF assms(3)] assms(2) by simp
  then have size: "dmc_alloc (mt_statevector mt) = length (sv_bytes sv)"
    by (simp add: generateTypes_sv(2) [OF assms(1)] sv_layout(2) sv_bytes_def)
  have fields: "\<exists>off. lts_offset [Name n] mt = Ok off \<and> bytes_at off (length (f sv)) (sv_bytes sv) = f sv"
    if "(n, f) \<in> set statevector_fields" for n f
  proof -
    from that obtain k where "k < length statevector_fields" and nf: "statevector_fields ! k = (n, f)"
      by (auto simp: in_set_conv_nth)
    then have k: "k < 3"
      by (simp add: statevector_fields_def)
    from lts_offset_statevector [OF assms(1) k] statevector_field_at [OF k, of slots sv] nf show ?thesis by simp
  qed
  have procs: "\<exists>off. lts_offset [Name ''processes'', Val (word_of_nat t), Name n] mt = Ok off
      \<and> bytes_at off (length (f (sv_processes sv ! t))) (sv_bytes sv) = f (sv_processes sv ! t)"
    if "t < MAX_THREADS" "(n, f) \<in> set process_fields" for t n f
  proof -
    from that(2) obtain k where "k < length process_fields" and nf: "process_fields ! k = (n, f)"
      by (auto simp: in_set_conv_nth)
    then have k: "k < 7"
      by (simp add: process_fields_def)
    from lts_offset_process [OF assms(1) k that(1)] process_field_at [OF assms(3) _ k, of t] assms(2) that(1) nf
    show ?thesis by simp
  qed
  from size fields procs show ?thesis by blast
qed

theorem state_vector_layout_witness:
  "\<exists>mt. generateTypes 2 = Ok mt \<and> dmc_alloc (mt_statevector mt) = length (sv_bytes ex_sv)"
proof (rule generateTypes_eq [of 2])
  fix mt
  assume "generateTypes 2 = Ok mt"
  with state_vector_layout [OF this, of ex_sv] show ?thesis
    by (simp add: ex_sv_def ex_process_def)
qed simp

text \<open>The program counter of process 3 and the global status.\<close>

theorem variables_disjoint_witness:
  "\<exists>a b. access [Name ''processes'', Val 3, Name ''pc''] (accessor_new (typed_sv 2)) = Ok a
    \<and> access [Name ''status''] (accessor_new (typed_sv 2)) = Ok b
    \<and> variable_range (sv_ty 2) a \<inter> variable_range (sv_ty 2) b = {}"
proof -
  have procs: "replicate MAX_THREADS c = c # replicate 5 c" for c :: svtree
    by (simp add: numeral_eq_Suc)
  have fresh: "fresh (sv_node 2 None None None)"
    by (simp add: sv_node_def procs_node_def proc_node_def var_def list_all_iff)
  have a: "access [Name ''processes'', Val 3, Name ''pc''] (accessor_new (typed_sv 2))
    = Ok \<lparr>ac_idx = [3, 3, 2], ac_current = var ''pc'' 2 ''pc'' (IntTy 32)\<rparr>"
    by (simp add: accessor_new_def sv_node_def var_def procs_node_def procs proc_node_def)
  have b: "access [Name ''status''] (accessor_new (typed_sv 2))
    = Ok \<lparr>ac_idx = [0], ac_current = var ''status'' 0 ''status'' (IntTy 32)\<rparr>"
    by (simp add: accessor_new_def sv_node_def var_def)
  have v: "values_select [Name ''processes'', Val 3, Name ''pc''] (accessor_new (typed_sv 2))"
    "values_select [Name ''status''] (accessor_new (typed_sv 2))"
    by (simp_all add: accessor_new_def sv_node_def var_def procs_node_def procs split: outcome.splits)
  have t: "getLLVMType (typed_sv 2) = sv_ty 2"
    by (simp add: sv_node_def)
  have path: "at_path (sv_ty 2) [3, 3, 2] \<noteq> None" "at_path (sv_ty 2) [0] \<noteq> None"
    by (simp_all add: sv_ty_def proc_ty_def nth_Cons')
  have leaf: "sn_children (var n i tn ty) = []" for n i tn ty
    by (simp add: var_def)
  from variables_disjoint [OF fresh verify_sv a v(1) b v(2)] a b t path leaf show ?thesis
    by simp
qed

section \<open>Programs without registers\<close>

text \<open>\<open>i32 main() { ret i32 0 }\<close>: no arguments, no instruction with a result.\<close>

definition ret0_module :: ir_module where
  "ret0_module = \<lparr>m_globals = [], m_functions = [\<lparr>f_name = ''main'', f_params = [], f_vararg = False,
     f_decl = False, f_blocks = [[\<lparr>i_id = 1, i_ty = VoidTy, i_op = Ret (Some (ConstV (IntTy 32) [0, 0, 0, 0], IntTy 32))\<rparr>]]\<rparr>]\<rparr>"

text \<open>
  The generator rejects a program none of whose functions needs a register, such as a
  \<open>main\<close> that only returns a constant: the register area is then an array of no elements, and
  \<open>SVType\<close> asserts that a type has a size.
\<close>

lemma no_registers_asserts:
  "generateTypes (registers_max_slots dmc_layout (createRegisterMapping (generator_new ret0_module na)))
    = Fail Assertion"
proof -
  have "registers_max_slots dmc_layout (createRegisterMapping (generator_new ret0_module na)) = 0"
    by (simp add: registers_max_slots_def ret0_module_def createRegisterMapping_def
        createRegisterMappingForFunction_def generator_new_def args_of_def regs_of_def f_insts_def)
  moreover have "newType ''register'' (ArrayTy 0 (IntTy 32)) tm = Fail Assertion" for tm
    by (simp add: newType_def svtype_new_def)
  ultimately show ?thesis
    by (simp add: generateTypes_def newType_plain)
qed

end
