(* ===== verification/Main_Program.thy ===== *)
theory Main_Program
  imports Front_End State_Layout
begin

text \<open>
  The main functions: finding the tools, translating, compiling and linking the program, and exploring
  the result.  Files are values of the type \<open>'fs\<close>, the messages reported so far are \<open>'o\<close>; only
  the calls that report errors are modelled, as nothing depends on the others.
\<close>

section \<open>What the programs use of libfrugi, LLVM and the tools\<close>

record ('fs, 'o) platform =
  pf_findInPath :: "'fs \<Rightarrow> string \<Rightarrow> string list"
  pf_executable :: "'fs \<Rightarrow> string \<Rightarrow> bool"
  pf_readable :: "'fs \<Rightarrow> string \<Rightarrow> bool"
  pf_isDir :: "'fs \<Rightarrow> string \<Rightarrow> bool"
  pf_canCreateOrModify :: "'fs \<Rightarrow> string \<Rightarrow> bool"
  pf_exists :: "'fs \<Rightarrow> string \<Rightarrow> bool"
  pf_remove :: "string \<Rightarrow> 'fs \<Rightarrow> 'fs"
  pf_system :: "string \<Rightarrow> string \<Rightarrow> 'fs \<Rightarrow> 'fs"
  pf_fix :: "'fs \<Rightarrow> string \<Rightarrow> string"
  pf_realPath :: "'fs \<Rightarrow> string \<Rightarrow> string"
  pf_pathTo :: "string \<Rightarrow> string"
  pf_extension :: "string \<Rightarrow> string"
  pf_withExtension :: "string \<Rightarrow> string \<Rightarrow> string"
  pf_joined :: "string \<Rightarrow> string \<Rightarrow> string"
  pf_emptyFile :: string
  pf_getArgument :: "string list \<Rightarrow> nat \<Rightarrow> string"
  pf_binaryLocation :: string
  pf_installPrefix :: string
  pf_reportError :: "string \<Rightarrow> 'o \<Rightarrow> 'o"
  pf_getErrors :: "'o \<Rightarrow> nat"
  pf_loadIR :: "'fs \<Rightarrow> string \<Rightarrow> string + ir_module"
  pf_parses :: "'fs \<Rightarrow> string \<Rightarrow> bool"
  pf_generate :: "generator \<Rightarrow> model_types \<Rightarrow> 'o \<Rightarrow> bool \<times> 'o"
  pf_writeTo :: "generator \<times> model_types \<Rightarrow> string \<Rightarrow> 'fs \<Rightarrow> 'fs"

section \<open>Tools\<close>

definition findBinary :: "('fs, 'o) platform \<Rightarrow> 'fs \<Rightarrow> string \<Rightarrow> string \<times> 'o \<Rightarrow> (string \<times> 'o) \<times> bool" where
  "findBinary pf fs name bo =
     (case List.find (pf_executable pf fs) (pf_findInPath pf fs name) of
        Some binFound \<Rightarrow> ((binFound, snd bo), False)
      | None \<Rightarrow> ((fst bo, pf_reportError pf (''no runnable '' @ name @ '' executable found in PATH'') (snd bo)), True))"

definition compile :: "('fs, 'o) platform \<Rightarrow> string \<Rightarrow> string \<Rightarrow> string \<Rightarrow> 'fs \<Rightarrow> bool \<times> 'fs" where
  "compile pf bin_llc inputFile outputFile fs =
     (let fs' = pf_system pf (bin_llc @ '' -filetype=obj'' @ '' -relocation-model=pic'' @ '' -O=3'' @ '' '' @ inputFile
            @ '' -o '' @ outputFile) (pf_pathTo pf inputFile) fs
      in (\<not> pf_exists pf fs' outputFile, fs'))"

definition link :: "('fs, 'o) platform \<Rightarrow> string \<Rightarrow> string \<Rightarrow> string \<Rightarrow> 'fs \<times> 'o \<Rightarrow> bool \<times> 'fs \<times> 'o" where
  "link pf bin_cc inputFile outputFile fo =
     (let tries = [pf_joined pf (pf_binaryLocation pf) ''libllmcvm.a'',
            pf_joined pf (pf_binaryLocation pf @ ''/../libllmcos'') ''libllmcvm.a'',
            pf_joined pf (pf_installPrefix pf @ ''/share/llmc'') ''libllmcvm.a''];
          found = List.find (pf_exists pf (fst fo)) tries;
          out = (if found = None then pf_reportError pf ''Could not find LLMC VM, tried:'' (snd fo) else snd fo);
          libLLMCVMObject = (case found of Some f \<Rightarrow> f | None \<Rightarrow> pf_emptyFile pf);
          fs' = pf_system pf (bin_cc @ '' -g -shared'' @ '' '' @ inputFile @ '' -O3'' @ '' '' @ libLLMCVMObject
            @ '' -o '' @ outputFile) (pf_pathTo pf inputFile) (fst fo)
      in (\<not> pf_exists pf fs' outputFile, fs', out))"

section \<open>The translator\<close>

definition loadModule :: "('fs, 'o) platform \<Rightarrow> 'fs \<Rightarrow> string \<Rightarrow> unit outcome" where
  "loadModule pf fs name =
     (let tries = [pf_joined pf (pf_binaryLocation pf) name,
            pf_joined pf (pf_installPrefix pf @ ''/share/llmc'') name,
            pf_joined pf (pf_binaryLocation pf @ ''/../libllmcos'') name,
            pf_joined pf (pf_binaryLocation pf @ ''/../libllmc'') name]
      in case List.find (pf_exists pf fs) tries of
           None \<Rightarrow> Fail Assertion
         | Some moduleFile \<Rightarrow> if pf_parses pf fs (pf_fix pf fs moduleFile) then Ok () else Fail Assertion)"

text \<open>
  \<open>pinsify\<close>: the internal modules have to be there, the generator is set up for the program, and
  then the functions of the model are written into an LLVM module, which is given to the verifier of LLVM;
  this last stage is \<open>pf_generate\<close>.
\<close>

definition pinsify_stages :: "layout \<Rightarrow> generator \<Rightarrow> (generator \<times> model_types) outcome" where
  "pinsify_stages dl g =
     (let g = createRegisterMapping (createTransitionGroups g)
      in obind (generateTypes (registers_max_slots dl g)) (\<lambda>mt. Ok (mapGlobals g, mt)))"

definition load_internal_modules :: "('fs, 'o) platform \<Rightarrow> 'fs \<Rightarrow> unit outcome" where
  "load_internal_modules pf fs =
     obind (loadModule pf fs ''libllmcos.ll'') (\<lambda>_.
     obind (loadModule pf fs ''libllmcvm.ll'') (\<lambda>_. loadModule pf fs ''libdmccapi.ll''))"

definition pinsify ::
  "('fs, 'o) platform \<Rightarrow> layout \<Rightarrow> 'fs \<Rightarrow> generator \<Rightarrow> 'o \<Rightarrow> ((generator \<times> model_types) \<times> bool \<times> 'o) outcome" where
  "pinsify pf dl fs g out =
     obind (load_internal_modules pf fs) (\<lambda>_.
     obind (pinsify_stages dl g) (\<lambda>r. Ok (r, pf_generate pf (fst r) (snd r) out)))"

definition ll2dmc_init :: "('fs, 'o) platform \<Rightarrow> 'fs \<Rightarrow> string \<Rightarrow> bool \<Rightarrow> 'o \<Rightarrow> (generator option \<times> 'o) \<times> bool" where
  "ll2dmc_init pf fs inputFile assume_nonatomic_collapsable out =
     (case pf_loadIR pf fs (pf_realPath pf fs inputFile) of
        Inl message \<Rightarrow> ((None, pf_reportError pf message out), False)
      | Inr module \<Rightarrow> ((Some (generator_new module assume_nonatomic_collapsable), out), True))"

text \<open>The generator is used through a pointer, which is null when \<open>init\<close> failed.\<close>

definition ll2dmc_translate ::
  "('fs, 'o) platform \<Rightarrow> layout \<Rightarrow> 'fs \<Rightarrow> generator option \<Rightarrow> 'o \<Rightarrow> ((generator \<times> model_types) \<times> bool \<times> 'o) outcome" where
  "ll2dmc_translate pf dl fs gen out = (case gen of None \<Rightarrow> Fail BadAccess | Some g \<Rightarrow> pinsify pf dl fs g out)"

section \<open>llmc\<close>

datatype 'fs main_result =
    Exit int
  | Explore string "string + model_checker \<times> storage \<times> printer" 'fs

fun outputs_ok :: "('fs, 'o) platform \<Rightarrow> 'fs \<Rightarrow> string list \<Rightarrow> bool" where
  "outputs_ok pf fs [] \<longleftrightarrow> True"
| "outputs_ok pf fs (f # files) \<longleftrightarrow> \<not> pf_isDir pf fs f \<and> pf_canCreateOrModify pf fs f \<and> outputs_ok pf fs files"

text \<open>From the input file on: the tools are \<open>bin_llc\<close> and \<open>bin_cc\<close>.\<close>

definition build_and_explore ::
  "('fs, 'o) platform \<Rightarrow> 's settings_api \<Rightarrow> layout \<Rightarrow> string \<Rightarrow> string \<Rightarrow> string \<Rightarrow> 's \<Rightarrow> 'fs \<times> 'o \<Rightarrow> 'fs main_result outcome" where
  "build_and_explore pf api dl bin_llc bin_cc inputFile s fo =
     (let fs = fst fo;
          output_ll = pf_withExtension pf inputFile ''dmc.ll'';
          output_o = pf_withExtension pf inputFile ''dmc.o'';
          output_so = pf_withExtension pf inputFile ''so''
      in if pf_extension pf inputFile = ''so'' then Ok (Explore (pf_realPath pf fs inputFile) (go api s) fs)
         else if \<not> pf_readable pf fs inputFile then Ok (Exit 1)
         else if pf_isDir pf fs inputFile then Ok (Exit 1)
         else if \<not> outputs_ok pf fs [output_ll, output_o, output_so] then Ok (Exit 1)
         else (let ini = ll2dmc_init pf fs inputFile (sub_is_on api ''ll2dmc'' ''assume_nonatomic_collapsable'' s) (snd fo) in
           obind (ll2dmc_translate pf dl fs (fst (fst ini)) (snd (fst ini))) (\<lambda>(model, r, out).
             let fs = pf_writeTo pf model output_ll fs in
             if \<not> r then Ok (Exit 1)
             else if pf_getErrors pf out \<noteq> 0 then Ok (Exit 1)
             else (let fs = pf_remove pf output_o fs; c = compile pf bin_llc output_ll output_o fs in
               if fst c then Ok (Exit 1)
               else (let l = link pf bin_cc output_o output_so (snd c, out) in
                 if fst l then Ok (Exit 1)
                 else (let fs = fst (snd l) in Ok (Explore (pf_realPath pf fs output_so) (go api s) fs)))))))"

definition llmc_main ::
  "('fs, 'o) platform \<Rightarrow> 's settings_api \<Rightarrow> layout \<Rightarrow> 's \<Rightarrow> string list \<Rightarrow> 'fs \<times> 'o \<Rightarrow> 'fs main_result outcome" where
  "llmc_main pf api dl s args fo =
     obind (parse_options api s args) (\<lambda>(cl, operands).
       if cl_doPrintHelp cl then Ok (Exit 0)
       else if cl_doPrintVersion cl then Ok (Exit 0)
       else (let fs = fst fo;
                 ((bin_llc, out), _) = findBinary pf fs ''llc'' (pf_emptyFile pf, snd fo);
                 ((bin_cc, out), no_gcc) = findBinary pf fs ''gcc'' (pf_emptyFile pf, out);
                 ((bin_cc, out), _) = (if no_gcc then findBinary pf fs ''clang'' (bin_cc, out) else ((bin_cc, out), False));
                 ((bin_dot, out), _) = findBinary pf fs ''dot'' (pf_emptyFile pf, out);
                 htindex = 1 + length args - length operands
             in if operands = [] then Ok (Exit (- 1))
                else build_and_explore pf api dl bin_llc bin_cc
                  (pf_fix pf fs (pf_getArgument pf args htindex)) (cl_settings cl) (fs, out)))"

section \<open>ll2dmc\<close>

definition ll2dmc_options :: optspec where
  "ll2dmc_options c = (if c \<in> {CHR ''m'', CHR ''s'', CHR ''t'', CHR ''-''} then Some True else None)"

fun ll2dmc_settings :: "'s settings_api \<Rightarrow> optevent list \<Rightarrow> 's \<Rightarrow> 's" where
  "ll2dmc_settings api [] s = s"
| "ll2dmc_settings api ((c, Some optarg) # evs) s =
     ll2dmc_settings api evs (if c = CHR ''-'' then insert_key_value api optarg s else s)"
| "ll2dmc_settings api ((c, None) # evs) s = ll2dmc_settings api evs s"

text \<open>The result is the exit code and the files; the translator's own result is not looked at.\<close>

definition ll2dmc_main ::
  "('fs, 'o) platform \<Rightarrow> 's settings_api \<Rightarrow> layout \<Rightarrow> 's \<Rightarrow> string list \<Rightarrow> 'fs \<times> 'o \<Rightarrow> (int \<times> 'fs) outcome" where
  "ll2dmc_main pf api dl s args fo =
     (if length args \<noteq> 2 then Ok (0, fst fo)
      else (let fs = fst fo; inputFile = pf_getArgument pf args 1; outputFile = pf_getArgument pf args 2 in
        if \<not> pf_readable pf fs inputFile then Ok (1, fs)
        else if pf_isDir pf fs outputFile then Ok (1, fs)
        else if \<not> pf_canCreateOrModify pf fs outputFile then Ok (1, fs)
        else (let s = ll2dmc_settings api (fst (getopt ll2dmc_options args)) s;
                  ini = ll2dmc_init pf fs inputFile (sub_is_on api ''ll2dmc'' ''assume_nonatomic_collapsable'' s) (snd fo) in
          obind (ll2dmc_translate pf dl fs (fst (fst ini)) (snd (fst ini))) (\<lambda>(model, r, out). Ok (0, pf_writeTo pf model outputFile fs)))))"

section \<open>What is explored\<close>

lemma findBinary_out:
  assumes "\<And>m o'. pf_getErrors pf o' < pf_getErrors pf (pf_reportError pf m o')"
  shows "pf_getErrors pf out \<le> pf_getErrors pf (snd (fst (findBinary pf fs name (b, out))))"
    and "snd (findBinary pf fs name (b, out)) \<Longrightarrow>
      pf_getErrors pf out < pf_getErrors pf (snd (fst (findBinary pf fs name (b, out))))"
  using assms by (auto simp: findBinary_def less_imp_le split: option.splits)

lemma findBinary_fails:
  "\<forall>f \<in> set (pf_findInPath pf fs name). \<not> pf_executable pf fs f \<Longrightarrow> snd (findBinary pf fs name bo)"
  by (auto simp: findBinary_def find_Some_iff split: option.splits)

lemma ll2dmc_init_out:
  assumes "\<And>m o'. pf_getErrors pf o' < pf_getErrors pf (pf_reportError pf m o')"
  shows "pf_getErrors pf out \<le> pf_getErrors pf (snd (fst (ll2dmc_init pf fs f na out)))"
  using assms by (auto simp: ll2dmc_init_def less_imp_le split: sum.splits)

lemma build_and_explore_Explore:
  assumes "build_and_explore pf api dl bin_llc bin_cc inputFile s (fs, out) = Ok (Explore so cfg fs')"
    and "pf_extension pf inputFile \<noteq> ''so''"
  defines "output \<equiv> pf_withExtension pf inputFile"
  obtains m g mt out' fs1 out'' where "pf_loadIR pf fs (pf_realPath pf fs inputFile) = Inr m"
    and "pinsify_stages dl (generator_new m (sub_is_on api ''ll2dmc'' ''assume_nonatomic_collapsable'' s)) = Ok (g, mt)"
    and "pf_generate pf g mt out = (True, out')" and "pf_getErrors pf out' = 0"
    and "compile pf bin_llc (output ''dmc.ll'') (output ''dmc.o'')
      (pf_remove pf (output ''dmc.o'') (pf_writeTo pf (g, mt) (output ''dmc.ll'') fs)) = (False, fs1)"
    and "link pf bin_cc (output ''dmc.o'') (output ''so'') (fs1, out') = (False, fs', out'')"
    and "pf_exists pf fs1 (output ''dmc.o'')" and "pf_exists pf fs' (output ''so'')"
    and "so = pf_realPath pf fs' (output ''so'')" and "cfg = go api s"
  using assms(1,2) that unfolding output_def
  by (auto simp: build_and_explore_def Let_def outcome_simps ll2dmc_init_def ll2dmc_translate_def pinsify_def link_def
      compile_def split: if_splits sum.splits)

lemma llmc_main_Explore:
  assumes "llmc_main pf api dl s args (fs, out) = Ok (Explore so cfg fs')"
  defines "llc \<equiv> findBinary pf fs ''llc'' (pf_emptyFile pf, out)"
  defines "gcc \<equiv> findBinary pf fs ''gcc'' (pf_emptyFile pf, snd (fst llc))"
  defines "cc \<equiv> if snd gcc then findBinary pf fs ''clang'' (fst gcc) else (fst gcc, False)"
  defines "dot \<equiv> findBinary pf fs ''dot'' (pf_emptyFile pf, snd (fst cc))"
  obtains cl operands where "parse_options api s args = Ok (cl, operands)" and "operands \<noteq> []"
    and "build_and_explore pf api dl (fst (fst llc)) (fst (fst cc))
      (pf_fix pf fs (pf_getArgument pf args (1 + length args - length operands))) (cl_settings cl) (fs, snd (fst dot))
      = Ok (Explore so cfg fs')"
proof -
  obtain cl operands where opts: "parse_options api s args = Ok (cl, operands)"
    using assms(1) by (auto simp: llmc_main_def outcome_simps)
  with assms(1) have "operands \<noteq> []"
    and "build_and_explore pf api dl (fst (fst llc)) (fst (fst cc))
      (pf_fix pf fs (pf_getArgument pf args (1 + length args - length operands))) (cl_settings cl) (fs, snd (fst dot))
      = Ok (Explore so cfg fs')"
    unfolding llc_def gcc_def cc_def dot_def
    by (auto simp: llmc_main_def Let_def split: if_splits prod.splits)
  with opts that show thesis by blast
qed

text \<open>
  C37: what llmc explores is either the input file itself, if that is a library, with no file changed; or the library beside the
  input file after the whole build: the program was read, the generator ran through with the verifier's consent and without
  an error reported so far, its model was written, the old object file was removed, llc was run on the model and left
  an object file, and the linker was run on that; the library exists afterwards.  That the linker wrote it is not checked.
  The search is the one selected by the options.
\<close>

theorem explored_after_build:
  assumes "llmc_main pf api dl s args (fs, out) = Ok (Explore so cfg fs')"
  shows "\<exists>cl operands. parse_options api s args = Ok (cl, operands) \<and> operands \<noteq> [] \<and> cfg = go api (cl_settings cl)
    \<and> (let inputFile = pf_fix pf fs (pf_getArgument pf args (1 + length args - length operands));
           output = pf_withExtension pf inputFile
       in if pf_extension pf inputFile = ''so'' then so = pf_realPath pf fs inputFile \<and> fs' = fs
          else (\<exists>m g mt o1 o2 o3 fs1 bin_cc. pf_loadIR pf fs (pf_realPath pf fs inputFile) = Inr m
            \<and> pinsify_stages dl (generator_new m (sub_is_on api ''ll2dmc'' ''assume_nonatomic_collapsable'' (cl_settings cl)))
                = Ok (g, mt)
            \<and> pf_generate pf g mt o1 = (True, o2) \<and> pf_getErrors pf o2 = 0
            \<and> compile pf (fst (fst (findBinary pf fs ''llc'' (pf_emptyFile pf, out)))) (output ''dmc.ll'') (output ''dmc.o'')
                (pf_remove pf (output ''dmc.o'') (pf_writeTo pf (g, mt) (output ''dmc.ll'') fs)) = (False, fs1)
            \<and> link pf bin_cc (output ''dmc.o'') (output ''so'') (fs1, o2) = (False, fs', o3)
            \<and> pf_exists pf fs1 (output ''dmc.o'') \<and> pf_exists pf fs' (output ''so'') \<and> so = pf_realPath pf fs' (output ''so'')))"
proof -
  let ?llc = "fst (fst (findBinary pf fs ''llc'' (pf_emptyFile pf, out)))"
  obtain cl operands bin_cc o' where opts: "parse_options api s args = Ok (cl, operands)" "operands \<noteq> []"
    and run: "build_and_explore pf api dl ?llc bin_cc (pf_fix pf fs (pf_getArgument pf args (1 + length args - length operands)))
        (cl_settings cl) (fs, o') = Ok (Explore so cfg fs')"
    using llmc_main_Explore [OF assms] by metis
  let ?input = "pf_fix pf fs (pf_getArgument pf args (1 + length args - length operands))"
  show ?thesis
  proof (cases "pf_extension pf ?input = ''so''")
    case True
    with run opts show ?thesis by (auto simp: build_and_explore_def)
  next
    case False
    from build_and_explore_Explore [OF run this] opts False show ?thesis by (simp add: Let_def) metis
  qed
qed

text \<open>
  C38: when no runnable llc, gcc or dot is in the path, a program is never explored, although clang is
  looked for in place of gcc and dot is not used: the reported error is held against the translation.
\<close>

theorem missing_tool_stops:
  assumes "\<And>m o'. pf_getErrors pf o' < pf_getErrors pf (pf_reportError pf m o')"
    and "\<And>g mt o'. pf_getErrors pf o' \<le> pf_getErrors pf (snd (pf_generate pf g mt o'))"
    and "name \<in> {''llc'', ''gcc'', ''dot''}"
    and "\<forall>f \<in> set (pf_findInPath pf fs name). \<not> pf_executable pf fs f"
    and "\<And>n. pf_extension pf (pf_fix pf fs (pf_getArgument pf args n)) \<noteq> ''so''"
  shows "llmc_main pf api dl s args (fs, out) \<noteq> Ok (Explore so cfg fs')"
proof
  assume run: "llmc_main pf api dl s args (fs, out) = Ok (Explore so cfg fs')"
  let ?llc = "findBinary pf fs ''llc'' (pf_emptyFile pf, out)"
  let ?gcc = "findBinary pf fs ''gcc'' (pf_emptyFile pf, snd (fst ?llc))"
  let ?cc = "if snd ?gcc then findBinary pf fs ''clang'' (fst ?gcc) else (fst ?gcc, False)"
  let ?dot = "findBinary pf fs ''dot'' (pf_emptyFile pf, snd (fst ?cc))"
  note up = findBinary_out(1) [OF assms(1)] and fails = findBinary_out(2) [OF assms(1) findBinary_fails]
  have le: "pf_getErrors pf (snd (fst ?gcc)) \<le> pf_getErrors pf (snd (fst ?cc))"
    using up [of "snd (fst ?gcc)" fs "''clang''" "fst (fst ?gcc)"] by simp
  have pos: "0 < pf_getErrors pf (snd (fst ?dot))"
    using assms(3) up [of out fs "''llc''" "pf_emptyFile pf"] up [of "snd (fst ?llc)" fs "''gcc''" "pf_emptyFile pf"] le
      up [of "snd (fst ?cc)" fs "''dot''" "pf_emptyFile pf"]
      fails [of fs name out "pf_emptyFile pf"] fails [of fs name "snd (fst ?llc)" "pf_emptyFile pf"]
      fails [of fs name "snd (fst ?cc)" "pf_emptyFile pf"] assms(4)
    by auto
  obtain cl operands where "parse_options api s args = Ok (cl, operands)" and "operands \<noteq> []" and
    built: "build_and_explore pf api dl (fst (fst ?llc)) (fst (fst ?cc))
       (pf_fix pf fs (pf_getArgument pf args (1 + length args - length operands))) (cl_settings cl) (fs, snd (fst ?dot))
      = Ok (Explore so cfg fs')" by (rule llmc_main_Explore [OF run])
  obtain g mt out' where "pf_generate pf g mt (snd (fst ?dot)) = (True, out')" and "pf_getErrors pf out' = 0"
    by (rule build_and_explore_Explore [OF built assms(5)])
  with pos assms(2) [of "snd (fst ?dot)" g mt] show False by simp
qed

text \<open>
  C39: the library of an earlier run is not removed before linking, so when the linker fails and leaves the
  files as they are, linking counts as successful and the old library is explored.
\<close>

theorem stale_library_explored:
  assumes "pf_extension pf inputFile \<noteq> ''so''" and "pf_readable pf fs inputFile" and "\<not> pf_isDir pf fs inputFile"
    and "outputs_ok pf fs (map (pf_withExtension pf inputFile) [''dmc.ll'', ''dmc.o'', ''so''])"
    and "pf_loadIR pf fs (pf_realPath pf fs inputFile) = Inr m"
    and "pinsify pf dl fs (generator_new m (sub_is_on api ''ll2dmc'' ''assume_nonatomic_collapsable'' s)) out
      = Ok (model, True, out')" and "pf_getErrors pf out' = 0"
    and "compile pf bin_llc (pf_withExtension pf inputFile ''dmc.ll'') (pf_withExtension pf inputFile ''dmc.o'')
      (pf_remove pf (pf_withExtension pf inputFile ''dmc.o'') (pf_writeTo pf model (pf_withExtension pf inputFile ''dmc.ll'') fs))
      = (False, fs')"
    and "pf_exists pf fs' (pf_withExtension pf inputFile ''so'')" and "\<And>arguments cwd. pf_system pf (bin_cc @ arguments) cwd fs' = fs'"
  shows "build_and_explore pf api dl bin_llc bin_cc inputFile s (fs, out)
    = Ok (Explore (pf_realPath pf fs' (pf_withExtension pf inputFile ''so'')) (go api s) fs')"
  using assms by (simp add: build_and_explore_def ll2dmc_init_def ll2dmc_translate_def link_def Let_def)

section \<open>A run\<close>

text \<open>
  Files with their contents; \<open>llc\<close> writes the object file, and the linker fails.
\<close>

type_synonym ex_files = "(string \<times> string) list"

definition ex_platform :: "(ex_files, nat) platform" where
  "ex_platform =
     \<lparr>pf_findInPath = (\<lambda>fs name. [name]), pf_executable = (\<lambda>fs name. name \<in> {''llc'', ''gcc'', ''dot''}),
      pf_readable = (\<lambda>fs f. map_of fs f \<noteq> None), pf_isDir = (\<lambda>fs f. False), pf_canCreateOrModify = (\<lambda>fs f. True),
      pf_exists = (\<lambda>fs f. map_of fs f \<noteq> None), pf_remove = (\<lambda>f fs. filter (\<lambda>p. fst p \<noteq> f) fs),
      pf_system = (\<lambda>command cwd fs. if hd command = CHR ''l'' then (''in.dmc.o'', ''object'') # fs else fs),
      pf_fix = (\<lambda>fs f. f), pf_realPath = (\<lambda>fs f. f), pf_pathTo = (\<lambda>f. ''.''),
      pf_extension = (\<lambda>f. tl (dropWhile (\<lambda>c. c \<noteq> CHR ''.'') f)),
      pf_withExtension = (\<lambda>f e. takeWhile (\<lambda>c. c \<noteq> CHR ''.'') f @ ''.'' @ e),
      pf_joined = (\<lambda>d f. d @ ''/'' @ f), pf_emptyFile = [], pf_getArgument = (\<lambda>args n. args ! (n - 1)),
      pf_binaryLocation = ''bin'', pf_installPrefix = ''usr'', pf_reportError = (\<lambda>m. Suc), pf_getErrors = (\<lambda>n. n),
      pf_loadIR = (\<lambda>fs f. if map_of fs f = None then Inl ''cannot read'' else Inr inc_module),
      pf_parses = (\<lambda>fs f. True), pf_generate = (\<lambda>g mt n. (True, n)),
      pf_writeTo = (\<lambda>model f fs. (f, ''model'') # fs)\<rparr>"

definition ex_settings :: "(string \<Rightarrow> string) settings_api" where
  "ex_settings = \<lparr>set_string = (\<lambda>k v s. s(k := v)), set_int = (\<lambda>k v s. s), as_string = (\<lambda>k s. s k),
     insert_key_value = (\<lambda>kv s. s(takeWhile (\<lambda>c. c \<noteq> CHR ''='') kv := tl (dropWhile (\<lambda>c. c \<noteq> CHR ''='') kv))),
     sub_is_on = (\<lambda>sec key s. False)\<rparr>"

definition ex_files :: ex_files where
  "ex_files = [(''in.ll'', ''program''), (''in.so'', ''old''), (''bin/libllmcos.ll'', []), (''bin/libllmcvm.ll'', []),
     (''bin/libdmccapi.ll'', [])]"

lemma ex_slots: "0 < registers_max_slots dmc_layout (createRegisterMapping (createTransitionGroups (generator_new inc_module False)))"
  by code_simp

lemma ex_options:
  "getopt llmc_options [''-qs'', ''stdmap'', ''in.ll''] = ([(CHR ''q'', None), (CHR ''s'', Some ''stdmap'')], [''in.ll''])"
  by code_simp

lemma ex_names:
  "pf_extension ex_platform ''in.ll'' = ''ll''" "pf_withExtension ex_platform ''in.ll'' e = ''in.'' @ e"
  by (simp_all add: ex_platform_def)

lemma ex_translate:
  obtains g mt where "pinsify_stages dmc_layout (generator_new inc_module False) = Ok (g, mt)"
    and "pinsify ex_platform dmc_layout ex_files (generator_new inc_module False) n = Ok ((g, mt), True, n)"
proof -
  obtain mt where "generateTypes (registers_max_slots dmc_layout
      (createRegisterMapping (createTransitionGroups (generator_new inc_module False)))) = Ok mt"
    by (rule generateTypes_eq [OF ex_slots])
  then obtain g where stages: "pinsify_stages dmc_layout (generator_new inc_module False) = Ok (g, mt)"
    by (simp add: pinsify_stages_def)
  moreover have "loadModule ex_platform ex_files name = Ok ()"
    if "name \<in> {''libllmcos.ll'', ''libllmcvm.ll'', ''libdmccapi.ll''}" for name
    using that by (auto simp: loadModule_def ex_platform_def ex_files_def)
  ultimately show thesis
    using that by (simp add: pinsify_def load_internal_modules_def) (simp add: ex_platform_def)
qed

lemma ex_platform_simps:
  "pf_readable ex_platform fs f \<longleftrightarrow> map_of fs f \<noteq> None" "\<not> pf_isDir ex_platform fs f" "pf_exists ex_platform fs f \<longleftrightarrow> map_of fs f \<noteq> None"
  "pf_canCreateOrModify ex_platform fs f" "pf_realPath ex_platform fs f = f" "pf_fix ex_platform fs f = f"
  "pf_getErrors ex_platform n = n" "pf_remove ex_platform f fs = filter (\<lambda>p. fst p \<noteq> f) fs"
  "pf_writeTo ex_platform model f fs = (f, ''model'') # fs"
  "pf_loadIR ex_platform ex_files ''in.ll'' = Inr inc_module"
  "pf_system ex_platform (CHR ''l'' # c) d fs = (''in.dmc.o'', ''object'') # fs"
  "pf_system ex_platform (CHR ''g'' # c) d fs = fs"
  "findBinary ex_platform fs ''llc'' bo = ((''llc'', snd bo), False)" "findBinary ex_platform fs ''gcc'' bo = ((''gcc'', snd bo), False)"
  "findBinary ex_platform fs ''dot'' bo = ((''dot'', snd bo), False)"
  by (simp_all add: ex_platform_def ex_files_def findBinary_def)

lemma ex_explores:
  "build_and_explore ex_platform ex_settings dmc_layout ''llc'' ''gcc'' ''in.ll'' s (ex_files, 0)
    = Ok (Explore ''in.so'' (go ex_settings s) ((''in.dmc.o'', ''object'') # (''in.dmc.ll'', ''model'') # ex_files))"
proof -
  obtain g mt where p: "pinsify ex_platform dmc_layout ex_files (generator_new inc_module False) 0 = Ok ((g, mt), True, 0)"
    by (rule ex_translate)
  have "filter (\<lambda>p. fst p \<noteq> ''in.dmc.o'') ex_files = ex_files" "map_of ex_files ''in.ll'' = Some ''program''"
    "map_of ex_files ''in.so'' = Some ''old''"
    by (simp_all add: ex_files_def)
  with p show ?thesis
    by (simp add: build_and_explore_def ll2dmc_init_def ll2dmc_translate_def compile_def link_def ex_names ex_platform_simps
        ex_settings_def Let_def)
qed


lemma ex_argument: "pf_getArgument ex_platform [''-qs'', ''stdmap'', ''in.ll''] (Suc (Suc (Suc 0))) = ''in.ll''"
  by (simp add: ex_platform_def)

lemma ex_main:
  "llmc_main ex_platform ex_settings dmc_layout (\<lambda>_. []) [''-qs'', ''stdmap'', ''in.ll''] (ex_files, 0)
    = Ok (Explore ''in.so'' (Inr (MultiCoreModelChecker, StdMap, VoidPrinter))
        ((''in.dmc.o'', ''object'') # (''in.dmc.ll'', ''model'') # ex_files))"
proof -
  let ?s = "\<lambda>k. if k = ''storage'' then ''stdmap'' else if k = ''mc'' then ''multicore_bitbetter'' else []"
  have "handle_options ex_settings [(CHR ''q'', None), (CHR ''s'', Some ''stdmap'')] (cli_defaults ex_settings (\<lambda>_. []))
    = Ok \<lparr>cl_settings = ?s, cl_verbosity = - 1, cl_doPrintHelp = False, cl_doPrintVersion = False, cl_colored = True\<rparr>"
    by (auto simp: handle_option_def cli_defaults_def ex_settings_def)
  moreover have "go ex_settings ?s = Inr (MultiCoreModelChecker, StdMap, VoidPrinter)"
    by (simp add: go_def goSelectStorage_def goSelectPrinter_def ex_settings_def)
  ultimately show ?thesis
    by (simp add: llmc_main_def parse_options_def ex_options ex_platform_simps ex_explores ex_argument Let_def
        del: getopt.simps handle_options.simps)
qed

theorem explored_after_build_witness:
  "\<exists>g mt fs cc o'. pinsify_stages dmc_layout (generator_new inc_module False) = Ok (g, mt)
    \<and> compile ex_platform ''llc'' ''in.dmc.ll'' ''in.dmc.o''
        (pf_remove ex_platform ''in.dmc.o'' (pf_writeTo ex_platform (g, mt) ''in.dmc.ll'' ex_files)) = (False, fs)
    \<and> link ex_platform cc ''in.dmc.o'' ''in.so'' (fs, 0)
        = (False, (''in.dmc.o'', ''object'') # (''in.dmc.ll'', ''model'') # ex_files, o')"
proof -
  have "\<not> sub_is_on ex_settings sec key s" for sec key s
    by (simp add: ex_settings_def)
  with explored_after_build [OF ex_main] show ?thesis
    by (auto simp: parse_options_def ex_options outcome_simps ex_argument ex_platform_simps ex_names Let_def
        simp del: getopt.simps handle_options.simps)
qed

theorem stale_library_explored_witness:
  "\<exists>fs. build_and_explore ex_platform ex_settings dmc_layout ''llc'' ''gcc'' ''in.ll'' (\<lambda>_. ''none'') (ex_files, 0)
    = Ok (Explore ''in.so'' (Inl ''No such model checker: none'') fs) \<and> map_of fs ''in.so'' = Some ''old''"
proof -
  let ?fs = "(''in.dmc.o'', ''object'') # (''in.dmc.ll'', ''model'') # ex_files"
  obtain g mt where p: "pinsify ex_platform dmc_layout ex_files (generator_new inc_module False) 0 = Ok ((g, mt), True, 0)"
    by (rule ex_translate)
  have files: "filter (\<lambda>p. fst p \<noteq> ''in.dmc.o'') ex_files = ex_files" "map_of ex_files ''in.ll'' = Some ''program''"
    "map_of ex_files ''in.so'' = Some ''old''"
    by (simp_all add: ex_files_def)
  have "\<not> sub_is_on ex_settings sec key s" and "go ex_settings (\<lambda>_. ''none'') = Inl ''No such model checker: none''" for sec key s
    by (simp_all add: ex_settings_def go_def)
  with stale_library_explored [of ex_platform "''in.ll''" ex_files inc_module dmc_layout ex_settings "\<lambda>_. ''none''" 0 "(g, mt)" 0
      "''llc''" ?fs "''gcc''"] p files
  show ?thesis
    by (simp add: compile_def ex_names ex_platform_simps)
qed

theorem missing_tool_stops_witness:
  "\<forall>so cfg fs'. llmc_main (ex_platform\<lparr>pf_executable := (\<lambda>fs f. f \<noteq> ''dot''), pf_getArgument := (\<lambda>args n. ''in.ll'')\<rparr>) ex_settings dmc_layout
     (\<lambda>_. []) [''in.ll''] (ex_files, 0) \<noteq> Ok (Explore so cfg fs')"
  by (intro allI, rule missing_tool_stops [of _ "''dot''"]) (simp_all add: ex_platform_def)

section \<open>Options without effect\<close>

text \<open>
  \<open>--verbose=x\<close> does not set the verbosity: the comparison is with the whole argument, so the branch that looks for a value
  is never taken, and the argument becomes a setting.
\<close>

lemma strcasecmp_equal_length: "strcasecmp_equal a b \<Longrightarrow> length a = length b"
  unfolding strcasecmp_equal_def by (drule arg_cong [of _ _ length]) simp

lemma verbose_level_ignored:
  "parse_options api s [''--verbose='' @ x] =
     Ok ((cli_defaults api s)\<lparr>cl_settings := insert_key_value api (''verbose='' @ x) (cl_settings (cli_defaults api s))\<rparr>, [])"
proof -
  have "\<not> strcasecmp_equal (''verbose='' @ x) name" if "name \<in> {''help'', ''no-color'', ''color'', ''verbose'', ''version''}" for name
    using that by (auto simp: strcasecmp_equal_def tolower_def Let_def)
  then have "long_option api (''verbose='' @ x) cl = cl\<lparr>cl_settings := insert_key_value api (''verbose='' @ x) (cl_settings cl)\<rparr>" for cl
    unfolding long_option_def by (simp only: insert_iff empty_iff simp_thms if_False)
  moreover have "getopt llmc_options [''--verbose='' @ x] = ([(CHR ''-'', Some (''verbose='' @ x))], [])"
    by (simp add: llmc_options_def)
  ultimately show ?thesis
    by (simp add: parse_options_def handle_option_def)
qed

text \<open>
  ll2dmc takes no options beside its two files: the program stops unless there are exactly two arguments,
  and when they are file names no option is left.
\<close>

lemma ll2dmc_options_unused:
  assumes "hd inputFile \<noteq> CHR ''-''" and "hd outputFile \<noteq> CHR ''-''" and "inputFile \<noteq> []" and "outputFile \<noteq> []"
  shows "ll2dmc_settings api (fst (getopt ll2dmc_options [inputFile, outputFile])) s = s"
proof -
  have "inputFile \<noteq> ''--''" "outputFile \<noteq> ''--''" using assms by auto
  with assms show ?thesis by simp
qed

lemma ll2dmc_extra_arguments: "length args \<noteq> 2 \<Longrightarrow> ll2dmc_main pf api dl s args fo = Ok (0, fst fo)"
  by (simp add: ll2dmc_main_def)

end
