(* ===== verification/Model_Memory.thy ===== *)
theory Model_Memory
  imports Register_File
begin

text \<open>
  The memory of the modelled program (LLDMCModelGenerator.h, StateManager.cpp): every process
  owns one stored byte vector, a model pointer names the owner and an offset into it, loads
  read a part of the owner's vector and stores replace the owner's vector by a modified clone.
\<close>

section \<open>Access, load, store and allocation\<close>

text \<open>The process a pointer selects; the index is cast to 32 bits by the accessor.\<close>

definition owner :: "u64 \<Rightarrow> nat" where
  "owner p = unat (ucast (getCreatorProcessorIDOfPointer p) :: u32)"

definition generateAccessToMemory :: "'s env \<Rightarrow> 's gctx \<Rightarrow> u64 \<Rightarrow> nat \<Rightarrow> bytes outcome" where
  "generateAccessToMemory env gc modelPointer len =
     obind (proc_at (owner modelPointer) (gc_svout gc)) (\<lambda>p.
       of_option BadAccess (getpartB (en_api env) (gc_store gc) (p_m p)
         (unat (getOffsetPartOfPointer modelPointer)) len))"

definition aligned :: "'s env \<Rightarrow> ty \<Rightarrow> nat" where
  "aligned env t = unat (generateAlignedSizeOf (en_dl env) t)"

definition generateLoad :: "'s env \<Rightarrow> 's gctx \<Rightarrow> u64 \<Rightarrow> ty \<Rightarrow> bytes outcome" where
  "generateLoad env gc modelPointer t =
     obind (generateAccessToMemory env gc modelPointer (aligned env t)) (\<lambda>storage.
       Ok (take (dl_store (en_dl env) t) storage))"

definition generateStoreBytes :: "'s env \<Rightarrow> u64 \<Rightarrow> bytes \<Rightarrow> 's gctx \<Rightarrow> 's gctx outcome" where
  "generateStoreBytes env modelPointer d gc =
     obind (proc_at (owner modelPointer) (gc_svout gc)) (\<lambda>p.
       let res = deltaB (en_api env) (gc_store gc) (p_m p)
             (unat (getOffsetPartOfPointer modelPointer)) d
       in Ok (upd_proc (owner modelPointer) (\<lambda>p. p\<lparr>p_m := fst res\<rparr>) (gc\<lparr>gc_store := snd res\<rparr>)))"

text \<open>A typed store writes the value into zeroed storage of the aligned size first.\<close>

definition generateStore :: "'s env \<Rightarrow> u64 \<Rightarrow> bytes \<Rightarrow> ty \<Rightarrow> 's gctx \<Rightarrow> 's gctx outcome" where
  "generateStore env modelPointer v t gc =
     generateStoreBytes env modelPointer (zpad (aligned env t) v) gc"

definition generateAllocateMemory :: "u32 \<Rightarrow> 's gctx \<Rightarrow> (u64 \<times> 's gctx) outcome" where
  "generateAllocateMemory len gc =
     obind (proc_at (gc_thread gc) (gc_svout gc)) (\<lambda>p.
       Ok (makePointer (word_of_nat (gc_thread gc)) (ucast (p_msize p)),
           upd_proc (gc_thread gc) (\<lambda>p. p\<lparr>p_msize := p_msize p + len\<rparr>) gc))"

definition store_result :: "'s env \<Rightarrow> val \<Rightarrow> bytes \<Rightarrow> 's gctx \<Rightarrow> 's gctx outcome" where
  "store_result env I v gc = obind (vReg env I) (\<lambda>(off, t). store_reg off v gc)"

definition generateNextStateForLoad :: "'s env \<Rightarrow> val \<Rightarrow> ty \<Rightarrow> val \<Rightarrow> 's gctx \<Rightarrow> 's gctx outcome" where
  "generateNextStateForLoad env I t ptr gc =
     obind (vGetMemOffset env gc ptr) (\<lambda>modelPtr.
     obind (generateLoad env gc modelPtr t) (\<lambda>loadedValue.
       store_result env I loadedValue gc))"

definition generateNextStateForStore :: "'s env \<Rightarrow> val \<Rightarrow> ty \<Rightarrow> val \<Rightarrow> 's gctx \<Rightarrow> 's gctx outcome" where
  "generateNextStateForStore env value t ptr gc =
     obind (vGetMemOffset env gc ptr) (\<lambda>modelPtr.
     obind (vMap env gc value) (\<lambda>mappedValue.
       generateStore env modelPtr mappedValue t gc))"

definition generateNextStateForAlloca :: "'s env \<Rightarrow> val \<Rightarrow> ty \<Rightarrow> 's gctx \<Rightarrow> 's gctx outcome" where
  "generateNextStateForAlloca env I allocated gc =
     obind (generateAllocateMemory (generateAlignedSizeOf (en_dl env) allocated) gc) (\<lambda>(ptr, gc').
       store_result env I (bytes_u64 ptr) gc')"

text \<open>\<open>vMapPointer\<close>: the address of a model pointer inside a loaded copy of the memory; only
  the low 24 bits of the pointer count.\<close>

definition vMapPointer :: "'s env \<Rightarrow> 's gctx \<Rightarrow> u64 \<Rightarrow> val \<Rightarrow> u64 outcome" where
  "vMapPointer env gc sv_memorydata v =
     obind (vMap env gc v) (\<lambda>bs. Ok (and (u64_of bs) (2 ^ 24 - 1) + sv_memorydata))"

section \<open>Pointers\<close>

lemma mask_56: "(0xFFFFFFFFFFFFFF :: u64) = mask 56"
  by (simp add: mask_eq_exp_minus_1)

lemma take_bit_eq_self_u64: "unat (x :: u64) < 2 ^ n \<Longrightarrow> take_bit n x = x"
  by (metis take_bit_nat_eq_self_iff unsigned_take_bit_eq word_unat_eq_iff)

lemma drop_bit_eq_0_u64: "unat (x :: u64) < 2 ^ n \<Longrightarrow> drop_bit n x = 0"
  by (metis div_eq_0_iff drop_bit_eq_div unat_0 unsigned_drop_bit_eq word_unat_eq_iff power_not_zero
      take_bit_eq_self_u64 drop_bit_take_bit diff_self_eq_0 take_bit_0)

lemma drop_push_56: "drop_bit 56 (push_bit 56 (w :: u64)) = take_bit 8 w"
  by (rule bit_word_eqI) (auto simp: bit_simps)

lemma makePointer_parts:
  assumes "unat pid < 255" and "unat off < 2 ^ 56"
  shows "getCreatorProcessorIDOfPointer (makePointer pid off) = pid"
    and "getOffsetPartOfPointer (makePointer pid off) = off"
proof -
  have "unat (pid + 1) < 2 ^ 8"
    using assms(1) by (simp add: unat_word_ariths)
  then have "drop_bit 56 (push_bit 56 (pid + 1)) = pid + 1"
    using take_bit_eq_self_u64 [of "pid + 1" 8] drop_push_56 [of "pid + 1"] by simp
  then show "getCreatorProcessorIDOfPointer (makePointer pid off) = pid"
    using drop_bit_eq_0_u64 [OF assms(2)]
    by (simp add: getCreatorProcessorIDOfPointer_def makePointer_def)
  have "take_bit 56 (push_bit 56 (pid + 1)) = 0"
    by (simp add: take_bit_push_bit)
  then show "getOffsetPartOfPointer (makePointer pid off) = off"
    using take_bit_eq_self_u64 [OF assms(2)]
    by (simp add: getOffsetPartOfPointer_def makePointer_def mask_56 flip: take_bit_eq_mask)
qed

text \<open>
  A pointer made for a process and an offset gives both back, for every process number
  below 255 and every offset below \<open>2 ^ 56\<close>.
\<close>

lemma makePointer_roundtrip:
  assumes "unat pid < 255" and "unat off < 2 ^ 56"
  shows "getCreatorProcessorIDOfPointer (makePointer pid off) = pid
    \<and> getOffsetPartOfPointer (makePointer pid off) = off"
  using makePointer_parts [OF assms] by simp

lemma makePointer_roundtrip_witness:
  "getOffsetPartOfPointer (makePointer 5 1024) = 1024"
  using makePointer_roundtrip [of 5 1024] by simp

lemma owner_makePointer:
  assumes "t < 255" and "unat off < 2 ^ 56"
  shows "owner (makePointer (word_of_nat t) off) = t"
    and "getOffsetPartOfPointer (makePointer (word_of_nat t) off) = off"
proof -
  have "unat (word_of_nat t :: u64) = t"
    using assms(1) by (simp add: unat_of_nat)
  with makePointer_parts [of "word_of_nat t" off] assms
  show "owner (makePointer (word_of_nat t) off) = t"
    and "getOffsetPartOfPointer (makePointer (word_of_nat t) off) = off"
    by (simp_all add: owner_def)
qed

lemma owner_null: "owner 0 = 2 ^ 32 - 1"
proof -
  have "unat (ucast (- 1 :: u64) :: u32) = 2 ^ 32 - 1"
    by (simp add: unsigned_ucast_eq unsigned_minus_1_eq_mask mask_eq_exp_minus_1)
  then show ?thesis
    by (simp add: owner_def getCreatorProcessorIDOfPointer_def)
qed

section \<open>What loads see after stores\<close>

abbreviation mem :: "'s gctx \<Rightarrow> nat \<Rightarrow> u64" where
  "mem gc t \<equiv> p_m (sv_processes (gc_svout gc) ! t)"

abbreviation offset :: "u64 \<Rightarrow> nat" where
  "offset p \<equiv> unat (getOffsetPartOfPointer p)"

abbreviation threads :: "'s gctx \<Rightarrow> nat" where
  "threads gc \<equiv> length (sv_processes (gc_svout gc))"

lemma generateStoreBytes_Ok:
  assumes "owner p < threads gc" and "deltaB (en_api env) (gc_store gc) (mem gc (owner p)) (offset p) d = (i, s')"
  shows "generateStoreBytes env p d gc =
    Ok (upd_proc (owner p) (\<lambda>q. q\<lparr>p_m := i\<rparr>) (gc\<lparr>gc_store := s'\<rparr>))"
  using assms by (simp add: generateStoreBytes_def proc_at_def)

lemma gc_store_upd [simp]:
  "gc_svout (gc\<lparr>gc_store := s\<rparr>) = gc_svout gc" "gc_src (gc\<lparr>gc_store := s\<rparr>) = gc_src gc"
  "gc_thread (gc\<lparr>gc_store := s\<rparr>) = gc_thread gc" "gc_store (gc\<lparr>gc_store := s\<rparr>) = s"
  by simp_all

lemma generateAccessToMemory_eq:
  "owner p < threads gc \<Longrightarrow> generateAccessToMemory env gc p n =
     of_option BadAccess (getpartB (en_api env) (gc_store gc) (mem gc (owner p)) (offset p) n)"
  by (simp add: generateAccessToMemory_def proc_at_def)

text \<open>
  The client of the storage interface: memory accesses over any provider of the contract.
\<close>

context delta_store begin

lemma access_after_store:
  assumes "en_api env = api" and "inv (gc_store gc)" and "room (Suc k) (gc_store gc)"
    and "owner p < threads gc" and "content (gc_store gc) (mem gc (owner p)) = Some x"
  obtains gc' where "generateStoreBytes env p d gc = Ok gc'"
    and "generateAccessToMemory env gc' p (length d) = Ok d"
    and "inv (gc_store gc')" and "room k (gc_store gc')"
    and "\<And>q n y. owner q < threads gc \<Longrightarrow> content (gc_store gc) (mem gc (owner q)) = Some y \<Longrightarrow>
      offset q + n \<le> length y \<Longrightarrow>
      owner q \<noteq> owner p \<or> offset q + n \<le> offset p \<or> offset p + length d \<le> offset q \<Longrightarrow>
      generateAccessToMemory env gc' q n = generateAccessToMemory env gc q n"
    and "\<And>t. t < threads gc \<Longrightarrow> sv_processes (gc_svout gc') ! t
      = (if t = owner p then (sv_processes (gc_svout gc) ! t)\<lparr>p_m := mem gc' t\<rparr>
         else sv_processes (gc_svout gc) ! t)"
    and "threads gc' = threads gc"
proof -
  obtain i s' where d: "deltaB api (gc_store gc) (mem gc (owner p)) (offset p) d = (i, s')"
    by (metis prod.exhaust)
  let ?gc = "upd_proc (owner p) (\<lambda>q. q\<lparr>p_m := i\<rparr>) (gc\<lparr>gc_store := s'\<rparr>)"
  show thesis
  proof (rule that [of ?gc])
    show "generateStoreBytes env p d gc = Ok ?gc"
      using generateStoreBytes_Ok [OF assms(4)] d assms(1) by simp
    show "generateAccessToMemory env ?gc p (length d) = Ok d"
      using getpart_delta_same [OF assms(2,3,5) d] assms(1,4)
      by (simp add: generateAccessToMemory_eq of_option_def)
    show "inv (gc_store ?gc)" "room k (gc_store ?gc)"
      using delta_inv [OF assms(2,3,5), of "offset p" d] delta_room [OF assms(2,3,5), of "offset p" d] d
      by simp_all
    show "threads ?gc = threads gc"
      by simp
    show "sv_processes (gc_svout ?gc) ! t
      = (if t = owner p then (sv_processes (gc_svout gc) ! t)\<lparr>p_m := mem ?gc t\<rparr>
         else sv_processes (gc_svout gc) ! t)" if "t < threads gc" for t
      using that by simp
    show "generateAccessToMemory env ?gc q n = generateAccessToMemory env gc q n"
      if q: "owner q < threads gc" "content (gc_store gc) (mem gc (owner q)) = Some y"
        "offset q + n \<le> length y"
        "owner q \<noteq> owner p \<or> offset q + n \<le> offset p \<or> offset p + length d \<le> offset q" for q n y
    proof -
      have old: "getpartB api (gc_store gc) (mem gc (owner q)) (offset q) n
          = Some (bytes_at (offset q) n y)"
        using getpart [OF assms(2) q(2,3)] .
      show ?thesis
      proof (cases "owner q = owner p")
        case True
        with q getpart_delta_disjoint [OF assms(2,3,5) d] old assms(1,4,5) show ?thesis
          by (simp add: generateAccessToMemory_eq)
      next
        case False
        have "content s' (mem gc (owner q)) = Some y" "inv s'"
          using delta_frame [OF assms(2,3,5) q(2), of "offset p" d]
            delta_inv [OF assms(2,3,5), of "offset p" d] d by simp_all
        with False q old assms(1) show ?thesis
          by (simp add: generateAccessToMemory_eq getpart)
      qed
    qed
  qed
qed

end

section \<open>Properties\<close>

lemma aligned_take_zpad: "take (length v) (zpad n v) = v"
  by (simp add: zpad_def)

text \<open>
  C18: over any storage that keeps the contract, a typed store through a pointer to a process
  with stored memory succeeds, and loading the type through the same pointer then gives the
  stored value, for every value of the type's store size, wherever the access lies in or
  beyond the memory.
\<close>

theorem load_after_store:
  assumes "delta_store (en_api env) sinv room content"
    and "sinv (gc_store gc)" and "room (Suc k) (gc_store gc)" and "owner p < threads gc"
    and "content (gc_store gc) (mem gc (owner p)) = Some x"
    and "length v = dl_store (en_dl env) t" and "dl_store (en_dl env) t \<le> aligned env t"
  shows "\<exists>gc'. generateStore env p v t gc = Ok gc' \<and> generateLoad env gc' p t = Ok v"
proof -
  obtain gc' where "generateStoreBytes env p (zpad (aligned env t) v) gc = Ok gc'"
    "generateAccessToMemory env gc' p (length (zpad (aligned env t) v)) = Ok (zpad (aligned env t) v)"
    using delta_store.access_after_store [OF assms(1) refl assms(2-5)] by metis
  moreover have "length (zpad (aligned env t) v) = aligned env t"
    using assms(6,7) by simp
  ultimately show ?thesis
    using aligned_take_zpad [of v "aligned env t"] unfolding assms(6)
    by (simp add: generateStore_def generateLoad_def)
qed

text \<open>
  C19: a store through one pointer changes nothing else: only the memory field of the owning
  process differs afterwards, and every access to another process or to a range of the same
  memory that does not meet the written one reads what it read before.
\<close>

theorem store_isolation:
  assumes "delta_store (en_api env) sinv room content"
    and "sinv (gc_store gc)" and "room (Suc k) (gc_store gc)" and "owner p < threads gc"
    and "content (gc_store gc) (mem gc (owner p)) = Some x"
    and "generateStoreBytes env p d gc = Ok gc'"
    and "owner q < threads gc" and "content (gc_store gc) (mem gc (owner q)) = Some y"
    and "offset q + n \<le> length y"
    and "owner q \<noteq> owner p \<or> offset q + n \<le> offset p \<or> offset p + length d \<le> offset q"
  shows "generateAccessToMemory env gc' q n = generateAccessToMemory env gc q n
    \<and> (\<forall>u < threads gc. u \<noteq> owner p \<longrightarrow> sv_processes (gc_svout gc') ! u = sv_processes (gc_svout gc) ! u)
    \<and> sv_processes (gc_svout gc') ! owner p
        = (sv_processes (gc_svout gc) ! owner p)\<lparr>p_m := mem gc' (owner p)\<rparr>"
proof (rule delta_store.access_after_store [OF assms(1) refl assms(2-5), of d], goal_cases)
  case (1 g)
  have "g = gc'"
    using 1(1) assms(6) by simp
  have "\<forall>u < threads gc. u \<noteq> owner p \<longrightarrow> sv_processes (gc_svout g) ! u = sv_processes (gc_svout gc) ! u"
    using 1(6) by presburger
  moreover have "sv_processes (gc_svout g) ! owner p
      = (sv_processes (gc_svout gc) ! owner p)\<lparr>p_m := mem g (owner p)\<rparr>"
    using 1(6) [OF assms(4)] by presburger
  ultimately show ?case
    using 1(5) [OF assms(7-10)] unfolding \<open>g = gc'\<close> by blast
qed

text \<open>
  C20: allocations of one process never overlap: when two consecutive allocations keep the
  32-bit memory size from wrapping, the first block ends before the second one starts, and
  both pointers name the allocating process.
\<close>

theorem allocations_disjoint:
  assumes "gc_thread gc < threads gc" and "threads gc \<le> MAX_THREADS"
    and "unat (p_msize (sv_processes (gc_svout gc) ! gc_thread gc)) + unat n1 + unat n2 < 2 ^ 32"
    and "generateAllocateMemory n1 gc = Ok (p1, gc1)" and "generateAllocateMemory n2 gc1 = Ok (p2, gc2)"
  shows "offset p1 + unat n1 = offset p2 \<and> owner p1 = gc_thread gc \<and> owner p2 = gc_thread gc
    \<and> unat (p_msize (sv_processes (gc_svout gc2) ! gc_thread gc)) = offset p2 + unat n2"
proof -
  let ?m = "p_msize (sv_processes (gc_svout gc) ! gc_thread gc)"
  have e1: "p1 = makePointer (word_of_nat (gc_thread gc)) (ucast ?m)"
    "gc1 = upd_proc (gc_thread gc) (\<lambda>p. p\<lparr>p_msize := p_msize p + n1\<rparr>) gc"
    using assms(1,4) by (auto simp: generateAllocateMemory_def proc_at_def)
  have e2: "p2 = makePointer (word_of_nat (gc_thread gc)) (ucast (?m + n1))"
    "gc2 = upd_proc (gc_thread gc) (\<lambda>p. p\<lparr>p_msize := p_msize p + n2\<rparr>) gc1"
    using assms(1,5) by (auto simp: generateAllocateMemory_def proc_at_def e1)
  have u1: "unat (?m + n1) = unat ?m + unat n1"
    using assms(3) by (simp add: unat_word_ariths)
  then have u2: "unat (?m + n1 + n2) = unat ?m + unat n1 + unat n2"
    using assms(3) by (simp add: unat_word_ariths)
  have "unat (ucast w :: u64) < 2 ^ 56" for w :: u32
    using unat_less_power [of w] by simp
  then have "owner (makePointer (word_of_nat (gc_thread gc)) (ucast w)) = gc_thread gc
      \<and> offset (makePointer (word_of_nat (gc_thread gc)) (ucast w)) = unat w" for w :: u32
    using owner_makePointer [of "gc_thread gc" "ucast w"] assms(1,2) by simp
  then show ?thesis
    using u1 u2 assms(1) by (simp add: e1 e2)
qed

text \<open>An access through the null pointer is outside every process and fails.\<close>

lemma null_pointer_access:
  "sv_processes (gc_svout gc) = ps \<Longrightarrow> length ps = MAX_THREADS \<Longrightarrow>
     generateAccessToMemory env gc 0 n = Fail BadAccess \<and> generateStoreBytes env 0 d gc = Fail BadAccess"
  using owner_null by (simp add: generateAccessToMemory_def generateStoreBytes_def proc_at_def)

section \<open>The properties at a concrete store\<close>

lemma ex_memory:
  "owner 0x0100000000000000 = 0" "offset 0x0100000000000000 = 0" "offset 0x0100000000000004 = 4"
  "owner 0x0100000000000004 = 0" "mem ex_ctx 0 = fst ex_db" "aligned ex_env (IntTy 32) = 4"
  "dl_store dmc_layout (IntTy 32) = 4"
proof -
  have p: "makePointer (word_of_nat 0) 0 = 0x0100000000000000"
    "makePointer (word_of_nat 0) 4 = 0x0100000000000004"
    by (simp_all add: makePointer_def push_bit_eq_mult)
  show "owner 0x0100000000000000 = 0" "offset 0x0100000000000000 = 0" "offset 0x0100000000000004 = 4"
    "owner 0x0100000000000004 = 0"
    using owner_makePointer [of 0 0] owner_makePointer [of 0 4] unfolding p by simp_all
  show "mem ex_ctx 0 = fst ex_db"
    by (simp add: ex_process_def)
  show "aligned ex_env (IntTy 32) = 4" "dl_store dmc_layout (IntTy 32) = 4"
    by (simp_all add: aligned_def generateAlignedSizeOf_def dmc_layout_def round_up_def)
qed

theorem load_after_store_witness:
  "\<exists>gc'. generateStore ex_env 0x0100000000000000 [9, 8, 7, 6] (IntTy 32) ex_ctx = Ok gc'
    \<and> generateLoad ex_env gc' 0x0100000000000000 (IntTy 32) = Ok [9, 8, 7, 6]"
  using load_after_store [of ex_env "ssgen_inv 3" "ssgen_room 3" "ssgen_content 3" ex_ctx 1000
      "0x0100000000000000" "[1, 2, 3, 4, 5, 6, 7, 8]" "[9, 8, 7, 6]" "IntTy 32"]
    ssgen.delta_store_axioms [of "\<lambda>_. 0" 3] ex_store ex_memory by simp

theorem store_isolation_witness:
  "\<exists>gc'. generateStoreBytes ex_env 0x0100000000000000 [9, 8, 7, 6] ex_ctx = Ok gc'
    \<and> generateAccessToMemory ex_env gc' 0x0100000000000004 4
        = generateAccessToMemory ex_env ex_ctx 0x0100000000000004 4"
proof -
  let ?p = "0x0100000000000000 :: u64"
  obtain i s' where "deltaB (en_api ex_env) (gc_store ex_ctx) (mem ex_ctx (owner ?p)) (offset ?p) [9, 8, 7, 6] = (i, s')"
    by (metis prod.exhaust)
  then obtain gc' where gc': "generateStoreBytes ex_env ?p [9, 8, 7, 6] ex_ctx = Ok gc'"
    using generateStoreBytes_Ok [of ?p ex_ctx ex_env "[9, 8, 7, 6]" i s'] ex_memory by auto
  with store_isolation [of ex_env "ssgen_inv 3" "ssgen_room 3" "ssgen_content 3" ex_ctx 1000 ?p
      "[1, 2, 3, 4, 5, 6, 7, 8]" "[9, 8, 7, 6]" gc' "0x0100000000000004" "[1, 2, 3, 4, 5, 6, 7, 8]" 4]
    ssgen.delta_store_axioms [of "\<lambda>_. 0" 3] ex_store ex_memory
  show ?thesis by simp
qed

theorem allocations_disjoint_witness:
  "\<exists>p1 gc1 p2 gc2. generateAllocateMemory 16 ex_ctx = Ok (p1, gc1)
    \<and> generateAllocateMemory 4 gc1 = Ok (p2, gc2) \<and> offset p1 + 16 = offset p2"
proof -
  obtain p1 gc1 where 1: "generateAllocateMemory 16 ex_ctx = Ok (p1, gc1)" "threads gc1 = 6" "gc_thread gc1 = 0"
    by (simp add: generateAllocateMemory_def proc_at_def)
  obtain p2 gc2 where 2: "generateAllocateMemory 4 gc1 = Ok (p2, gc2)"
    using 1(2,3) by (simp add: generateAllocateMemory_def proc_at_def)
  with 1 allocations_disjoint [of ex_ctx 16 4 p1 gc1 p2 gc2] show ?thesis
    by (simp add: ex_process_def)
qed

lemma null_pointer_access_witness:
  "generateAccessToMemory ex_env ex_ctx 0 4 = Fail BadAccess"
  using null_pointer_access [of ex_ctx "sv_processes ex_sv" ex_env 4 "[]"] by simp

end
