(* ===== verification/Sized_Store.thy ===== *)
theory Sized_Store
  imports Register_File
begin

text \<open>
  A provider of the storage contract whose identifiers carry the length of their vector in
  bytes above bit 40, as the generated code reads them (\<open>StateManager::getLength\<close>,
  \<open>getLengthOfStateID\<close>).  It puts the length on top of the identifiers of any provider whose
  own identifiers stay below \<open>2 ^ 40\<close>; the chunk store of ssgen is such a provider.
\<close>

definition tag_id :: "nat \<Rightarrow> u64 \<Rightarrow> u64" where
  "tag_id n i = or (push_bit 40 (word_of_nat n)) i"

definition bare_id :: "u64 \<Rightarrow> u64" where
  "bare_id i = take_bit 40 i"

definition sized_api :: "'s dmc_api \<Rightarrow> ('s \<Rightarrow> u64 \<Rightarrow> bytes option) \<Rightarrow> 's dmc_api" where
  "sized_api api content =
     \<lparr>insertB = (\<lambda>s d. let res = insertB api s d in (tag_id (length d) (fst res), snd res)),
      deltaB = (\<lambda>s i off d.
        let res = deltaB api s (bare_id i) off d;
            n = (case content (snd res) (fst res) of Some x \<Rightarrow> length x | None \<Rightarrow> 0)
        in (tag_id n (fst res), snd res)),
      getB = (\<lambda>s i. getB api s (bare_id i)),
      getpartB = (\<lambda>s i. getpartB api s (bare_id i))\<rparr>"

definition sized_content :: "('s \<Rightarrow> u64 \<Rightarrow> bytes option) \<Rightarrow> 's \<Rightarrow> u64 \<Rightarrow> bytes option" where
  "sized_content content s i = content s (bare_id i)"

lemma bare_tag_id: "unat i < 2 ^ 40 \<Longrightarrow> bare_id (tag_id n i) = i"
proof -
  assume "unat i < 2 ^ 40"
  then have "take_bit 40 i = i"
    by (metis take_bit_nat_eq_self_iff unsigned_take_bit_eq word_unat_eq_iff)
  moreover have "take_bit 40 (push_bit 40 (word_of_nat n :: u64)) = 0"
    by (simp add: take_bit_push_bit)
  ultimately show ?thesis
    by (simp add: bare_id_def tag_id_def)
qed

lemma drop_bit_tag_id:
  assumes "unat i < 2 ^ 40" and "n < 2 ^ 24"
  shows "unat (drop_bit 40 (tag_id n i)) = n"
proof -
  have "take_bit 40 i = i"
    using assms(1) by (metis take_bit_nat_eq_self_iff unsigned_take_bit_eq word_unat_eq_iff)
  then have "drop_bit 40 i = 0"
    by (metis drop_bit_take_bit diff_self_eq_0 take_bit_0)
  moreover have "drop_bit 40 (push_bit 40 (word_of_nat n :: u64)) = take_bit 24 (word_of_nat n)"
    by (rule bit_word_eqI) (auto simp: bit_simps)
  moreover have "unat (take_bit 24 (word_of_nat n :: u64)) = n"
    using assms(2) by (simp add: unsigned_take_bit_eq unat_of_nat take_bit_nat_eq_self_iff)
  ultimately show ?thesis
    by (simp add: tag_id_def)
qed

lemma tag_id_nonzero: "unat i < 2 ^ 40 \<Longrightarrow> i \<noteq> 0 \<Longrightarrow> tag_id n i \<noteq> 0"
  using bare_tag_id [of i n] by (auto simp: bare_id_def)

text \<open>The generated code relies on this: an inserted vector's identifier gives its length.\<close>

definition ids_carry_length ::
  "'s dmc_api \<Rightarrow> ('s \<Rightarrow> bool) \<Rightarrow> (nat \<Rightarrow> 's \<Rightarrow> bool) \<Rightarrow> bool" where
  "ids_carry_length api sinv room \<longleftrightarrow>
     (\<forall>s n d. sinv s \<longrightarrow> room (Suc n) s \<longrightarrow> length d < 2 ^ 24 \<longrightarrow> getLength (fst (insertB api s d)) = length d)"

context delta_store begin

lemma sized_delta_store:
  assumes small: "\<And>s i x. inv s \<Longrightarrow> content s i = Some x \<Longrightarrow> unat i < 2 ^ 40"
  shows "delta_store (sized_api api content) inv room (sized_content content)"
proof -
  have ins: "unat (fst (insertB api s d)) < 2 ^ 40" if "inv s" "room (Suc n) s" for s n d
    using small [OF insert_inv [OF that] insert_content [OF that]] .
  have del: "unat (fst (deltaB api s i off d)) < 2 ^ 40"
    if "inv s" "room (Suc n) s" "content s i = Some x" for s n i x off d
  proof (cases "off + length d \<le> length x")
    case True
    show ?thesis
      by (rule small [OF delta_inv [OF that] delta_inside [OF that True]])
  next
    case False
    then show ?thesis
      using delta_extend [OF that, of off d] small [OF delta_inv [OF that]] by force
  qed
  note defs = sized_api_def sized_content_def Let_def
  show ?thesis
  proof (unfold_locales, goal_cases)
    case (1 s i x) then show ?case by (simp add: defs get)
  next
    case (2 s i x off n) then show ?case by (simp add: defs getpart)
  next
    case (3 s n d) then show ?case by (simp add: defs insert_inv)
  next
    case (4 s n d) then show ?case by (simp add: defs insert_room)
  next
    case (5 s n d) then show ?case using insert_content ins by (simp add: defs bare_tag_id)
  next
    case (6 s n d) then show ?case using insert_nonzero ins by (simp add: defs tag_id_nonzero)
  next
    case (7 s n i x d) then show ?case by (simp add: defs insert_frame)
  next
    case (8 s n i x off d) then show ?case by (simp add: defs delta_inv)
  next
    case (9 s n i x off d) then show ?case by (simp add: defs delta_room)
  next
    case (10 s n i x off d)
    then show ?case
      using delta_nonzero [of s n "bare_id i" x off d] del [of s n "bare_id i" x off d]
      by (simp add: defs tag_id_nonzero)
  next
    case (11 s n i x j y off d) then show ?case by (simp add: defs delta_frame)
  next
    case (12 s n i x off d)
    then show ?case
      using delta_inside [of s n "bare_id i" x off d] del [of s n "bare_id i" x off d]
      by (simp add: defs bare_tag_id)
  next
    case (13 s n i x off d)
    then show ?case
      using delta_extend [of s n "bare_id i" x off d] del [of s n "bare_id i" x off d]
      by (simp add: defs bare_tag_id)
  qed
qed

end

lemma ssgen_content_small: "ssgen_inv type s \<Longrightarrow> ssgen_content type s i = Some x \<Longrightarrow> unat i < 2 ^ 40"
  by (auto simp: ssgen_inv_def ssgen_content_def split: if_splits)

text \<open>The sized chunk store.\<close>

interpretation sized_ssgen: delta_store "sized_api (ssgen_api junk type) (ssgen_content type)"
  "ssgen_inv type" "ssgen_room type" "sized_content (ssgen_content type)" for junk type
  by (rule ssgen.sized_delta_store) (rule ssgen_content_small)

lemma sized_ssgen_ids:
  "ids_carry_length (sized_api (ssgen_api junk type) (ssgen_content type)) (ssgen_inv type) (ssgen_room type)"
  unfolding ids_carry_length_def getLength_def
proof (intro allI impI)
  fix s n and d :: bytes
  assume a: "ssgen_inv type s" "ssgen_room type (Suc n) s" "length d < 2 ^ 24"
  have "unat (fst (insertB (ssgen_api junk type) s d)) < 2 ^ 40"
    using ssgen_content_small [OF ssgen.insert_inv [OF a(1,2)] ssgen.insert_content [OF a(1,2)]] .
  with a(3) show "unat (drop_bit 40 (fst (insertB (sized_api (ssgen_api junk type) (ssgen_content type)) s d)))
      = length d"
    by (simp add: sized_api_def Let_def drop_bit_tag_id)
qed

section \<open>The identifier 0\<close>

text \<open>
  The list of thread results has the identifier 0 until the first thread ends with a result, and that thread
  modifies the vector with this identifier.  So the generated code takes 0 to be the empty vector.  The chunk store
  of ssgen has no vector 0: its slot 0 is the null pointer, and \<open>TypeStore::find\<close> asserts.
\<close>

lemma ssgen_cam_zero:
  assumes "tree_store_inv db" and "type + 1 < length db"
  shows "ssgen_st_pins_chunk_cam junk type 0 off d db = Fail Assertion"
proof -
  have "type_store_inv (db ! (type + 1))"
    using assms by (simp add: tree_store_inv_def list_all_length)
  then have "ts_refs (db ! (type + 1)) = None # map Some (ts_set (db ! (type + 1)))"
    by (simp add: type_store_inv_def)
  with assms(2) show ?thesis
    by (simp add: ssgen_st_pins_chunk_cam_def tree_store_find_def type_store_find_def of_option_def)
qed

text \<open>A provider in which 0 is the empty vector, on top of any other.\<close>

definition zero_api :: "'s dmc_api \<Rightarrow> 's dmc_api" where
  "zero_api api =
     \<lparr>insertB = insertB api,
      deltaB = (\<lambda>s i off d. if i = 0 then insertB api s (replicate off 0 @ d) else deltaB api s i off d),
      getB = (\<lambda>s i. if i = 0 then Some [] else getB api s i),
      getpartB = (\<lambda>s i off n. if i = 0 then (if off + n = 0 then Some [] else None) else getpartB api s i off n)\<rparr>"

definition zero_content :: "('s \<Rightarrow> u64 \<Rightarrow> bytes option) \<Rightarrow> 's \<Rightarrow> u64 \<Rightarrow> bytes option" where
  "zero_content content s i = (if i = 0 then Some [] else content s i)"

context delta_store begin

lemma zero_delta_store: "delta_store (zero_api api) inv room (zero_content content)"
proof -
  note defs = zero_api_def zero_content_def
  show ?thesis
  proof (unfold_locales, goal_cases)
    case (1 s i x) then show ?case by (auto simp: defs get split: if_splits)
  next
    case (2 s i x off n) then show ?case by (auto simp: defs getpart bytes_at_def split: if_splits)
  next
    case (3 s n d) then show ?case by (simp add: defs insert_inv)
  next
    case (4 s n d) then show ?case by (simp add: defs insert_room)
  next
    case (5 s n d) then show ?case by (simp add: defs insert_content insert_nonzero)
  next
    case (6 s n d) then show ?case by (simp add: defs insert_nonzero)
  next
    case (7 s n i x d) then show ?case by (auto simp: defs insert_frame split: if_splits)
  next
    case (8 s n i x off d) then show ?case by (auto simp: defs insert_inv delta_inv split: if_splits)
  next
    case (9 s n i x off d) then show ?case by (auto simp: defs insert_room delta_room split: if_splits)
  next
    case (10 s n i x off d) then show ?case by (auto simp: defs insert_nonzero delta_nonzero split: if_splits)
  next
    case (11 s n i x j y off d)
    then show ?case by (auto simp: defs insert_frame delta_frame split: if_splits)
  next
    case (12 s n i x off d)
    then show ?case
      by (auto simp: defs insert_content insert_nonzero delta_inside delta_nonzero put_at_def split: if_splits)
  next
    case (13 s n i x off d)
    show ?case
    proof (cases "i = 0")
      case True
      with 13 show ?thesis
        by (intro exI [of _ "replicate off 0"]) (auto simp: defs insert_content insert_nonzero)
    next
      case False
      with 13 show ?thesis
        using delta_extend [of s n i x off d] delta_nonzero [of s n i x off d] by (auto simp: defs)
    qed
  qed
qed

end

interpretation zero_ssgen: delta_store "zero_api (ssgen_api junk type)" "ssgen_inv type" "ssgen_room type"
  "zero_content (ssgen_content type)" for junk type
  by (rule ssgen.zero_delta_store)

end
