(* ===== verification/Process_Stack.thy ===== *)
theory Process_Stack
  imports Model_Memory Sized_Store
begin

text \<open>
  The call stack of a process (ProcessStack.cpp).  A frame is a stored vector with the program
  counter and the registers to restore, the place of the call result and the identifier of
  the frame below; identifier 0 is the empty stack.  \<open>StateManager\<close> moves vectors between the
  model and the store.
\<close>

section \<open>State manager\<close>

text \<open>
  \<open>download\<close> writes the vector into a buffer of as many 32-bit slots as the identifier says;
  \<open>uploadBytes\<close> inserts a vector.
\<close>

definition download :: "'s env \<Rightarrow> 's \<Rightarrow> u64 \<Rightarrow> bytes outcome" where
  "download env s stateID =
     obind (of_option BadAccess (getB (en_api env) s stateID)) (\<lambda>d.
       if length d \<le> 4 * getLength stateID then Ok d else Fail BadAccess)"

definition uploadBytes :: "'s env \<Rightarrow> bytes \<Rightarrow> 's gctx \<Rightarrow> u64 \<times> 's gctx" where
  "uploadBytes env d gc =
     (let res = insertB (en_api env) (gc_store gc) d in (fst res, gc\<lparr>gc_store := snd res\<rparr>))"

definition downloadPartBytes :: "'s env \<Rightarrow> 's \<Rightarrow> u64 \<Rightarrow> nat \<Rightarrow> nat \<Rightarrow> bytes outcome" where
  "downloadPartBytes env s stateID off n = of_option BadAccess (getpartB (en_api env) s stateID off n)"

definition deltaBytes :: "'s env \<Rightarrow> u64 \<Rightarrow> nat \<Rightarrow> bytes \<Rightarrow> 's gctx \<Rightarrow> u64 \<times> 's gctx" where
  "deltaBytes env stateID off d gc =
     (let res = deltaB (en_api env) (gc_store gc) stateID off d in (fst res, gc\<lparr>gc_store := snd res\<rparr>))"

section \<open>Frames\<close>

definition getEmptyStack :: u64 where
  "getEmptyStack = 0"

text \<open>The byte offset of the register for the result of a call; 0 for a call without one.\<close>

definition result_offset :: "'s env \<Rightarrow> string \<Rightarrow> nat \<Rightarrow> u32" where
  "result_offset env F call =
     (case reg_index (en_gen env) F (InstReg call) of
        None \<Rightarrow> 0
      | Some idx \<Rightarrow> word_of_nat (dl_elem (en_dl env) (gn_registerTypes (en_gen env) F) idx))"

text \<open>\<open>t_frame\<close> is the packed struct of an i32, an i64, an i32 and an i64.\<close>

definition generateNewFrame :: "u32 \<Rightarrow> u64 \<Rightarrow> u32 \<Rightarrow> u64 \<Rightarrow> bytes" where
  "generateNewFrame oldPC rframe regOffset prevFrame =
     bytes_u32 oldPC @ bytes_u64 rframe @ bytes_u32 regOffset @ bytes_u64 prevFrame"

definition getPrevPCFromFrame :: "bytes \<Rightarrow> u32" where
  "getPrevPCFromFrame frame = u32_of (bytes_at 0 4 frame)"

definition getPrevRegisterChunkIDFrame :: "bytes \<Rightarrow> u64" where
  "getPrevRegisterChunkIDFrame frame = u64_of (bytes_at 4 8 frame)"

definition getResultRegisterOffsetFromFrame :: "bytes \<Rightarrow> u32" where
  "getResultRegisterOffsetFromFrame frame = u32_of (bytes_at 12 4 frame)"

definition getPrevStackChunkIDFromFrame :: "bytes \<Rightarrow> u64" where
  "getPrevStackChunkIDFromFrame frame = u64_of (bytes_at 16 8 frame)"

lemma frame_fields [simp]:
  "getPrevPCFromFrame (generateNewFrame pc r off s) = pc"
  "getPrevRegisterChunkIDFrame (generateNewFrame pc r off s) = r"
  "getResultRegisterOffsetFromFrame (generateNewFrame pc r off s) = off"
  "getPrevStackChunkIDFromFrame (generateNewFrame pc r off s) = s"
  "length (generateNewFrame pc r off s) = 24"
  by (simp_all add: generateNewFrame_def getPrevPCFromFrame_def getPrevRegisterChunkIDFrame_def
      getResultRegisterOffsetFromFrame_def getPrevStackChunkIDFromFrame_def bytes_at_def)

section \<open>Push and pop\<close>

text \<open>The first half of both \<open>pushStackFrame\<close> functions: save the caller, if there is one.\<close>

definition saveCaller :: "'s env \<Rightarrow> (string \<times> nat) option \<Rightarrow> nat \<Rightarrow> 's gctx \<Rightarrow> 's gctx outcome" where
  "saveCaller env callSite target gc =
     obind (proc_at target (gc_svout gc)) (\<lambda>p.
       case callSite of
         None \<Rightarrow> Ok (upd_proc target (\<lambda>p. p\<lparr>p_stk := getEmptyStack\<rparr>) gc)
       | Some (F, call) \<Rightarrow>
           (let (chunkid, gc1) = uploadBytes env (take (en_regs env) (p_r p)) gc;
                frame = generateNewFrame (p_pc p) chunkid (result_offset env F call) (p_stk p);
                (newStack, gc2) = uploadBytes env frame gc1
            in Ok (upd_proc target (\<lambda>p. p\<lparr>p_stk := newStack\<rparr>) gc2)))"

fun store_args :: "'s env \<Rightarrow> nat \<Rightarrow> string \<Rightarrow> nat \<Rightarrow> val list \<Rightarrow> 's gctx \<Rightarrow> 's gctx outcome" where
  "store_args env target F k [] gc = Ok gc"
| "store_args env target F k (arg # args) gc =
     obind (vMap env gc arg) (\<lambda>v.
     obind (vReg env (ArgV F k)) (\<lambda>(off, t).
     obind (store_reg_of target off v gc) (\<lambda>gc'.
       store_args env target F (Suc k) args gc')))"

definition pushStackFrame ::
  "'s env \<Rightarrow> func \<Rightarrow> val list \<Rightarrow> (string \<times> nat) option \<Rightarrow> nat \<Rightarrow> 's gctx \<Rightarrow> 's gctx outcome" where
  "pushStackFrame env F args callSite target gc =
     obind (saveCaller env callSite target gc) (\<lambda>gc.
       if \<not> f_vararg F \<and> length (f_params F) < length args then Fail TooManyArguments
       else obind (store_args env target (f_name F) 0 args gc) (\<lambda>gc.
         obind (of_option BadAccess (entry_location (en_gen env) F)) (\<lambda>loc.
           if loc = 0 then Fail Assertion else Ok (set_pc target (word_of_nat loc) gc))))"

text \<open>
  The version for a call through a pointer: the arguments are mapped by the caller of the
  function and the parameters are the fields of a struct of the parameter types.
\<close>

fun store_values :: "'s env \<Rightarrow> nat \<Rightarrow> ty list \<Rightarrow> nat \<Rightarrow> bytes list \<Rightarrow> 's gctx \<Rightarrow> 's gctx outcome" where
  "store_values env target params k [] gc = Ok gc"
| "store_values env target params k (v # vs) gc =
     (if k < length params
      then obind (store_reg_of target (vRegDirect (en_dl env) params k) v gc)
        (store_values env target params (Suc k) vs)
      else Fail BadAccess)"

definition pushStackFrameIndirect ::
  "'s env \<Rightarrow> ty list \<Rightarrow> bool \<Rightarrow> u64 \<Rightarrow> bytes list \<Rightarrow> (string \<times> nat) option \<Rightarrow> nat \<Rightarrow> 's gctx
    \<Rightarrow> 's gctx outcome" where
  "pushStackFrameIndirect env params vararg location args callSite target gc =
     obind (saveCaller env callSite target gc) (\<lambda>gc.
       if \<not> vararg \<and> length params < length args then Fail TooManyArguments
       else obind (store_values env target params 0 args gc) (\<lambda>gc.
         Ok (set_pc target (ucast location) gc)))"

text \<open>The register area after the saved registers are copied back: as many bytes as the
  identifier of the saved vector says.\<close>

definition restoreRegisters :: "'s env \<Rightarrow> u64 \<Rightarrow> 's gctx \<Rightarrow> 's gctx outcome" where
  "restoreRegisters env prevRegs gc =
     obind (download env (gc_store gc) prevRegs) (\<lambda>d.
       let n = unat (getLengthOfStateID prevRegs) in
       if n \<le> length d then store_reg 0 (take n d) gc else Fail UnknownValue)"

text \<open>The value of a result as a \<open>void*\<close>: integers are zero-extended or truncated.\<close>

definition as_voidp :: "ty \<Rightarrow> bytes \<Rightarrow> bytes" where
  "as_voidp t v =
     (case t of IntTy n \<Rightarrow> take 8 (zpad 8 v) | PtrTy u \<Rightarrow> take 8 (zpad 8 v) | _ \<Rightarrow> replicate 8 0)"

definition storeThreadResult :: "'s env \<Rightarrow> ty \<Rightarrow> bytes \<Rightarrow> 's gctx \<Rightarrow> 's gctx outcome" where
  "storeThreadResult env t v gc =
     obind (proc_at (gc_thread gc) (gc_src gc)) (\<lambda>p.
       let tid32 = p_tid p;
           newTres = bytes_u64 (ucast tid32) @ as_voidp t v;
           (newListOfTRes, gc') = deltaBytes env (sv_tres (gc_svout gc)) (unat (16 * tid32)) newTres gc
       in Ok (upd_sv (\<lambda>sv. sv\<lparr>sv_tres := newListOfTRes\<rparr>) gc'))"

definition popStackFrame :: "'s env \<Rightarrow> (val \<times> ty) option \<Rightarrow> 's gctx \<Rightarrow> 's gctx outcome" where
  "popStackFrame env result gc =
     obind (proc_at (gc_thread gc) (gc_svout gc)) (\<lambda>p.
     obind (case result of None \<Rightarrow> Ok None
            | Some (v, t) \<Rightarrow> obind (vMap env gc v) (\<lambda>bs. Ok (Some (bs, t)))) (\<lambda>retVal.
       if p_stk p \<noteq> getEmptyStack then
         obind (download env (gc_store gc) (p_stk p)) (\<lambda>chData.
         let gc = upd_proc (gc_thread gc)
               (\<lambda>p. p\<lparr>p_stk := getPrevStackChunkIDFromFrame chData, p_pc := getPrevPCFromFrame chData\<rparr>) gc in
         obind (restoreRegisters env (getPrevRegisterChunkIDFrame chData) gc) (\<lambda>gc.
           case retVal of None \<Rightarrow> Ok gc
           | Some (bs, t) \<Rightarrow> vRegUsingOffset (getResultRegisterOffsetFromFrame chData) bs gc))
       else
         (let gc = upd_proc (gc_thread gc)
               (\<lambda>p. p\<lparr>p_pc := 0, p_r := put_at 0 (replicate (en_regs env) 0) (p_r p)\<rparr>) gc in
          case retVal of None \<Rightarrow> Ok gc
          | Some (bs, t) \<Rightarrow> storeThreadResult env t bs gc)))"

section \<open>A call and its return\<close>

lemma upd_proc_same [simp]: "upd_proc t f (upd_proc t g gc) = upd_proc t (\<lambda>p. f (g p)) gc"
  if "t < threads gc"
  using that by (simp add: upd_proc_def upd_sv_def)

lemma upd_proc_cong:
  "f (sv_processes (gc_svout gc) ! t) = g (sv_processes (gc_svout gc) ! t) \<Longrightarrow> upd_proc t f gc = upd_proc t g gc"
  by (simp add: upd_proc_def upd_sv_def)

lemma upd_proc_id: "t < threads gc \<Longrightarrow>
    f (sv_processes (gc_svout gc) ! t) = sv_processes (gc_svout gc) ! t \<Longrightarrow> upd_proc t f gc = gc"
  by (simp add: upd_proc_def upd_sv_def)

text \<open>Storing arguments changes only the register area of the target.\<close>

lemma store_reg_of_props:
  assumes "store_reg_of t off d gc = Ok gc'"
  shows "t < threads gc"
    and "\<exists>r. length r = length (p_r (sv_processes (gc_svout gc) ! t)) \<and> gc' = upd_proc t (\<lambda>p. p\<lparr>p_r := r\<rparr>) gc"
proof -
  from assms have *: "t < threads gc"
    "gc' = upd_proc t (\<lambda>p. p\<lparr>p_r := put_at off d (p_r p)\<rparr>) gc"
    "off + length d \<le> length (p_r (sv_processes (gc_svout gc) ! t))"
    by (auto simp: store_reg_of_def outcome_simps split: if_splits)
  then show "t < threads gc" by simp
  from * show "\<exists>r. length r = length (p_r (sv_processes (gc_svout gc) ! t))
      \<and> gc' = upd_proc t (\<lambda>p. p\<lparr>p_r := r\<rparr>) gc"
    by (intro exI [of _ "put_at off d (p_r (sv_processes (gc_svout gc) ! t))"])
      (auto simp: length_put_at intro: upd_proc_cong)
qed

lemma store_args_props:
  assumes "store_args env t F k args gc = Ok gc'" and "t < threads gc"
  shows "\<exists>r. length r = length (p_r (sv_processes (gc_svout gc) ! t)) \<and> gc' = upd_proc t (\<lambda>p. p\<lparr>p_r := r\<rparr>) gc"
  using assms
proof (induction args arbitrary: k gc)
  case Nil
  then show ?case
    by (intro exI [of _ "p_r (sv_processes (gc_svout gc) ! t)"]) (simp add: upd_proc_id)
next
  case (Cons arg args)
  then obtain v off gc1 where s: "store_reg_of t off v gc = Ok gc1"
    and rest: "store_args env t F (Suc k) args gc1 = Ok gc'"
    by (auto simp: outcome_simps)
  obtain r1 where r1: "length r1 = length (p_r (sv_processes (gc_svout gc) ! t))"
    "gc1 = upd_proc t (\<lambda>p. p\<lparr>p_r := r1\<rparr>) gc"
    using store_reg_of_props [OF s] by blast
  with Cons.IH [OF rest] Cons.prems(2) show ?case by auto
qed

lemma store_values_props:
  assumes "store_values env t ps k vs gc = Ok gc'" and "t < threads gc"
  shows "\<exists>r. length r = length (p_r (sv_processes (gc_svout gc) ! t)) \<and> gc' = upd_proc t (\<lambda>p. p\<lparr>p_r := r\<rparr>) gc"
  using assms
proof (induction vs arbitrary: k gc)
  case Nil
  then show ?case
    by (intro exI [of _ "p_r (sv_processes (gc_svout gc) ! t)"]) (simp add: upd_proc_id)
next
  case (Cons v vs)
  then obtain off gc1 where s: "store_reg_of t off v gc = Ok gc1"
    and rest: "store_values env t ps (Suc k) vs gc1 = Ok gc'"
    by (auto simp: outcome_simps split: if_splits)
  obtain r1 where r1: "length r1 = length (p_r (sv_processes (gc_svout gc) ! t))"
    "gc1 = upd_proc t (\<lambda>p. p\<lparr>p_r := r1\<rparr>) gc"
    using store_reg_of_props [OF s] by blast
  with Cons.IH [OF rest] Cons.prems(2) show ?case by auto
qed

text \<open>
  After a push: the caller's frame is on the stack of the target and only the program
  counter, the registers and the stack of the target have changed.
\<close>

lemma pushStackFrame_props:
  assumes "pushStackFrame env F args callSite t gc = Ok gc'"
  obtains gc1 r loc where "saveCaller env callSite t gc = Ok gc1" and "t < threads gc"
    and "length r = length (p_r (sv_processes (gc_svout gc1) ! t))"
    and "entry_location (en_gen env) F = Some loc" and "loc \<noteq> 0"
    and "gc' = upd_proc t (\<lambda>p. p\<lparr>p_r := r, p_pc := word_of_nat loc\<rparr>) gc1"
    and "t < threads gc1"
proof -
  from assms obtain gc1 gc2 loc where s: "saveCaller env callSite t gc = Ok gc1"
    and a: "store_args env t (f_name F) 0 args gc1 = Ok gc2"
    and l: "entry_location (en_gen env) F = Some loc" "loc \<noteq> 0"
    and e: "gc' = set_pc t (word_of_nat loc) gc2"
    by (auto simp: pushStackFrame_def outcome_simps split: if_splits)
  have t: "t < threads gc" "t < threads gc1"
    using s by (auto simp: saveCaller_def outcome_simps uploadBytes_def Let_def split: option.splits)
  obtain r where r: "length r = length (p_r (sv_processes (gc_svout gc1) ! t))"
      "gc2 = upd_proc t (\<lambda>p. p\<lparr>p_r := r\<rparr>) gc1"
    using store_args_props [OF a t(2)] by blast
  with e t(2) have "gc' = upd_proc t (\<lambda>p. p\<lparr>p_r := r, p_pc := word_of_nat loc\<rparr>) gc1"
    by (simp add: set_pc_def)
  with that s t r(1) l show thesis by blast
qed

context delta_store begin

lemma saved_frame:
  assumes "en_api env = api" and "ids_carry_length api inv room"
    and "inv (gc_store gc)" and "room (Suc (Suc k)) (gc_store gc)"
    and "t < threads gc" and "length (p_r (sv_processes (gc_svout gc) ! t)) = en_regs env"
    and "en_regs env < 2 ^ 24"
    and "saveCaller env (Some (F, call)) t gc = Ok gc1"
  obtains rid sid where "gc1 = upd_proc t (\<lambda>p. p\<lparr>p_stk := sid\<rparr>) (gc\<lparr>gc_store := gc_store gc1\<rparr>)"
    and "sid \<noteq> 0" and "getLength sid = 24" and "getLength rid = en_regs env"
    and "content (gc_store gc1) rid = Some (p_r (sv_processes (gc_svout gc) ! t))"
    and "content (gc_store gc1) sid = Some (generateNewFrame (p_pc (sv_processes (gc_svout gc) ! t)) rid
      (result_offset env F call) (p_stk (sv_processes (gc_svout gc) ! t)))"
    and "inv (gc_store gc1)" and "room k (gc_store gc1)"
    and "\<And>i x. content (gc_store gc) i = Some x \<Longrightarrow> content (gc_store gc1) i = Some x"
proof -
  let ?p = "sv_processes (gc_svout gc) ! t"
  obtain rid s1 where r: "insertB api (gc_store gc) (p_r ?p) = (rid, s1)"
    by (metis prod.exhaust)
  let ?frame = "generateNewFrame (p_pc ?p) rid (result_offset env F call) (p_stk ?p)"
  obtain sid s2 where s: "insertB api s1 ?frame = (sid, s2)"
    by (metis prod.exhaust)
  have "gc1 = upd_proc t (\<lambda>p. p\<lparr>p_stk := sid\<rparr>) (gc\<lparr>gc_store := s2\<rparr>)"
    using assms(1,5,6,8) r s by (simp add: saveCaller_def proc_at_def uploadBytes_def Let_def)
  then have gc1: "gc_store gc1 = s2" "gc1 = upd_proc t (\<lambda>p. p\<lparr>p_stk := sid\<rparr>) (gc\<lparr>gc_store := s2\<rparr>)"
    by simp_all
  note l1 = insert_laws [OF assms(3,4), where d = "p_r ?p", unfolded r fst_conv snd_conv]
  note l2 = insert_laws [OF l1(1,2), where d = ?frame, unfolded s fst_conv snd_conv]
  have "getLength (fst (insertB api s1 ?frame)) = 24" "getLength (fst (insertB api (gc_store gc) (p_r ?p))) = en_regs env"
    using assms(2-4,6,7) l1(1,2) by (auto simp: ids_carry_length_def)
  then have len: "getLength sid = 24" "getLength rid = en_regs env"
    by (simp_all add: r s)
  show thesis
  proof (rule that [of sid rid], goal_cases)
    case 1 show ?case using gc1 by simp
  next
    case 2 show ?case by (rule l2(4))
  next
    case 3 show ?case by (rule len)
  next
    case 4 show ?case by (rule len)
  next
    case 5 show ?case unfolding gc1(1) by (rule l2(5) [OF l1(3)])
  next
    case 6 show ?case unfolding gc1(1) by (rule l2(3))
  next
    case 7 show ?case unfolding gc1(1) by (rule l2(1))
  next
    case 8 show ?case unfolding gc1(1) by (rule l2(2))
  next
    case (9 i x)
    then show ?case unfolding gc1(1) by (rule l2(5) [OF l1(5)])
  qed
qed

text \<open>Popping in any later state in which that frame is on top of the stack.\<close>

lemma pop_frame:
  assumes "en_api env = api" and "inv (gc_store gc)"
    and "gc_thread gc < threads gc" and "p_stk (sv_processes (gc_svout gc) ! gc_thread gc) = sid"
    and "length (p_r (sv_processes (gc_svout gc) ! gc_thread gc)) = length regs"
    and "sid \<noteq> 0" and "getLength sid = 24" and "getLength rid = length regs"
    and "content (gc_store gc) rid = Some regs"
    and "content (gc_store gc) sid = Some (generateNewFrame pc rid off below)"
    and "vMap env gc v = Ok bs" and "unat off + length bs \<le> length regs"
  shows "popStackFrame env (Some (v, t)) gc =
    Ok (upd_proc (gc_thread gc) (\<lambda>p. p\<lparr>p_stk := below, p_pc := pc, p_r := put_at (unat off) bs regs\<rparr>) gc)"
proof -
  let ?t = "gc_thread gc"
  let ?frame = "generateNewFrame pc rid off below"
  have d1: "download env (gc_store gc) sid = Ok ?frame"
    using get [OF assms(2,10)] assms(1,7) by (simp add: download_def of_option_def)
  have d2: "download env (gc_store gc) rid = Ok regs"
    using get [OF assms(2,9)] assms(1,8) by (simp add: download_def of_option_def)
  let ?gc1 = "upd_proc ?t (\<lambda>p. p\<lparr>p_stk := below, p_pc := pc\<rparr>) gc"
  have "unat (getLengthOfStateID rid) = length regs"
    using assms(8) by (simp add: getLength_def getLengthOfStateID_def)
  then have r: "restoreRegisters env rid ?gc1 =
      Ok (upd_proc ?t (\<lambda>p. p\<lparr>p_stk := below, p_pc := pc, p_r := regs\<rparr>) gc)"
    using d2 assms(3,5)
    by (simp add: restoreRegisters_def store_reg_def store_reg_of_def proc_at_def)
      (rule upd_proc_cong, simp add: put_at_whole)
  show ?thesis
    using assms(3,4,6,11,12) d1 r
    by (simp add: popStackFrame_def proc_at_def getEmptyStack_def vRegUsingOffset_def store_reg_def
        store_reg_of_def)
qed

end

section \<open>Properties\<close>

text \<open>
  C1: a call and its return are inverse: if a frame is pushed for a call of the running
  thread and, in any later context of the thread in which that frame is again on top of the
  stack and the stored vectors are still there, the callee returns a value, then the return
  puts back the program counter, the stack and the registers of the caller, with the value
  in the place of the call's result; nothing else in the context changes.
\<close>

theorem call_return:
  assumes "delta_store (en_api env) sinv room content"
    and "ids_carry_length (en_api env) sinv room"
    and "sinv (gc_store gc)" and "room (Suc (Suc k)) (gc_store gc)"
    and "length (p_r (sv_processes (gc_svout gc) ! t)) = en_regs env" and "en_regs env < 2 ^ 24"
    and "pushStackFrame env F args (Some (G, call)) t gc = Ok gc1"
    and "gc_thread gc2 = t" and "threads gc2 = threads gc1" and "sinv (gc_store gc2)"
    and "p_stk (sv_processes (gc_svout gc2) ! t) = p_stk (sv_processes (gc_svout gc1) ! t)"
    and "length (p_r (sv_processes (gc_svout gc2) ! t)) = en_regs env"
    and "\<And>i x. content (gc_store gc1) i = Some x \<Longrightarrow> content (gc_store gc2) i = Some x"
    and "vMap env gc2 v = Ok bs" and "unat (result_offset env G call) + length bs \<le> en_regs env"
  shows "popStackFrame env (Some (v, ty)) gc2 = Ok (upd_proc t
    (\<lambda>p. p\<lparr>p_stk := p_stk (sv_processes (gc_svout gc) ! t), p_pc := p_pc (sv_processes (gc_svout gc) ! t),
           p_r := put_at (unat (result_offset env G call)) bs (p_r (sv_processes (gc_svout gc) ! t))\<rparr>) gc2)"
proof (rule pushStackFrame_props [OF assms(7)])
  fix gc0 r loc
  assume s: "saveCaller env (Some (G, call)) t gc = Ok gc0" and t: "t < threads gc" "t < threads gc0"
    and gc1: "gc1 = upd_proc t (\<lambda>p. p\<lparr>p_r := r, p_pc := word_of_nat loc\<rparr>) gc0"
  show ?thesis
  proof (rule delta_store.saved_frame [OF assms(1) refl assms(2-4) t(1) assms(5,6) s])
    fix rid sid
    assume g0: "gc0 = upd_proc t (\<lambda>p. p\<lparr>p_stk := sid\<rparr>) (gc\<lparr>gc_store := gc_store gc0\<rparr>)"
      and sid: "sid \<noteq> 0" "getLength sid = 24" "getLength rid = en_regs env"
      and c: "content (gc_store gc0) rid = Some (p_r (sv_processes (gc_svout gc) ! t))"
      "content (gc_store gc0) sid = Some (generateNewFrame (p_pc (sv_processes (gc_svout gc) ! t)) rid
        (result_offset env G call) (p_stk (sv_processes (gc_svout gc) ! t)))"
    have "p_stk (sv_processes (gc_svout gc0) ! t) = sid"
      using t(1) by (subst g0) simp
    then have top: "p_stk (sv_processes (gc_svout gc2) ! gc_thread gc2) = sid"
      using assms(8,11) t(2) gc1 by simp
    have th: "gc_thread gc2 < threads gc2"
      using assms(8,9) t(2) gc1 by simp
    have c2: "content (gc_store gc2) rid = Some (p_r (sv_processes (gc_svout gc) ! t))"
      "content (gc_store gc2) sid = Some (generateNewFrame (p_pc (sv_processes (gc_svout gc) ! t)) rid
        (result_offset env G call) (p_stk (sv_processes (gc_svout gc) ! t)))"
      using assms(13) c gc1 by simp_all
    have len: "length (p_r (sv_processes (gc_svout gc2) ! gc_thread gc2))
        = length (p_r (sv_processes (gc_svout gc) ! t))"
      "getLength rid = length (p_r (sv_processes (gc_svout gc) ! t))"
      "unat (result_offset env G call) + length bs \<le> length (p_r (sv_processes (gc_svout gc) ! t))"
      using assms(5,8,12,15) sid(3) by simp_all
    show ?thesis
      using delta_store.pop_frame [OF assms(1) refl assms(10) th top len(1) sid(1,2) len(2) c2 assms(14) len(3)]
        assms(8) by simp
  qed
qed

definition ex_sized_env :: "tree_store env" where
  "ex_sized_env = ex_env\<lparr>en_api := sized_api (ssgen_api (\<lambda>_. 0) 3) (ssgen_content 3)\<rparr>"

lemma ex_sized_env_simps [simp]:
  "en_gen ex_sized_env = ex_gen" "en_dl ex_sized_env = dmc_layout" "en_regs ex_sized_env = 8"
  "en_api ex_sized_env = sized_api (ssgen_api (\<lambda>_. 0) 3) (ssgen_content 3)"
  by (simp_all add: ex_sized_env_def)

lemma ex_vReg [simp]:
  "vReg ex_sized_env (ArgV ''inc'' 0) = Ok (0, IntTy 32)"
  "vReg ex_sized_env (InstV ''inc'' 11) = Ok (4, IntTy 32)"
  "entry_location ex_gen inc_func = Some 1" "f_name inc_func = ''inc''"
  "result_offset ex_sized_env ''inc'' 11 = 4" "result_offset ex_sized_env ''inc'' 12 = 0"
proof -
  have "dl_elem dmc_layout [IntTy 32, IntTy 32] 0 = 0" "dl_elem dmc_layout [IntTy 32, IntTy 32] (Suc 0) = 4"
    by (simp_all add: dmc_layout_def dmc_elem_def dmc_end_def round_up_def)
  moreover have "reg_index ex_gen ''inc'' (InstReg 12) = None"
    unfolding ex_gen_def ex_groups
    by (simp add: createRegisterMapping_def createRegisterMappingForFunction_def
      generator_new_def inc_module_def inc_func_def inc_insts_def args_of_def regs_of_def f_insts_def
      newmap_def reg_index_def)
  ultimately show "vReg ex_sized_env (ArgV ''inc'' 0) = Ok (0, IntTy 32)"
    "vReg ex_sized_env (InstV ''inc'' 11) = Ok (4, IntTy 32)"
    "entry_location ex_gen inc_func = Some 1" "f_name inc_func = ''inc''"
    "result_offset ex_sized_env ''inc'' 11 = 4" "result_offset ex_sized_env ''inc'' 12 = 0"
    by (simp_all add: vReg_def vRegDirect_def entry_location_def inc_func_def inc_insts_def result_offset_def)
qed

lemma ex_sized_store:
  "delta_store (en_api ex_sized_env) (ssgen_inv 3) (ssgen_room 3) (sized_content (ssgen_content 3))"
  "ids_carry_length (en_api ex_sized_env) (ssgen_inv 3) (ssgen_room 3)"
  using sized_ssgen.delta_store_axioms [of "\<lambda>_. 0" 3] sized_ssgen_ids by simp_all

lemma ex_push:
  obtains gc1 where "pushStackFrame ex_sized_env inc_func [ConstV (IntTy 32) [5, 0, 0, 0]]
      (Some (''inc'', 11)) 0 ex_ctx = Ok gc1"
    and "gc_thread gc1 = 0" and "threads gc1 = 6" and "ssgen_inv 3 (gc_store gc1)"
    and "ssgen_room 3 998 (gc_store gc1)" and "length (p_r (sv_processes (gc_svout gc1) ! 0)) = 8"
proof -
  obtain gc0 where s: "saveCaller ex_sized_env (Some (''inc'', 11)) 0 ex_ctx = Ok gc0"
    by (simp add: saveCaller_def proc_at_def uploadBytes_def Let_def)
  have r: "ssgen_room 3 (Suc (Suc 999)) (gc_store ex_ctx)" and i: "ssgen_inv 3 (gc_store ex_ctx)"
    using ex_store by simp_all
  have l: "length (p_r (sv_processes (gc_svout ex_ctx) ! 0)) = en_regs ex_sized_env"
    by (simp add: ex_process_def)
  show thesis
  proof (rule delta_store.saved_frame [OF ex_sized_store(1) refl ex_sized_store(2) i r _ l _ s], goal_cases)
    case (3 rid sid)
    have g0: "gc_thread gc0 = 0" "threads gc0 = 6" "length (p_r (sv_processes (gc_svout gc0) ! 0)) = 8"
      by (subst 3(1), simp add: ex_process_def)+
    let ?gc1 = "upd_proc 0 (\<lambda>p. p\<lparr>p_r := put_at 0 [5, 0, 0, 0] (p_r p), p_pc := 1\<rparr>) gc0"
    have "pushStackFrame ex_sized_env inc_func [ConstV (IntTy 32) [5, 0, 0, 0]]
      (Some (''inc'', 11)) 0 ex_ctx = Ok ?gc1"
      using s g0 by (simp add: pushStackFrame_def store_reg_of_def proc_at_def of_option_def set_pc_def)
        (simp add: inc_func_def)
    with 3(7,8) g0 show ?case
      by (intro that [of ?gc1]) (simp_all add: length_put_at ssgen_room_def)
  qed simp_all
qed

theorem call_return_witness:
  "\<exists>gc1 gc2. pushStackFrame ex_sized_env inc_func [ConstV (IntTy 32) [5, 0, 0, 0]]
      (Some (''inc'', 11)) 0 ex_ctx = Ok gc1
    \<and> popStackFrame ex_sized_env (Some (ConstV (IntTy 32) [6, 0, 0, 0], IntTy 32)) gc1 = Ok gc2
    \<and> p_r (sv_processes (gc_svout gc2) ! 0) = [41, 0, 0, 0, 6, 0, 0, 0]"
proof (rule ex_push)
  fix gc1
  assume 1: "pushStackFrame ex_sized_env inc_func [ConstV (IntTy 32) [5, 0, 0, 0]]
      (Some (''inc'', 11)) 0 ex_ctx = Ok gc1" and 2: "gc_thread gc1 = 0" "threads gc1 = 6"
    "ssgen_inv 3 (gc_store gc1)" "length (p_r (sv_processes (gc_svout gc1) ! 0)) = 8"
  have "popStackFrame ex_sized_env (Some (ConstV (IntTy 32) [6, 0, 0, 0], IntTy 32)) gc1 = Ok (upd_proc 0
    (\<lambda>p. p\<lparr>p_stk := p_stk (sv_processes (gc_svout ex_ctx) ! 0), p_pc := p_pc (sv_processes (gc_svout ex_ctx) ! 0),
           p_r := put_at (unat (result_offset ex_sized_env ''inc'' 11)) [6, 0, 0, 0]
             (p_r (sv_processes (gc_svout ex_ctx) ! 0))\<rparr>) gc1)"
    by (rule call_return [OF ex_sized_store _ _ _ _ 1 2(1) refl, where k = 999])
      (use ex_store 2 in \<open>simp_all add: ex_process_def\<close>)
  with 1 2(2) show ?thesis
    by (auto simp: ex_process_def put_at_def)
qed

end
