(* ===== verification/Phi_Nodes.thy ===== *)
theory Phi_Nodes
  imports Model_Memory "HOL-Library.Multiset"
begin

text \<open>
  \<open>generateStoresForPHINodes\<close> (LLDMCModelGenerator.h): the PHI nodes of a block are written
  when a branch into the block is taken, one after the other.  The generator orders the
  writes so that no node is written while another one still needs its old value, and gives
  up with an assertion if that is impossible.
\<close>

section \<open>The schedule\<close>

text \<open>
  \<open>dependencies\<close> holds a node with the value it takes on this branch.  Its iteration order is
  the order of an unordered map, so the list order is arbitrary; a node is erased from the map
  when it is written.
\<close>

type_synonym phi_dep = "nat \<times> val"

definition hasDepender :: "string \<Rightarrow> phi_dep list \<Rightarrow> nat \<Rightarrow> bool" where
  "hasDepender fn dependencies phiNode \<longleftrightarrow>
     list_ex (\<lambda>it2. snd it2 = InstV fn phiNode) dependencies"

fun phi_pass :: "string \<Rightarrow> phi_dep list \<Rightarrow> phi_dep list \<Rightarrow> phi_dep list \<times> phi_dep list" where
  "phi_pass fn kept [] = ([], kept)"
| "phi_pass fn kept (it # rest) =
     (if hasDepender fn (kept @ it # rest) (fst it)
      then phi_pass fn (kept @ [it]) rest
      else (let (written, kept') = phi_pass fn kept rest in (it # written, kept')))"

lemma phi_pass_length:
  "phi_pass fn kept rest = (w, k) \<Longrightarrow> length w + length k = length kept + length rest"
  by (induction fn kept rest arbitrary: w k rule: phi_pass.induct)
    (auto split: if_splits prod.splits)

function phi_schedule :: "string \<Rightarrow> phi_dep list \<Rightarrow> phi_dep list option" where
  "phi_schedule fn dependencies =
     (let (written, kept) = phi_pass fn [] dependencies in
      if written = [] then (if kept = [] then Some [] else None)
      else map_option (\<lambda>later. written @ later) (phi_schedule fn kept))"
  by pat_completeness auto
termination
proof (relation "measure (\<lambda>(fn, dependencies). length dependencies)", goal_cases)
  case 1
  show ?case by simp
next
  case (2 fn D x w k)
  from 2(1) 2(2) [symmetric] have "phi_pass fn [] D = (w, k)"
    by simp
  from phi_pass_length [OF this] 2(3) show ?case
    by (cases w) auto
qed

declare phi_schedule.simps [simp del]

text \<open>
  A good order of writes: when a node is written, no later node takes its value, and it does
  not take its own.
\<close>

fun good_order :: "string \<Rightarrow> phi_dep list \<Rightarrow> bool" where
  "good_order fn [] = True"
| "good_order fn (it # rest) = (\<not> hasDepender fn (it # rest) (fst it) \<and> good_order fn rest)"

lemma hasDepender_set: "hasDepender fn D n \<longleftrightarrow> (\<exists>m. (m, InstV fn n) \<in> set D)"
  by (force simp: hasDepender_def list_ex_iff)

lemma hasDepender_append [simp]:
  "hasDepender fn (xs @ ys) n \<longleftrightarrow> hasDepender fn xs n \<or> hasDepender fn ys n"
  by (auto simp: hasDepender_def)

lemma phi_pass_mset: "phi_pass fn kept rest = (w, k) \<Longrightarrow> mset w + mset k = mset kept + mset rest"
proof (induction fn kept rest arbitrary: w k rule: phi_pass.induct)
  case (1 fn kept)
  then show ?case by simp
next
  case (2 fn kept it rest)
  show ?case
  proof (cases "hasDepender fn (kept @ it # rest) (fst it)")
    case True
    with 2 show ?thesis by simp
  next
    case False
    then obtain w' where "phi_pass fn kept rest = (w', k)" "w = it # w'"
      using 2(3) by (auto split: prod.splits)
    with 2(2) [OF False] show ?thesis by simp
  qed
qed

lemma phi_pass_set: "phi_pass fn kept rest = (w, k) \<Longrightarrow> set w \<union> set k = set kept \<union> set rest"
  using phi_pass_mset [of fn kept rest w k] by (metis set_mset_mset set_mset_union)

text \<open>What a pass writes may be written first: no node that is kept or written later needs it.\<close>

lemma phi_pass_good:
  "phi_pass fn kept rest = (w, k) \<Longrightarrow> good_order fn later \<Longrightarrow> set later = set k \<Longrightarrow>
     good_order fn (w @ later)"
proof (induction fn kept rest arbitrary: w k rule: phi_pass.induct)
  case (1 fn kept)
  then show ?case by simp
next
  case (2 fn kept it rest)
  show ?case
  proof (cases "hasDepender fn (kept @ it # rest) (fst it)")
    case True
    with 2 show ?thesis by simp
  next
    case False
    then obtain w' where w': "phi_pass fn kept rest = (w', k)" "w = it # w'"
      using 2(3) by (auto split: prod.splits)
    have "set (it # w' @ later) = set (kept @ it # rest)"
      using phi_pass_set [OF w'(1)] 2(5) by auto
    then have "\<not> hasDepender fn (it # w' @ later) (fst it)"
      using False unfolding hasDepender_set by blast
    with 2(2) [OF False w'(1) 2(4,5)] w'(2) show ?thesis by simp
  qed
qed

lemma phi_schedule_good:
  "phi_schedule fn D = Some order \<Longrightarrow> good_order fn order \<and> mset order = mset D"
proof (induction fn D arbitrary: order rule: phi_schedule.induct)
  case (1 fn D)
  obtain w k where p: "phi_pass fn [] D = (w, k)"
    by (metis prod.exhaust)
  show ?case
  proof (cases "w = []")
    case True
    with p 1(2) phi_pass_mset [OF p] show ?thesis
      by (auto simp: phi_schedule.simps [of fn D] split: if_splits)
  next
    case False
    with p 1(2) obtain later where l: "phi_schedule fn k = Some later" "order = w @ later"
      by (auto simp: phi_schedule.simps [of fn D])
    have "good_order fn later" "mset later = mset k"
      using 1(1) [OF p [symmetric] refl False l(1)] by simp_all
    then show ?thesis
      using phi_pass_good [OF p] phi_pass_mset [OF p] l(2) by (auto dest: mset_eq_setD)
  qed
qed

section \<open>When there is a schedule\<close>

text \<open>\<open>needs\<close>: the node on the left takes, on this branch, the value of the node on the right.\<close>

definition needs :: "string \<Rightarrow> phi_dep list \<Rightarrow> (nat \<times> nat) set" where
  "needs fn D = {(m, n). (m, InstV fn n) \<in> set D \<and> n \<in> fst ` set D}"

lemma needs_mono: "set D \<subseteq> set E \<Longrightarrow> needs fn D \<subseteq> needs fn E"
  by (auto simp: needs_def)

lemma finite_needs: "finite (needs fn D)"
proof -
  have "needs fn D \<subseteq> fst ` set D \<times> fst ` set D"
    by (force simp: needs_def)
  then show ?thesis
    by (rule finite_subset) simp
qed

lemma phi_pass_stuck:
  "phi_pass fn kept rest = ([], k) \<Longrightarrow>
     k = kept @ rest \<and> (\<forall>it \<in> set rest. hasDepender fn (kept @ rest) (fst it))"
proof (induction fn kept rest arbitrary: k rule: phi_pass.induct)
  case (1 fn kept)
  then show ?case by simp
next
  case (2 fn kept it rest)
  then have "hasDepender fn (kept @ it # rest) (fst it)"
    by (auto split: if_splits prod.splits)
  with 2 show ?case by auto
qed

lemma phi_schedule_complete:
  "acyclic (needs fn D) \<Longrightarrow> phi_schedule fn D \<noteq> None"
proof (induction fn D rule: phi_schedule.induct)
  case (1 fn D)
  obtain w k where p: "phi_pass fn [] D = (w, k)"
    by (metis prod.exhaust)
  show ?case
  proof (cases "w = []")
    case True
    with p have stuck: "k = D" "\<And>n. n \<in> fst ` set D \<Longrightarrow> hasDepender fn D n"
      using phi_pass_stuck [of fn "[]" D k] by auto
    have "D = []"
    proof (rule ccontr)
      assume "D \<noteq> []"
      then have "fst ` set D \<noteq> {}"
        by simp
      with finite_acyclic_wf [OF finite_needs 1(2)] obtain n where
        n: "n \<in> fst ` set D" "\<And>m. (m, n) \<in> needs fn D \<Longrightarrow> m \<notin> fst ` set D"
        by (metis wf_eq_minimal ex_in_conv)
      then obtain m where "(m, InstV fn n) \<in> set D"
        using stuck(2) unfolding hasDepender_set by blast
      then have "(m, n) \<in> needs fn D" "m \<in> fst ` set D"
        using n(1) by (force simp: needs_def)+
      with n(2) show False by blast
    qed
    then show ?thesis
      by (simp add: phi_schedule.simps [of fn "[]"])
  next
    case False
    have "set k \<subseteq> set D"
      using phi_pass_set [OF p] by auto
    then have "acyclic (needs fn k)"
      using acyclic_subset [OF 1(2) needs_mono] by blast
    with 1(1) [OF p [symmetric] refl False] p False show ?thesis
      by (auto simp: phi_schedule.simps [of fn D])
  qed
qed

text \<open>In a good order of distinct nodes a node stands before every node it needs.\<close>

lemma good_order_before:
  "good_order fn D \<Longrightarrow> distinct (map fst D) \<Longrightarrow> (m, n) \<in> needs fn D \<Longrightarrow>
     \<exists>xs ys. D = xs @ ys \<and> m \<in> fst ` set xs \<and> n \<in> fst ` set ys"
proof (induction D)
  case Nil
  then show ?case by (simp add: needs_def)
next
  case (Cons it D)
  from Cons.prems(3) have mn: "(m, InstV fn n) \<in> set (it # D)" "n \<in> fst ` set (it # D)"
    by (auto simp: needs_def)
  have "n \<noteq> fst it"
    using Cons.prems(1) mn(1) by (auto simp: hasDepender_set)
  with mn(2) have n: "n \<in> fst ` set D"
    by auto
  show ?case
  proof (cases "(m, InstV fn n) \<in> set D")
    case True
    with n have "(m, n) \<in> needs fn D"
      by (simp add: needs_def)
    with Cons obtain xs ys where "D = xs @ ys" "m \<in> fst ` set xs" "n \<in> fst ` set ys"
      by auto
    then show ?thesis
      by (intro exI [of _ "it # xs"] exI [of _ ys]) simp
  next
    case False
    with mn(1) have "it = (m, InstV fn n)"
      by simp
    with n show ?thesis
      by (intro exI [of _ "[it]"] exI [of _ D]) simp
  qed
qed

lemma good_order_acyclic:
  "good_order fn D \<Longrightarrow> distinct (map fst D) \<Longrightarrow> acyclic (needs fn D)"
proof (induction D)
  case Nil
  then show ?case by (simp add: needs_def acyclic_def)
next
  case (Cons it D)
  have no: "(m, fst it) \<notin> needs fn (it # D)" for m
    using Cons.prems(1) by (auto simp: needs_def hasDepender_set)
  have sub: "needs fn (it # D) \<subseteq> needs fn D \<union> {fst it} \<times> UNIV"
    using no by (auto simp: needs_def)
  have "(x, y) \<in> (needs fn (it # D))\<^sup>+ \<Longrightarrow> y \<noteq> fst it \<and> (x = fst it \<or> (x, y) \<in> (needs fn D)\<^sup>+)" for x y
  proof (induction rule: trancl.induct)
    case (r_into_trancl a b)
    with no sub show ?case by blast
  next
    case (trancl_into_trancl a b c)
    then have "c \<noteq> fst it" "(b, c) \<in> needs fn D"
      using no sub by blast+
    with trancl_into_trancl.IH show ?case
      by (meson trancl.trancl_into_trancl)
  qed
  then show ?case
    using Cons unfolding acyclic_def by auto
qed

text \<open>
  C14: the generator finds a schedule for the PHI nodes of a branch exactly when no node
  needs itself through other nodes, whatever the iteration order of its map; the schedule
  writes every node once, and never writes a node that a node still to be written needs.
\<close>

theorem phi_schedule_correct:
  assumes "distinct (map fst D)"
  shows "(phi_schedule fn D \<noteq> None) = acyclic (needs fn D)
    \<and> (\<forall>order. phi_schedule fn D = Some order \<longrightarrow> mset order = mset D \<and> good_order fn order)"
proof -
  have "acyclic (needs fn D)" if "phi_schedule fn D = Some order" for order
  proof -
    have "good_order fn order" "mset order = mset D"
      using phi_schedule_good [OF that] by simp_all
    moreover from this(2) have "mset (map fst order) = mset (map fst D)" "set order = set D"
      by (simp, rule mset_eq_setD)
    moreover from this(1) have "distinct (map fst order)"
      using assms mset_eq_imp_distinct_iff by blast
    ultimately show ?thesis
      using good_order_acyclic [of fn order] by (simp add: needs_def)
  qed
  with phi_schedule_complete phi_schedule_good show ?thesis by blast
qed

theorem phi_schedule_correct_witness:
  "acyclic (needs ''f'' [(1, InstV ''f'' 2), (2, ArgV ''f'' 0)])"
  using phi_schedule_correct [of "[(1, InstV ''f'' 2), (2, ArgV ''f'' 0)]" "''f''"]
  by (simp add: phi_schedule.simps hasDepender_def)

section \<open>The writes\<close>

fun write_phis :: "'s env \<Rightarrow> string \<Rightarrow> phi_dep list \<Rightarrow> 's gctx \<Rightarrow> 's gctx outcome" where
  "write_phis env fn [] gc = Ok gc"
| "write_phis env fn ((phiNode, phiValue) # rest) gc =
     obind (vMap env gc phiValue) (\<lambda>v.
     obind (store_result env (InstV fn phiNode) v gc) (write_phis env fn rest))"

text \<open>\<open>to->phis()\<close> are the leading PHI instructions of the block.\<close>

fun phis_of :: "instruction list \<Rightarrow> (nat \<times> (nat \<times> val) list) list" where
  "phis_of [] = []"
| "phis_of (i # is) = (case i_op i of PHI inc \<Rightarrow> (i_id i, inc) # phis_of is | _ \<Rightarrow> [])"

definition phi_dependencies :: "instruction list \<Rightarrow> nat \<Rightarrow> phi_dep list outcome" where
  "phi_dependencies to from =
     omap (\<lambda>(phiNode, inc). obind (of_option Assertion (map_of inc from)) (\<lambda>v. Ok (phiNode, v)))
       (phis_of to)"

definition phi_plan :: "'s env \<Rightarrow> string \<Rightarrow> nat \<Rightarrow> instruction list \<Rightarrow> phi_dep list outcome" where
  "phi_plan env fn from to =
     obind (phi_dependencies to from) (\<lambda>D. of_option Assertion (phi_schedule fn (en_order env D)))"

definition generateStoresForPHINodes ::
  "'s env \<Rightarrow> string \<Rightarrow> nat \<Rightarrow> instruction list \<Rightarrow> 's gctx \<Rightarrow> 's gctx outcome" where
  "generateStoresForPHINodes env fn from to gc =
     obind (phi_plan env fn from to) (\<lambda>order. write_phis env fn order gc)"

text \<open>A value that no register holds; its mapping does not depend on the state.\<close>

fun const_val :: "val \<Rightarrow> bool" where
  "const_val (ArgV F k) = False"
| "const_val (InstV F i) = False"
| "const_val (ExprV op vs t) = list_all const_val vs"
| "const_val v = True"

lemma omap_eq: "(\<And>x. x \<in> set xs \<Longrightarrow> f x = g x) \<Longrightarrow> omap f xs = omap g xs"
  by (rule omap_cong) simp_all

lemma vMap_const: "const_val v \<Longrightarrow> vMap env gc v = vMap env gc' v"
proof (induction v rule: const_val.induct)
  case (3 op vs t)
  then have "omap (vMap env gc) vs = omap (vMap env gc') vs"
    by (intro omap_eq) (auto simp: list_all_iff)
  then show ?case by simp
qed auto

text \<open>
  \<open>phi_ready env fn gc (n, v)\<close>: the node has a register of its own, and the value is a
  constant or a register of the function and has the size of the node's type.
\<close>

definition own_register :: "'s env \<Rightarrow> string \<Rightarrow> val \<Rightarrow> bool" where
  "own_register env fn v \<longleftrightarrow>
     (\<exists>j. register_of env v = Some (fn, j) \<and> j < length (gn_registerTypes (en_gen env) fn)
       \<and> (\<forall>u. register_of env u = Some (fn, j) \<longrightarrow> u = v))"

definition phi_ready :: "'s env \<Rightarrow> string \<Rightarrow> 's gctx \<Rightarrow> phi_dep \<Rightarrow> bool" where
  "phi_ready env fn gc it \<longleftrightarrow>
     own_register env fn (InstV fn (fst it)) \<and> (const_val (snd it) \<or> own_register env fn (snd it))
     \<and> (\<exists>bs off t. vMap env gc (snd it) = Ok bs \<and> vReg env (InstV fn (fst it)) = Ok (off, t)
          \<and> length bs = dl_store (en_dl env) t)"

context register_layout begin

lemma write_one_phi:
  assumes "en_dl env = dl" and "regs_fit env gc" and "phi_ready env fn gc (n, v)"
  obtains gc' bs where "vMap env gc v = Ok bs" and "store_result env (InstV fn n) bs gc = Ok gc'"
    and "vMap env gc' (InstV fn n) = Ok bs" and "regs_fit env gc'"
    and "\<And>u. const_val u \<or> own_register env fn u \<and> u \<noteq> InstV fn n \<Longrightarrow> vMap env gc' u = vMap env gc u"
proof -
  have own: "own_register env fn (InstV fn n)"
    and ex: "\<exists>bs off t. vMap env gc v = Ok bs \<and> vReg env (InstV fn n) = Ok (off, t)
      \<and> length bs = dl_store dl t"
    using assms(1,3) by (simp_all add: phi_ready_def)
  from ex obtain bs off t where
    v: "vMap env gc v = Ok bs" "vReg env (InstV fn n) = Ok (off, t)" "length bs = dl_store dl t"
    by blast
  from own obtain j where
    j: "register_of env (InstV fn n) = Some (fn, j)" "j < length (gn_registerTypes (en_gen env) fn)"
      "\<forall>u. register_of env u = Some (fn, j) \<longrightarrow> u = InstV fn n"
    unfolding own_register_def by blast
  have t: "t = gn_registerTypes (en_gen env) fn ! j"
    using v(2) vReg_register_of(1) [OF j(1)] by simp
  show thesis
  proof (rule register_write_read [OF assms(1,2) j(1,2) _ v(2)])
    show "length bs = dl_store dl (gn_registerTypes (en_gen env) fn ! j)"
      using v(3) t by simp
    fix gc'
    assume g: "store_reg off bs gc = Ok gc'" "vMap env gc' (InstV fn n) = Ok bs" "regs_fit env gc'"
      and other: "\<And>u k. register_of env u = Some (fn, k) \<Longrightarrow>
        k < length (gn_registerTypes (en_gen env) fn) \<Longrightarrow> k \<noteq> j \<Longrightarrow> vMap env gc' u = vMap env gc u"
    show thesis
    proof (rule that [OF v(1) _ g(2,3)])
      show "store_result env (InstV fn n) bs gc = Ok gc'"
        using v(2) g(1) by (simp add: store_result_def)
      fix u
      assume "const_val u \<or> own_register env fn u \<and> u \<noteq> InstV fn n"
      then show "vMap env gc' u = vMap env gc u"
      proof
        assume "const_val u"
        then show ?thesis by (rule vMap_const)
      next
        assume u: "own_register env fn u \<and> u \<noteq> InstV fn n"
        then obtain k where k: "register_of env u = Some (fn, k)"
            "k < length (gn_registerTypes (en_gen env) fn)"
          by (auto simp: own_register_def)
        with u j(3) have "k \<noteq> j" by auto
        with other k show ?thesis by blast
      qed
    qed
  qed
qed

lemma write_phis_parallel:
  assumes "en_dl env = dl" and "regs_fit env gc" and "good_order fn order"
    and "distinct (map fst order)" and "\<And>it. it \<in> set order \<Longrightarrow> phi_ready env fn gc it"
  shows "\<exists>gc'. write_phis env fn order gc = Ok gc' \<and> regs_fit env gc'
    \<and> (\<forall>(n, v) \<in> set order. vMap env gc' (InstV fn n) = vMap env gc v)
    \<and> (\<forall>u. (const_val u \<or> own_register env fn u) \<and> u \<notin> (InstV fn \<circ> fst) ` set order \<longrightarrow>
        vMap env gc' u = vMap env gc u)"
  using assms(2-5)
proof (induction order arbitrary: gc)
  case Nil
  then show ?case by simp
next
  case (Cons it order)
  obtain n v where it: "it = (n, v)"
    by (cases it)
  show ?case
  proof (rule write_one_phi [OF assms(1) Cons.prems(1)])
    show "phi_ready env fn gc (n, v)"
      using Cons.prems(4) [of it] it by simp
    fix gc1 bs
    assume v: "vMap env gc v = Ok bs" and s: "store_result env (InstV fn n) bs gc = Ok gc1"
      and n: "vMap env gc1 (InstV fn n) = Ok bs" and fit: "regs_fit env gc1"
      and keep: "\<And>u. const_val u \<or> own_register env fn u \<and> u \<noteq> InstV fn n \<Longrightarrow>
        vMap env gc1 u = vMap env gc u"
    have same: "vMap env gc1 (snd jt) = vMap env gc (snd jt)" if "jt \<in> set order" for jt
    proof (rule keep)
      have "snd jt \<noteq> InstV fn n"
        using Cons.prems(2) that it by (cases jt) (auto simp: hasDepender_set)
      with Cons.prems(4) [of jt] that
      show "const_val (snd jt) \<or> own_register env fn (snd jt) \<and> snd jt \<noteq> InstV fn n"
        by (auto simp: phi_ready_def)
    qed
    have ready: "phi_ready env fn gc1 jt" if "jt \<in> set order" for jt
      using Cons.prems(4) [of jt] same [OF that] that by (simp add: phi_ready_def)
    have own: "own_register env fn (InstV fn n)"
      using Cons.prems(4) [of it] it by (simp add: phi_ready_def)
    obtain gc' where gc': "write_phis env fn order gc1 = Ok gc'" "regs_fit env gc'"
      "\<forall>(n, v) \<in> set order. vMap env gc' (InstV fn n) = vMap env gc1 v"
      "\<forall>u. (const_val u \<or> own_register env fn u) \<and> u \<notin> (InstV fn \<circ> fst) ` set order \<longrightarrow>
        vMap env gc' u = vMap env gc1 u"
      using Cons.IH [OF fit _ _ ready] Cons.prems(2,3) by auto
    have "InstV fn n \<notin> (InstV fn \<circ> fst) ` set order"
      using Cons.prems(3) it by auto
    then have "vMap env gc' (InstV fn n) = Ok bs"
      using spec [OF gc'(4), of "InstV fn n"] own n by simp
    moreover have "\<forall>(m, u) \<in> set order. vMap env gc' (InstV fn m) = vMap env gc u"
      using gc'(3) same by fastforce
    moreover have "vMap env gc' u = vMap env gc u"
      if "const_val u \<or> own_register env fn u" "u \<notin> (InstV fn \<circ> fst) ` set (it # order)" for u
      using that gc'(4) keep [of u] it by auto
    ultimately show ?case
      using gc'(1,2) v s it by (intro exI [of _ gc']) auto
  qed
qed

end

section \<open>Properties\<close>

text \<open>
  C13: a branch writes the PHI nodes of its target as one parallel assignment: if no node
  needs itself, then afterwards every node holds the value its incoming operand had before
  the branch, in whatever order the generator's map gave the nodes.
\<close>

theorem phi_nodes_parallel:
  assumes "en_dl env = dmc_layout" and "regs_fit env gc"
    and "phi_dependencies to from = Ok D" and "distinct (map fst D)"
    and "mset (en_order env D) = mset D" and "acyclic (needs fn D)"
    and "\<And>it. it \<in> set D \<Longrightarrow> phi_ready env fn gc it"
  shows "\<exists>gc'. generateStoresForPHINodes env fn from to gc = Ok gc'
    \<and> (\<forall>(n, v) \<in> set D. vMap env gc' (InstV fn n) = vMap env gc v)"
proof -
  have set: "set (en_order env D) = set D"
    using assms(5) by (rule mset_eq_setD)
  then have "needs fn (en_order env D) = needs fn D"
    by (simp add: needs_def)
  with assms(6) obtain order where o: "phi_schedule fn (en_order env D) = Some order"
    using phi_schedule_complete [of fn "en_order env D"] by auto
  from phi_schedule_good [OF o] assms(5) have g: "good_order fn order" "mset order = mset D"
    by simp_all
  from g(2) have s: "set order = set D" "mset (map fst order) = mset (map fst D)"
    by (rule mset_eq_setD) (simp add: g(2))
  then have d: "distinct (map fst order)"
    using assms(4) mset_eq_imp_distinct_iff by blast
  have ready: "\<And>it. it \<in> set order \<Longrightarrow> phi_ready env fn gc it"
    using assms(7) s(1) by simp
  from dmc.write_phis_parallel [OF assms(1,2) g(1) d ready] s(1) o assms(3) show ?thesis
    by (auto simp: generateStoresForPHINodes_def phi_plan_def of_option_def)
qed

text \<open>
  C23: a PHI node that keeps its own value on an edge, which the input language allows, makes
  the generator stop with an assertion.
\<close>

theorem phi_self_reference_asserts:
  assumes "phi_dependencies to from = Ok D" and "distinct (map fst D)"
    and "mset (en_order env D) = mset D" and "(n, InstV fn n) \<in> set D"
  shows "generateStoresForPHINodes env fn from to gc = Fail Assertion"
proof -
  have set: "set (en_order env D) = set D"
    using assms(3) by (rule mset_eq_setD)
  have "mset (map fst (en_order env D)) = mset (map fst D)"
    using assms(3) by simp
  then have d: "distinct (map fst (en_order env D))"
    using assms(2) mset_eq_imp_distinct_iff by blast
  have "(n, n) \<in> needs fn (en_order env D)"
    using assms(4) set by (force simp: needs_def)
  then have not_acyclic: "\<not> acyclic (needs fn (en_order env D))"
    by (auto simp: acyclic_def)
  have "phi_schedule fn (en_order env D) = None"
  proof (rule ccontr)
    assume "phi_schedule fn (en_order env D) \<noteq> None"
    then obtain order where o: "phi_schedule fn (en_order env D) = Some order"
      by auto
    note g = phi_schedule_good [OF o]
    have same: "set order = set (en_order env D)"
      by (rule mset_eq_setD [OF conjunct2 [OF g]])
    have "mset (map fst order) = mset (map fst (en_order env D))"
      using g by simp
    then have "distinct (map fst order)"
      using d mset_eq_imp_distinct_iff by blast
    then have "acyclic (needs fn order)"
      using g good_order_acyclic by blast
    moreover have "needs fn order = needs fn (en_order env D)"
      by (simp add: needs_def same)
    ultimately have "acyclic (needs fn (en_order env D))"
      by simp
    with not_acyclic show False by simp
  qed
  with assms(1) show ?thesis
    by (simp add: generateStoresForPHINodes_def phi_plan_def of_option_def)
qed

text \<open>A loop header of \<open>inc\<close> with one node, once fed by the argument and once by itself.\<close>

definition ex_phi_block :: "instruction list" where
  "ex_phi_block = [\<lparr>i_id = 11, i_ty = IntTy 32, i_op = PHI [(0, ArgV ''inc'' 0), (1, InstV ''inc'' 11)]\<rparr>]"

lemma ex_reg_index: "reg_index ex_gen F v
    = (if v = InstReg 11 then Some 1 else if F = ''inc'' \<and> v = ArgReg 0 then Some 0 else None)"
  unfolding ex_gen_def ex_groups
  by (auto simp: createRegisterMapping_def createRegisterMappingForFunction_def
      generator_new_def inc_module_def inc_func_def inc_insts_def args_of_def regs_of_def f_insts_def
      newmap_def reg_index_def split: reg_value.splits)

lemma ex_phi_ready: "phi_ready ex_env ''inc'' ex_ctx (11, ArgV ''inc'' 0)"
proof -
  have r: "register_of ex_env (ArgV ''inc'' 0) = Some (''inc'', 0)"
    "register_of ex_env (InstV ''inc'' 11) = Some (''inc'', 1)"
    by (simp_all add: register_of_def)
  have "own_register ex_env ''inc'' (ArgV ''inc'' 0)" "own_register ex_env ''inc'' (InstV ''inc'' 11)"
    using r unfolding own_register_def
    by (auto simp: register_of_def ex_reg_index split: val.splits if_splits)
  moreover have "vMap ex_env ex_ctx (ArgV ''inc'' 0) = Ok [41, 0, 0, 0]"
    using vReg_register_of(1) [OF r(1)]
    by (simp add: load_reg_def proc_at_def ex_process_def dmc_layout_def bytes_at_def)
  ultimately show ?thesis
    using vReg_register_of(1) [OF r(2)]
    by (simp add: phi_ready_def dmc_layout_def)
qed

theorem phi_nodes_parallel_witness:
  "\<exists>gc'. generateStoresForPHINodes ex_env ''inc'' 0 ex_phi_block ex_ctx = Ok gc'
    \<and> vMap ex_env gc' (InstV ''inc'' 11) = vMap ex_env ex_ctx (ArgV ''inc'' 0)"
proof -
  have "phi_dependencies ex_phi_block 0 = Ok [(11, ArgV ''inc'' 0)]"
    by (simp add: phi_dependencies_def ex_phi_block_def of_option_def)
  moreover have "acyclic (needs ''inc'' [(11, ArgV ''inc'' 0)])"
    by (simp add: needs_def acyclic_def)
  ultimately show ?thesis
    using phi_nodes_parallel [of ex_env ex_ctx ex_phi_block 0 "[(11, ArgV ''inc'' 0)]" "''inc''"]
      ex_phi_ready by simp
qed

theorem phi_self_reference_asserts_witness:
  "generateStoresForPHINodes ex_env ''inc'' 1 ex_phi_block ex_ctx = Fail Assertion"
  using phi_self_reference_asserts [of ex_phi_block 1 "[(11, InstV ''inc'' 11)]" ex_env 11 "''inc''"]
  by (simp add: phi_dependencies_def ex_phi_block_def of_option_def)

end
