(* ===== verification/LLMC_VM.thy ===== *)
theory LLMC_VM
  imports Prelude
begin

text \<open>
  The runtime functions the generated model calls (libllmcvm.c): the search in a list of
  entries, the comparison of memory and the checks that abort.
\<close>

section \<open>Lists of entries\<close>

text \<open>
  An entry is a key and a pointer of eight bytes each; a rest of the list that is not a whole
  entry is ignored.  The result is the value of the first entry with the key.
\<close>

definition entry_key :: "bytes \<Rightarrow> u64" where
  "entry_key m = u64_of (bytes_at 0 8 m)"

definition entry_val :: "bytes \<Rightarrow> u64" where
  "entry_val m = u64_of (bytes_at 8 8 m)"

fun find_entry :: "nat \<Rightarrow> bytes \<Rightarrow> u64 \<Rightarrow> u64 option" where
  "find_entry 0 m key = None"
| "find_entry (Suc n) m key =
     (if entry_key m = key then Some (entry_val m) else find_entry n (drop 16 m) key)"

definition llmc_list_find :: "bytes \<Rightarrow> nat \<Rightarrow> u64 \<Rightarrow> u64 option" where
  "llmc_list_find list len key = find_entry (len div 16) list key"

text \<open>The list of entries as bytes.\<close>

definition list_bytes :: "(u64 \<times> u64) list \<Rightarrow> bytes" where
  "list_bytes es = concat (map (\<lambda>(k, v). bytes_u64 k @ bytes_u64 v) es)"

lemma length_list_bytes: "length (list_bytes es) = 16 * length es"
  by (induction es) (auto simp: list_bytes_def)

lemma find_entry_map_of: "find_entry (length es) (list_bytes es @ junk) key = map_of es key"
proof (induction es)
  case (Cons e es)
  then have "find_entry (length es) (drop 16 (list_bytes (e # es) @ junk)) key = map_of es key"
    by (cases e) (simp add: list_bytes_def)
  moreover have "entry_key (list_bytes (e # es) @ junk) = fst e" "entry_val (list_bytes (e # es) @ junk) = snd e"
    by (simp_all add: list_bytes_def entry_key_def entry_val_def bytes_at_def split: prod.splits)
  ultimately show ?case by (cases e) auto
qed simp

text \<open>
  C36: \<open>llmc_list_find\<close> on the bytes of a list of entries, followed by an incomplete one, is the
  lookup of the key in the list.
\<close>

lemma llmc_list_find_correct:
  assumes "rest < 16"
  shows "llmc_list_find (list_bytes es @ junk) (length (list_bytes es) + rest) key = map_of es key"
proof -
  have "(16 * length es + rest) div 16 = length es"
    using assms by (simp add: div_mult_self3)
  with find_entry_map_of [of es junk key] show ?thesis
    by (simp add: llmc_list_find_def length_list_bytes)
qed

lemma llmc_list_find_correct_witness:
  "llmc_list_find (list_bytes [(7, 70), (9, 90)] @ [1, 2]) (length (list_bytes [(7, 70), (9, 90)]) + 2) 9 = Some 90"
  using llmc_list_find_correct [of 2 "[(7, 70), (9, 90)]" "[1, 2]" 9] by simp

section \<open>Checks\<close>

definition llmc_memory_check :: "u64 \<Rightarrow> int outcome" where
  "llmc_memory_check memAccess = (if memAccess = 0 then Fail AbortCall else Ok 0)"

definition LLMCOS_Assert_Fatal :: "bool \<Rightarrow> unit outcome" where
  "LLMCOS_Assert_Fatal condition = (if \<not> condition then Fail AbortCall else Ok ())"

definition LLMCOS_CheckRangeIsInRange :: "u64 \<Rightarrow> u64 \<Rightarrow> u64 \<Rightarrow> u64 \<Rightarrow> unit outcome" where
  "LLMCOS_CheckRangeIsInRange ptr ptr_size range_start range_bytes =
     (if ptr < range_start \<or> ptr + ptr_size > range_start + range_bytes then Fail AbortCall else Ok ())"

text \<open>
  When neither end of the two ranges wraps around, the range check lets exactly the
  contained ranges pass.
\<close>

lemma range_check_exact:
  assumes "unat ptr + unat ptr_size < 2 ^ 64" and "unat range_start + unat range_bytes < 2 ^ 64"
  shows "(LLMCOS_CheckRangeIsInRange ptr ptr_size range_start range_bytes = Ok ())
    = ({unat ptr..unat ptr + unat ptr_size} \<subseteq> {unat range_start..unat range_start + unat range_bytes})"
proof -
  have "unat (ptr + ptr_size) = unat ptr + unat ptr_size"
    "unat (range_start + range_bytes) = unat range_start + unat range_bytes"
    using assms by (simp_all add: unat_word_ariths)
  then show ?thesis
    by (auto simp: LLMCOS_CheckRangeIsInRange_def word_less_nat_alt)
qed

definition LLMCOS_Fatal :: "unit outcome" where
  "LLMCOS_Fatal = Fail AbortCall"

section \<open>Comparison of memory\<close>

text \<open>
  \<open>memcmp\<close> of the C library compares the first \<open>n\<close> bytes; C only fixes the sign of the result, so the result is taken
  to be the sign.  Both objects must have \<open>n\<close> bytes.
\<close>

fun memcmp :: "bytes \<Rightarrow> bytes \<Rightarrow> int" where
  "memcmp (x # xs) (y # ys) = (if x = y then memcmp xs ys else if x < y then - 1 else 1)"
| "memcmp _ _ = 0"

definition LLMCOS_memcmp :: "bytes \<Rightarrow> bytes \<Rightarrow> nat \<Rightarrow> int outcome" where
  "LLMCOS_memcmp s1 s2 n =
     (if n \<le> length s1 \<and> n \<le> length s2 then Ok (memcmp (take n s1) (take n s2)) else Fail BadAccess)"

lemma memcmp_zero: "length xs = length ys \<Longrightarrow> memcmp xs ys = 0 \<longleftrightarrow> xs = ys"
  by (induction xs ys rule: list_induct2) auto

lemma memcmp_antisym: "length xs = length ys \<Longrightarrow> memcmp ys xs = - memcmp xs ys"
  by (induction xs ys rule: list_induct2) auto

lemma LLMCOS_memcmp_zero:
  "LLMCOS_memcmp s1 s2 n = Ok 0 \<longleftrightarrow> n \<le> length s1 \<and> n \<le> length s2 \<and> take n s1 = take n s2"
  by (auto simp: LLMCOS_memcmp_def memcmp_zero)

text \<open>\<open>createMemAssert\<close> of the generator writes a comparison that ends the model with \<open>exit(1)\<close>.\<close>

definition createMemAssert :: "bytes \<Rightarrow> bytes \<Rightarrow> nat \<Rightarrow> unit outcome" where
  "createMemAssert a b len =
     obind (LLMCOS_memcmp a b len) (\<lambda>cmp. if cmp \<noteq> 0 then Fail AbortCall else Ok ())"

section \<open>A loop without effect\<close>

text \<open>
  \<open>llmc_print_chunk\<close> still walks over the bytes, but the output is a comment.  The pointers are compared as
  numbers; the result here is where the pointer stops.
\<close>

function print_chunk_loop :: "u64 \<Rightarrow> u64 \<Rightarrow> u64" where
  "print_chunk_loop data data_end = (if data < data_end then print_chunk_loop (data + 1) data_end else data)"
  by pat_completeness auto
termination
proof (relation "measure (\<lambda>(data, data_end). unat data_end - unat data)", goal_cases)
  case (2 data data_end)
  then have less: "unat data < unat data_end"
    by (simp add: word_less_nat_alt)
  then have "unat data + 1 < 2 ^ 64"
    using unat_less_power [of data_end] by simp
  with less show ?case
    by (simp add: unat_word_ariths)
qed simp

declare print_chunk_loop.simps [simp del]

definition llmc_print_chunk :: "u64 \<Rightarrow> u32 \<Rightarrow> u64" where
  "llmc_print_chunk data len = print_chunk_loop data (data + scast len)"

lemma print_chunk_stops: "print_chunk_loop data data_end = max data data_end"
proof (induction data data_end rule: print_chunk_loop.induct)
  case (1 data data_end)
  show ?case
  proof (cases "data < data_end")
    case True
    then have "data + 1 \<le> data_end" "data \<le> data_end"
      by (simp_all add: inc_le)
    with 1 True show ?thesis
      by (simp add: print_chunk_loop.simps [of data] max_def)
  next
    case False
    then show ?thesis
      by (auto simp: print_chunk_loop.simps [of data] max_def)
  qed
qed

end
