(* ===== verification/Instructions.thy ===== *)
theory Instructions
  imports Process_Stack Phi_Nodes LLMC_VM
begin

text \<open>
  The handlers of the instructions (\<open>generateNextStateForInstruction\<close> and
  \<open>generateNextStateForCall\<close> in LLDMCModelGenerator.h).  Each handler is given the name of the
  function it generates code for and the instruction, and transforms the context as the
  emitted code does; a generation-time assertion is the failure of the handler.
\<close>

section \<open>Instructions that are cloned into the model\<close>

text \<open>
  The operands are mapped, the instruction itself runs unchanged, and its result goes to
  its register.  The assertion \<open>assert(valueRegisterIndex[I])\<close> reads the index, so it
  rejects the register with index 0 as well as a missing one.
\<close>

definition operands :: "instruction \<Rightarrow> val list" where
  "operands I =
     (case i_op I of
        GetElementPtr vs \<Rightarrow> vs | ExtractElement vs \<Rightarrow> vs | InsertElement vs \<Rightarrow> vs
      | InsertValue vs \<Rightarrow> vs | OtherOp op vs \<Rightarrow> vs | _ \<Rightarrow> [])"

definition generateNextStateForInstructionValueMapped ::
  "'s env \<Rightarrow> string \<Rightarrow> instruction \<Rightarrow> 's gctx \<Rightarrow> 's gctx outcome" where
  "generateNextStateForInstructionValueMapped env fn I gc =
     obind (vMapOperands env gc (operands I)) (\<lambda>xs.
       if i_ty I = VoidTy then Ok gc
       else if reg_index (en_gen env) fn (InstReg (i_id I)) \<in> {None, Some 0} then Fail Assertion
       else store_result env (InstV fn (i_id I)) (en_exec env I xs) gc)"

section \<open>Atomic instructions\<close>

text \<open>Arithmetic on the bytes of two values of the same integer type.\<close>

definition sint_bytes :: "bytes \<Rightarrow> int" where
  "sint_bytes bs = (if 2 * le_nat bs < 256 ^ length bs then int (le_nat bs)
     else int (le_nat bs) - 256 ^ length bs)"

definition add_bytes :: "bytes \<Rightarrow> bytes \<Rightarrow> bytes" where
  "add_bytes a b = nat_le (length a) (le_nat a + le_nat b)"

definition sub_bytes :: "bytes \<Rightarrow> bytes \<Rightarrow> bytes" where
  "sub_bytes a b = nat_le (length a) (le_nat a + 256 ^ length a - le_nat b)"

definition rmw_value :: "'s env \<Rightarrow> rmw_op \<Rightarrow> ty \<Rightarrow> bytes \<Rightarrow> bytes \<Rightarrow> bytes outcome" where
  "rmw_value env op t oldVal val =
     (case op of
        RMW_Xchg \<Rightarrow> Ok val
      | RMW_Add \<Rightarrow> Ok (add_bytes oldVal val)
      | RMW_Sub \<Rightarrow> Ok (sub_bytes oldVal val)
      | RMW_And \<Rightarrow> Ok (map2 and oldVal val)
      | RMW_Nand \<Rightarrow> Ok (map not (add_bytes oldVal val))
      | RMW_Or \<Rightarrow> Ok (map2 or oldVal val)
      | RMW_Xor \<Rightarrow> Ok (map2 xor oldVal val)
      | RMW_Max \<Rightarrow> Ok (if sint_bytes oldVal < sint_bytes val then val else oldVal)
      | RMW_Min \<Rightarrow> Ok (if sint_bytes oldVal < sint_bytes val then oldVal else val)
      | RMW_UMax \<Rightarrow> Ok (if le_nat oldVal < le_nat val then val else oldVal)
      | RMW_UMin \<Rightarrow> Ok (if le_nat oldVal < le_nat val then oldVal else val)
      | RMW_FAdd \<Rightarrow> Ok (en_expr env ''fadd'' t [oldVal, val])
      | RMW_FSub \<Rightarrow> Ok (en_expr env ''fsub'' t [oldVal, val])
      | RMW_Bad \<Rightarrow> Fail AbortCall)"

text \<open>The handler returns the old value to the dispatcher, which drops it.\<close>

definition generateNextStateForAtomicRMW ::
  "'s env \<Rightarrow> rmw_op \<Rightarrow> val \<Rightarrow> val \<Rightarrow> ty \<Rightarrow> 's gctx \<Rightarrow> (bytes \<times> 's gctx) outcome" where
  "generateNextStateForAtomicRMW env op ptrOperand valOperand t gc =
     obind (vGetMemOffset env gc ptrOperand) (\<lambda>ptr.
     obind (vMap env gc valOperand) (\<lambda>val.
     obind (generateLoad env gc ptr t) (\<lambda>oldVal.
     obind (rmw_value env op t oldVal val) (\<lambda>newVal.
     obind (generateStore env ptr newVal t gc) (\<lambda>gc'. Ok (oldVal, gc'))))))"

text \<open>The result register is the struct of the loaded value and the success flag.\<close>

definition generateNextStateForAtomicCmpXchg ::
  "'s env \<Rightarrow> val \<Rightarrow> val \<Rightarrow> val \<Rightarrow> val \<Rightarrow> ty \<Rightarrow> 's gctx \<Rightarrow> 's gctx outcome" where
  "generateNextStateForAtomicCmpXchg env I ptrOperand cmpOperand newOperand t gc =
     obind (vGetMemOffset env gc ptrOperand) (\<lambda>ptr.
     obind (vMap env gc cmpOperand) (\<lambda>expected.
     obind (vMap env gc newOperand) (\<lambda>desired.
     obind (generateLoad env gc ptr t) (\<lambda>loadedPtr.
     obind (vReg env I) (\<lambda>(resultReg, rt).
     let resultRegSuccess = resultReg + dl_elem (en_dl env) [t, IntTy 1] 1 in
     obind (store_reg resultReg loadedPtr gc) (\<lambda>gc.
       if loadedPtr = expected
       then obind (generateStore env ptr desired t gc) (store_reg resultRegSuccess [1])
       else store_reg resultRegSuccess [0] gc))))))"

definition generateNextStateForExtractValue ::
  "'s env \<Rightarrow> val \<Rightarrow> ty \<Rightarrow> val \<Rightarrow> ty \<Rightarrow> nat list \<Rightarrow> 's gctx \<Rightarrow> 's gctx outcome" where
  "generateNextStateForExtractValue env I t agg aggTy idxs gc =
     obind (vReg env agg) (\<lambda>(arg, at).
     obind (load_reg gc (arg + dl_field (en_dl env) aggTy idxs) (dl_store (en_dl env) t)) (\<lambda>v.
       store_result env I v gc))"

section \<open>Branches\<close>

definition block_of :: "func \<Rightarrow> nat \<Rightarrow> nat option" where
  "block_of F i = find (\<lambda>b. i \<in> i_id ` set (f_blocks F ! b)) [0..<length (f_blocks F)]"

text \<open>The location of a successor block, and the check of the generator that it has one.\<close>

definition block_location :: "generator \<Rightarrow> func \<Rightarrow> nat \<Rightarrow> nat outcome" where
  "block_location g F b =
     (if b < length (f_blocks F) then
        (case f_blocks F ! b of
           [] \<Rightarrow> Fail BadAccess
         | i # _ \<Rightarrow> (let loc = gn_programLocations g (i_id i)
                     in if loc = 0 then Fail Assertion else Ok loc))
      else Fail BadAccess)"

text \<open>
  Both targets of a conditional branch are generated, so an assertion in either of them stops
  the generator; at run time the program counter is selected by the condition and only the
  PHI nodes of the taken target are written.
\<close>

definition generateNextStateForBranch ::
  "'s env \<Rightarrow> func \<Rightarrow> nat \<Rightarrow> val option \<Rightarrow> nat list \<Rightarrow> 's gctx \<Rightarrow> 's gctx outcome" where
  "generateNextStateForBranch env F from cond succs gc =
     (let g = en_gen env; fn = f_name F in
      case (cond, succs) of
        (Some c, [s0, s1]) \<Rightarrow>
          obind (block_location g F s0) (\<lambda>locTrue.
          obind (block_location g F s1) (\<lambda>locFalse.
          obind (phi_plan env fn from (f_blocks F ! s0)) (\<lambda>_.
          obind (phi_plan env fn from (f_blocks F ! s1)) (\<lambda>_.
          obind (vMap env gc c) (\<lambda>cv.
            let taken = le_nat cv mod 2 = 1;
                gc = set_pc (gc_thread gc) (word_of_nat (if taken then locTrue else locFalse)) gc
            in generateStoresForPHINodes env fn from (f_blocks F ! (if taken then s0 else s1)) gc)))))
      | (Some c, _) \<Rightarrow> Ok gc
      | (None, [s0]) \<Rightarrow>
          obind (block_location g F s0) (\<lambda>loc.
            generateStoresForPHINodes env fn from (f_blocks F ! s0)
              (set_pc (gc_thread gc) (word_of_nat loc) gc))
      | (None, _) \<Rightarrow> Ok gc)"

section \<open>Calls of declared functions\<close>

definition arg :: "call_inst \<Rightarrow> nat \<Rightarrow> val outcome" where
  "arg c k = (if k < length (c_args c) then Ok (fst (c_args c ! k)) else Fail BadAccess)"

definition arg_pointee :: "call_inst \<Rightarrow> nat \<Rightarrow> ty outcome" where
  "arg_pointee c k =
     (if k < length (c_args c) then (case snd (c_args c ! k) of PtrTy t \<Rightarrow> Ok t | _ \<Rightarrow> Fail BadAccess)
      else Fail BadAccess)"

definition arg_pointer :: "'s env \<Rightarrow> 's gctx \<Rightarrow> call_inst \<Rightarrow> nat \<Rightarrow> u64 outcome" where
  "arg_pointer env gc c k = obind (arg c k) (vGetMemOffset env gc)"

definition arg_size :: "'s env \<Rightarrow> 's gctx \<Rightarrow> call_inst \<Rightarrow> nat \<Rightarrow> nat outcome" where
  "arg_size env gc c k = obind (arg c k) (\<lambda>v. obind (vMap env gc v) (\<lambda>bs. Ok (le_nat bs)))"

text \<open>Copying a range of the model's memory, as \<open>llvm.memcpy\<close> and the atomic calls do.\<close>

definition copy_memory :: "'s env \<Rightarrow> u64 \<Rightarrow> u64 \<Rightarrow> nat \<Rightarrow> 's gctx \<Rightarrow> 's gctx outcome" where
  "copy_memory env dst src len gc =
     obind (generateAccessToMemory env gc src len) (\<lambda>storage. generateStoreBytes env dst storage gc)"

definition call_intrinsic :: "'s env \<Rightarrow> string \<Rightarrow> call_inst \<Rightarrow> 's gctx \<Rightarrow> 's gctx outcome" where
  "call_intrinsic env name c gc =
     (if take 11 name = ''llvm.memcpy'' then
        obind (arg_pointer env gc c 0) (\<lambda>dst.
        obind (arg_pointer env gc c 1) (\<lambda>src.
        obind (arg_size env gc c 2) (\<lambda>len. copy_memory env dst src len gc)))
      else Ok gc)"

text \<open>
  The two forms of the atomic library calls: with a leading size argument, or with three
  parameters and the size of the pointed-to type.
\<close>

definition call_atomic_load :: "'s env \<Rightarrow> nat \<Rightarrow> call_inst \<Rightarrow> 's gctx \<Rightarrow> 's gctx outcome" where
  "call_atomic_load env nparams c gc =
     (if nparams = 3 then
        obind (arg_pointer env gc c 0) (\<lambda>ptr.
        obind (arg_pointer env gc c 1) (\<lambda>ret.
        obind (arg_pointee c 0) (\<lambda>t. copy_memory env ret ptr (aligned env t) gc)))
      else
        obind (arg_size env gc c 0) (\<lambda>len.
        obind (arg_pointer env gc c 1) (\<lambda>ptr.
        obind (arg_pointer env gc c 2) (\<lambda>ret. copy_memory env ret ptr len gc))))"

definition call_atomic_store :: "'s env \<Rightarrow> nat \<Rightarrow> call_inst \<Rightarrow> 's gctx \<Rightarrow> 's gctx outcome" where
  "call_atomic_store env nparams c gc =
     (if nparams = 3 then
        obind (arg_pointer env gc c 0) (\<lambda>ptr.
        obind (arg_pointer env gc c 1) (\<lambda>v.
        obind (arg_pointee c 0) (\<lambda>t. copy_memory env ptr v (aligned env t) gc)))
      else
        obind (arg_size env gc c 0) (\<lambda>len.
        obind (arg_pointer env gc c 1) (\<lambda>ptr.
        obind (arg_pointer env gc c 2) (\<lambda>v. copy_memory env ptr v len gc))))"

definition atomic_compare_exchange ::
  "'s env \<Rightarrow> val \<Rightarrow> u64 \<Rightarrow> u64 \<Rightarrow> u64 \<Rightarrow> nat \<Rightarrow> 's gctx \<Rightarrow> 's gctx outcome" where
  "atomic_compare_exchange env I ptr expected desired len gc =
     obind (generateAccessToMemory env gc ptr len) (\<lambda>storagePtr.
     obind (generateAccessToMemory env gc expected len) (\<lambda>storageExpected.
     obind (generateAccessToMemory env gc desired len) (\<lambda>storageDesired.
     obind (LLMCOS_memcmp storagePtr storageExpected len) (\<lambda>cmp.
       if cmp = 0
       then obind (generateStoreBytes env ptr storageDesired gc) (store_result env I [1])
       else obind (generateStoreBytes env expected storagePtr gc) (store_result env I [0])))))"

lemma atomic_compare_exchange_eq:
  assumes "generateAccessToMemory env gc ptr len = Ok old" and "generateAccessToMemory env gc expected len = Ok cmp"
    and "generateAccessToMemory env gc desired len = Ok new" and "length old = len" and "length cmp = len"
  shows "atomic_compare_exchange env I ptr expected desired len gc =
    (if old = cmp then obind (generateStoreBytes env ptr new gc) (store_result env I [1])
     else obind (generateStoreBytes env expected old gc) (store_result env I [0]))"
  using assms by (simp add: atomic_compare_exchange_def LLMCOS_memcmp_def memcmp_zero)

definition call_atomic_compare_exchange ::
  "'s env \<Rightarrow> val \<Rightarrow> call_inst \<Rightarrow> 's gctx \<Rightarrow> 's gctx outcome" where
  "call_atomic_compare_exchange env I c gc =
     (case c_args c of
        (_, PtrTy t) # _ \<Rightarrow>
          obind (arg_pointer env gc c 0) (\<lambda>ptr.
          obind (arg_pointer env gc c 1) (\<lambda>expected.
          obind (arg_pointer env gc c 2) (\<lambda>desired.
            atomic_compare_exchange env I ptr expected desired (aligned env t) gc)))
      | _ \<Rightarrow>
          obind (arg_size env gc c 0) (\<lambda>len.
          obind (arg_pointer env gc c 1) (\<lambda>ptr.
          obind (arg_pointer env gc c 2) (\<lambda>expected.
          obind (arg_pointer env gc c 3) (\<lambda>desired.
            atomic_compare_exchange env I ptr expected desired len gc)))))"

text \<open>The size operand is cast to the 32 bits of \<open>msize\<close>.\<close>

definition call_malloc :: "'s env \<Rightarrow> val \<Rightarrow> call_inst \<Rightarrow> 's gctx \<Rightarrow> 's gctx outcome" where
  "call_malloc env I c gc =
     obind (arg_size env gc c 0) (\<lambda>n.
     obind (generateAllocateMemory (word_of_nat n) gc) (\<lambda>(ptr, gc). store_result env I (bytes_u64 ptr) gc))"

section \<open>Threads\<close>

text \<open>
  \<open>pthread_create\<close> takes the first slot whose program counter is 0.  Without a free slot the
  program counter goes back to the call, so the call is tried again.
\<close>

definition start_thread ::
  "'s env \<Rightarrow> call_inst \<Rightarrow> nat \<Rightarrow> 's gctx \<Rightarrow> 's gctx outcome" where
  "start_thread env c tIdx gc =
     obind (arg c 2) (\<lambda>routine.
     obind (arg c 3) (\<lambda>argument.
       case routine of
         FunctionV n \<Rightarrow>
           obind (of_option BadAccess (getFunction (gn_module (en_gen env)) n)) (\<lambda>F.
             pushStackFrame env F [argument] None tIdx gc)
       | _ \<Rightarrow>
           (case snd (c_args c ! 2) of
              PtrTy (FunTy r params vararg) \<Rightarrow>
                obind (vGetMemOffset env gc routine) (\<lambda>fVal.
                obind (vMap env gc argument) (\<lambda>v.
                  pushStackFrameIndirect env params vararg fVal [v] None tIdx gc))
            | _ \<Rightarrow> Fail AbortCall)))"

definition register_thread :: "'s env \<Rightarrow> call_inst \<Rightarrow> nat \<Rightarrow> 's gctx \<Rightarrow> 's gctx outcome" where
  "register_thread env c tIdx gc =
     (let threadsStarted = sv_threadsStarted (gc_svout gc) + 1;
          gc = upd_proc tIdx (\<lambda>p. p\<lparr>p_tid := threadsStarted\<rparr>) gc;
          gc = upd_sv (\<lambda>sv. sv\<lparr>sv_threadsStarted := threadsStarted\<rparr>) gc
      in obind (arg_pointer env gc c 0) (\<lambda>pid.
           generateStore env pid (bytes_u64 (ucast threadsStarted)) (IntTy 64) gc))"

fun create_in_slot :: "'s env \<Rightarrow> nat \<Rightarrow> call_inst \<Rightarrow> nat list \<Rightarrow> 's gctx \<Rightarrow> 's gctx outcome" where
  "create_in_slot env I c [] gc =
     Ok (set_pc (gc_thread gc) (word_of_nat (gn_programLocations (en_gen env) I)) gc)"
| "create_in_slot env I c (tIdx # slots) gc =
     obind (proc_at tIdx (gc_svout gc)) (\<lambda>p.
       if p_pc p = 0 then obind (start_thread env c tIdx gc) (register_thread env c tIdx)
       else create_in_slot env I c slots gc)"

definition call_pthread_create :: "'s env \<Rightarrow> nat \<Rightarrow> call_inst \<Rightarrow> 's gctx \<Rightarrow> 's gctx outcome" where
  "call_pthread_create env I c gc = create_in_slot env I c [0..<MAX_THREADS] gc"

text \<open>
  \<open>pthread_join\<close> writes 0 to its result register, reads the entry of the thread in the list
  of results (a status and a value of 8 bytes each, at 16 times the thread number) and goes on
  only if the status is not 0; the value is then stored through the second argument, unless
  that is null.
\<close>

definition call_pthread_join :: "'s env \<Rightarrow> val \<Rightarrow> ty \<Rightarrow> call_inst \<Rightarrow> 's gctx \<Rightarrow> 's gctx outcome" where
  "call_pthread_join env I t c gc =
     obind (store_result env I (replicate (dl_store (en_dl env) t) 0) gc) (\<lambda>gc.
     obind (arg c 0) (\<lambda>thread.
     obind (vReg env thread) (\<lambda>(off, _).
     obind (load_reg gc off 8) (\<lambda>tid.
     let tid32 = (word_of_nat (le_nat tid) :: u32) in
     obind (downloadPartBytes env (gc_store gc) (sv_tres (gc_svout gc)) (unat (tid32 * 16)) 16) (\<lambda>result.
     obind (arg_pointer env gc c 1) (\<lambda>resultPointer.
       if u64_of (bytes_at 0 8 result) = 0 then NoReport
       else if resultPointer = 0 then Ok gc
       else generateStore env resultPointer (bytes_at 8 8 result) (PtrTy (IntTy 8)) gc))))))"

end
