(* ===== verification/Dispatch.thy ===== *)
theory Dispatch
  imports Instructions
begin

text \<open>
  \<open>generateNextStateForCall\<close> and the general \<open>generateNextStateForInstruction\<close> of
  LLDMCModelGenerator.h, which select the handler of an instruction, and what every handler leaves alone.
\<close>

section \<open>Calls\<close>

text \<open>
  Inline assembly is accepted only as a compiler barrier or \<open>mfence\<close>, and has no effect; the
  pair holds the assembly string and the constraint string.
\<close>

definition barrier_constraints :: string where
  "barrier_constraints = ''~{memory},~{dirflag},~{fpsr},~{flags}''"

definition call_inline_asm :: "string \<times> string \<Rightarrow> 's gctx \<Rightarrow> 's gctx outcome" where
  "call_inline_asm asm gc =
     (if snd asm = barrier_constraints \<and> (fst asm = '''' \<or> fst asm = ''mfence'') then Ok gc
      else Fail Assertion)"

text \<open>A callee that is not a function: its value is the location to continue at.\<close>

definition call_pointer :: "'s env \<Rightarrow> string \<Rightarrow> nat \<Rightarrow> call_inst \<Rightarrow> 's gctx \<Rightarrow> 's gctx outcome" where
  "call_pointer env fn I c gc =
     obind (vMap env gc (c_callee c)) (\<lambda>fValue.
     obind (omap (vMap env gc) (map fst (c_args c))) (\<lambda>args.
       case c_fty c of
         FunTy r params vararg \<Rightarrow>
           pushStackFrameIndirect env params vararg (u64_of fValue) args (Some (fn, I)) (gc_thread gc) gc
       | _ \<Rightarrow> Fail BadAccess))"

text \<open>
  A declared function.  The listed hooks of the LLMC runtime, a function of the loaded
  runtime module and a function that is not known at all have no effect on the state; the
  last is reported while the model is generated.
\<close>

definition call_declaration ::
  "'s env \<Rightarrow> string \<Rightarrow> instruction \<Rightarrow> call_inst \<Rightarrow> func \<Rightarrow> 's gctx \<Rightarrow> 's gctx outcome" where
  "call_declaration env fn I c F gc =
     (let n = f_name F; res = InstV fn (i_id I) in
      if isIntrinsic F then call_intrinsic env n c gc
      else if n = ''__atomic_load'' then call_atomic_load env (length (f_params F)) c gc
      else if n = ''__atomic_store'' then call_atomic_store env (length (f_params F)) c gc
      else if n = ''__atomic_compare_exchange'' then call_atomic_compare_exchange env res c gc
      else if n = ''malloc'' then call_malloc env res c gc
      else if n \<in> {''__LLMCOS_Object_CheckAccess'', ''__LLMCOS_Object_CheckNotOverlapping'',
          ''__LLMCOS_Fatal'', ''__LLMCOS_Warning'', ''__assert_fail''} then Ok gc
      else if n = ''pthread_create'' then call_pthread_create env (i_id I) c gc
      else if n = ''pthread_join'' then call_pthread_join env res (i_ty I) c gc
      else Ok gc)"

definition generateNextStateForCall ::
  "'s env \<Rightarrow> string \<Rightarrow> instruction \<Rightarrow> call_inst \<Rightarrow> 's gctx \<Rightarrow> 's gctx outcome" where
  "generateNextStateForCall env fn I c gc =
     (case c_asm c of
        Some asm \<Rightarrow> call_inline_asm asm gc
      | None \<Rightarrow>
          (case getCalledFunction (gn_module (en_gen env)) c of
             None \<Rightarrow> call_pointer env fn (i_id I) c gc
           | Some F \<Rightarrow>
               if f_decl F then call_declaration env fn I c F gc
               else pushStackFrame env F (map fst (c_args c)) (Some (fn, i_id I)) (gc_thread gc) gc))"

section \<open>Instructions\<close>

definition generateNextStateForInstruction ::
  "'s env \<Rightarrow> func \<Rightarrow> instruction \<Rightarrow> 's gctx \<Rightarrow> 's gctx outcome" where
  "generateNextStateForInstruction env F I gc =
     (let fn = f_name F; res = InstV fn (i_id I) in
      case i_op I of
        Alloca t \<Rightarrow> generateNextStateForAlloca env res t gc
      | Load ptr atomic \<Rightarrow> generateNextStateForLoad env res (i_ty I) ptr gc
      | Store v t ptr atomic \<Rightarrow> generateNextStateForStore env v t ptr gc
      | Ret result \<Rightarrow> popStackFrame env result gc
      | Br cond succs \<Rightarrow>
          obind (of_option BadAccess (block_of F (i_id I))) (\<lambda>from.
            generateNextStateForBranch env F from cond succs gc)
      | AtomicCmpXchg ptr expected desired t \<Rightarrow>
          generateNextStateForAtomicCmpXchg env res ptr expected desired t gc
      | Call c \<Rightarrow> generateNextStateForCall env fn I c gc
      | ExtractValue agg aggTy idxs \<Rightarrow> generateNextStateForExtractValue env res (i_ty I) agg aggTy idxs gc
      | PHI incoming \<Rightarrow> Ok gc
      | Unreachable \<Rightarrow> Ok gc
      | AtomicRMW op ptr v t \<Rightarrow>
          obind (generateNextStateForAtomicRMW env op ptr v t gc) (\<lambda>(oldVal, gc). Ok gc)
      | Switch \<Rightarrow> Fail Assertion | IndirectBr \<Rightarrow> Fail Assertion | Invoke \<Rightarrow> Fail Assertion
      | Resume \<Rightarrow> Fail Assertion | CleanupRet \<Rightarrow> Fail Assertion | CatchRet \<Rightarrow> Fail Assertion
      | CatchSwitch \<Rightarrow> Fail Assertion | Fence \<Rightarrow> Fail Assertion | CleanupPad \<Rightarrow> Fail Assertion
      | VAArg \<Rightarrow> Fail Assertion | ShuffleVector \<Rightarrow> Fail Assertion | LandingPad \<Rightarrow> Fail Assertion
      | _ \<Rightarrow> generateNextStateForInstructionValueMapped env fn I gc)"

section \<open>What handlers leave alone\<close>

text \<open>
  The shape of a state vector: the fixed number of process slots, each with a register area of
  the generator's size.
\<close>

definition sv_wf :: "'s env \<Rightarrow> statevector \<Rightarrow> bool" where
  "sv_wf env sv \<longleftrightarrow> length (sv_processes sv) = MAX_THREADS
     \<and> (\<forall>p \<in> set (sv_processes sv). length (p_r p) = en_regs env)"

text \<open>
  \<open>keeps env gc gc'\<close>: the running thread, the source state and the global status are the
  same, and the shape of the state vector is kept.
\<close>

definition keeps :: "'s env \<Rightarrow> 's gctx \<Rightarrow> 's gctx \<Rightarrow> bool" where
  "keeps env gc gc' \<longleftrightarrow> gc_thread gc' = gc_thread gc \<and> gc_src gc' = gc_src gc
     \<and> sv_status (gc_svout gc') = sv_status (gc_svout gc)
     \<and> (sv_wf env (gc_svout gc) \<longrightarrow> sv_wf env (gc_svout gc'))"

named_theorems keeps_rules \<open>pieces of generated code that keep the shape of the state\<close>

lemma keeps_refl [simp, intro!]: "keeps env gc gc"
  by (simp add: keeps_def)

lemma keeps_trans [trans]: "keeps env a b \<Longrightarrow> keeps env b c \<Longrightarrow> keeps env a c"
  by (simp add: keeps_def)

lemma keeps_store [simp]: "keeps env gc (gc\<lparr>gc_store := s\<rparr>)"
  by (simp add: keeps_def)

lemma sv_wf_update:
  assumes "sv_wf env sv" and "t < MAX_THREADS \<Longrightarrow> length (p_r p) = en_regs env"
    and "sv_processes sv' = (sv_processes sv)[t := p]"
  shows "sv_wf env sv'"
proof (cases "t < MAX_THREADS")
  case True
  with assms show ?thesis
    by (auto simp: sv_wf_def dest: set_update_subset_insert [THEN subsetD])
next
  case False
  with assms show ?thesis
    by (simp add: sv_wf_def list_update_beyond)
qed

lemma keeps_upd_proc:
  assumes "\<And>p. length (p_r p) = en_regs env \<Longrightarrow> length (p_r (f p)) = en_regs env"
  shows "keeps env gc (upd_proc t f gc)"
proof -
  have "sv_wf env (gc_svout (upd_proc t f gc))" if "sv_wf env (gc_svout gc)"
    using that
  proof (rule sv_wf_update [where t = t and p = "f (sv_processes (gc_svout gc) ! t)"])
    assume "t < MAX_THREADS"
    with that show "length (p_r (f (sv_processes (gc_svout gc) ! t))) = en_regs env"
      by (intro assms) (simp add: sv_wf_def)
  qed simp
  then show ?thesis
    by (simp add: keeps_def)
qed

lemma keeps_upd_proc_field [simp]:
  "keeps env gc (upd_proc t (\<lambda>p. p\<lparr>p_m := x\<rparr>) gc)" "keeps env gc (upd_proc t (\<lambda>p. p\<lparr>p_stk := x\<rparr>) gc)"
  "keeps env gc (upd_proc t (\<lambda>p. p\<lparr>p_pc := pc\<rparr>) gc)" "keeps env gc (upd_proc t (\<lambda>p. p\<lparr>p_tid := pc\<rparr>) gc)"
  "keeps env gc (upd_proc t (\<lambda>p. p\<lparr>p_msize := p_msize p + pc\<rparr>) gc)"
  "keeps env gc (upd_proc t (\<lambda>p. p\<lparr>p_stk := x, p_pc := pc\<rparr>) gc)" "keeps env gc (set_pc t pc gc)"
  "keeps env gc (upd_sv (\<lambda>sv. sv\<lparr>sv_tres := x\<rparr>) gc)"
  "keeps env gc (upd_sv (\<lambda>sv. sv\<lparr>sv_threadsStarted := pc\<rparr>) gc)"
  unfolding set_pc_def by (simp_all add: keeps_upd_proc) (simp_all add: keeps_def sv_wf_def)

text \<open>A sequence keeps the shape if its parts do.\<close>

lemma keeps_obind:
  assumes "obind x f = Ok gc'" and "\<And>a. x = Ok a \<Longrightarrow> f a = Ok gc' \<Longrightarrow> keeps env gc gc'"
  shows "keeps env gc gc'"
  using assms by (auto simp: outcome_simps)

lemma keeps_store_reg_of [keeps_rules]:
  assumes "store_reg_of t off d gc = Ok gc'"
  shows "keeps env gc gc'"
proof -
  obtain r where r: "length r = length (p_r (sv_processes (gc_svout gc) ! t))"
    "gc' = upd_proc t (\<lambda>p. p\<lparr>p_r := r\<rparr>) gc"
    using store_reg_of_props [OF assms] by blast
  have "sv_wf env (gc_svout gc')" if "sv_wf env (gc_svout gc)"
    using that
  proof (rule sv_wf_update [where t = t and p = "(sv_processes (gc_svout gc) ! t)\<lparr>p_r := r\<rparr>"])
    assume "t < MAX_THREADS"
    with that r(1) show "length (p_r ((sv_processes (gc_svout gc) ! t)\<lparr>p_r := r\<rparr>)) = en_regs env"
      by (simp add: sv_wf_def)
  qed (simp add: r)
  then show ?thesis
    by (simp add: keeps_def r)
qed

lemma keeps_store_reg [keeps_rules]: "store_reg off d gc = Ok gc' \<Longrightarrow> keeps env gc gc'"
  by (simp add: store_reg_def keeps_store_reg_of)

lemma keeps_vRegUsingOffset [keeps_rules]: "vRegUsingOffset off d gc = Ok gc' \<Longrightarrow> keeps env gc gc'"
  by (simp add: vRegUsingOffset_def keeps_store_reg)

lemma keeps_store_result [keeps_rules]: "store_result env I v gc = Ok gc' \<Longrightarrow> keeps env gc gc'"
  by (auto simp: store_result_def outcome_simps keeps_store_reg split: prod.splits)

subsection \<open>Memory, stack and PHI nodes\<close>

lemma keeps_generateStoreBytes [keeps_rules]:
  "generateStoreBytes env p d gc = Ok gc' \<Longrightarrow> keeps env gc gc'"
  by (auto simp: generateStoreBytes_def outcome_simps Let_def
      intro: keeps_trans [OF keeps_store keeps_upd_proc_field(1)])

lemma keeps_generateStore [keeps_rules]: "generateStore env p v t gc = Ok gc' \<Longrightarrow> keeps env gc gc'"
  by (simp add: generateStore_def keeps_generateStoreBytes)

lemma keeps_copy_memory [keeps_rules]: "copy_memory env dst src n gc = Ok gc' \<Longrightarrow> keeps env gc gc'"
  by (auto simp: copy_memory_def outcome_simps intro: keeps_generateStoreBytes)

lemma keeps_generateAllocateMemory [keeps_rules]:
  "generateAllocateMemory n gc = Ok (p, gc') \<Longrightarrow> keeps env gc gc'"
  by (auto simp: generateAllocateMemory_def outcome_simps)

lemma keeps_write_phis [keeps_rules]: "write_phis env fn D gc = Ok gc' \<Longrightarrow> keeps env gc gc'"
proof (induction D arbitrary: gc)
  case Nil
  then show ?case by simp
next
  case (Cons it D)
  obtain n v where it: "it = (n, v)" by (cases it)
  from Cons.prems obtain x gc1 where "store_result env (InstV fn n) x gc = Ok gc1"
    and "write_phis env fn D gc1 = Ok gc'"
    by (auto simp: outcome_simps it)
  with Cons.IH show ?case
    by (blast intro: keeps_trans keeps_store_result)
qed

lemma keeps_generateStoresForPHINodes [keeps_rules]:
  "generateStoresForPHINodes env fn from to gc = Ok gc' \<Longrightarrow> keeps env gc gc'"
  by (auto simp: generateStoresForPHINodes_def outcome_simps intro: keeps_write_phis)

lemma keeps_saveCaller [keeps_rules]: "saveCaller env cs t gc = Ok gc' \<Longrightarrow> keeps env gc gc'"
  by (auto simp: saveCaller_def uploadBytes_def outcome_simps Let_def
      intro: keeps_trans [OF keeps_store keeps_upd_proc_field(2)] split: option.splits)

lemma keeps_store_args [keeps_rules]: "store_args env t fn k args gc = Ok gc' \<Longrightarrow> keeps env gc gc'"
proof (induction args arbitrary: k gc)
  case Nil
  then show ?case by simp
next
  case (Cons a args)
  then obtain off v gc1 where "store_reg_of t off v gc = Ok gc1"
    and "store_args env t fn (Suc k) args gc1 = Ok gc'"
    by (auto simp: outcome_simps)
  with Cons.IH show ?case
    by (blast intro: keeps_trans keeps_store_reg_of)
qed

lemma keeps_store_values [keeps_rules]: "store_values env t ts k vs gc = Ok gc' \<Longrightarrow> keeps env gc gc'"
proof (induction vs arbitrary: k gc)
  case Nil
  then show ?case by simp
next
  case (Cons v vs)
  then obtain off gc1 where "store_reg_of t off v gc = Ok gc1"
    and "store_values env t ts (Suc k) vs gc1 = Ok gc'"
    by (auto simp: outcome_simps split: if_splits)
  with Cons.IH show ?case
    by (blast intro: keeps_trans keeps_store_reg_of)
qed

lemma keeps_pushStackFrame [keeps_rules]:
  "pushStackFrame env F args cs t gc = Ok gc' \<Longrightarrow> keeps env gc gc'"
  by (auto simp: pushStackFrame_def outcome_simps split: if_splits
      intro!: keeps_trans [OF keeps_saveCaller keeps_trans [OF keeps_store_args keeps_upd_proc_field(7)]])

lemma keeps_pushStackFrameIndirect [keeps_rules]:
  "pushStackFrameIndirect env ps va loc args cs t gc = Ok gc' \<Longrightarrow> keeps env gc gc'"
  by (auto simp: pushStackFrameIndirect_def outcome_simps split: if_splits
      intro!: keeps_trans [OF keeps_saveCaller keeps_trans [OF keeps_store_values keeps_upd_proc_field(7)]])

lemma keeps_restoreRegisters [keeps_rules]:
  "restoreRegisters env r gc = Ok gc' \<Longrightarrow> keeps env gc gc'"
  by (auto simp: restoreRegisters_def Let_def outcome_simps intro: keeps_store_reg split: if_splits)

lemma keeps_storeThreadResult [keeps_rules]:
  "storeThreadResult env t v gc = Ok gc' \<Longrightarrow> keeps env gc gc'"
  by (auto simp: storeThreadResult_def deltaBytes_def Let_def outcome_simps
      intro: keeps_trans [OF keeps_store keeps_upd_proc_field(8)])

lemma keeps_reset_thread [simp]:
  "keeps env gc (upd_proc t (\<lambda>p. p\<lparr>p_pc := pc, p_r := put_at 0 (replicate (en_regs env) 0) (p_r p)\<rparr>) gc)"
  by (rule keeps_upd_proc) (simp add: length_put_at)

lemma keeps_popStackFrame [keeps_rules]:
  assumes "popStackFrame env r gc = Ok gc'"
  shows "keeps env gc gc'"
proof -
  from assms obtain p retVal where p: "proc_at (gc_thread gc) (gc_svout gc) = Ok p"
    and step: "(if p_stk p \<noteq> getEmptyStack then
         obind (download env (gc_store gc) (p_stk p)) (\<lambda>chData.
         let gc = upd_proc (gc_thread gc)
               (\<lambda>p. p\<lparr>p_stk := getPrevStackChunkIDFromFrame chData, p_pc := getPrevPCFromFrame chData\<rparr>) gc in
         obind (restoreRegisters env (getPrevRegisterChunkIDFrame chData) gc) (\<lambda>gc.
           case retVal of None \<Rightarrow> Ok gc
           | Some (bs, t) \<Rightarrow> vRegUsingOffset (getResultRegisterOffsetFromFrame chData) bs gc))
       else
         (let gc = upd_proc (gc_thread gc)
               (\<lambda>p. p\<lparr>p_pc := 0, p_r := put_at 0 (replicate (en_regs env) 0) (p_r p)\<rparr>) gc in
          case retVal of None \<Rightarrow> Ok gc
          | Some (bs, t) \<Rightarrow> storeThreadResult env t bs gc)) = Ok gc'"
    unfolding popStackFrame_def by (elim obind_OkE) blast
  then show ?thesis
    by (auto simp: Let_def outcome_simps split: if_splits option.splits
        intro: keeps_trans [OF keeps_upd_proc_field(6) keeps_trans [OF keeps_restoreRegisters keeps_vRegUsingOffset]]
          keeps_trans [OF keeps_upd_proc_field(6) keeps_restoreRegisters]
          keeps_trans [OF keeps_reset_thread keeps_storeThreadResult])
qed

subsection \<open>The handlers\<close>

lemma keeps_cmpxchg [keeps_rules]:
  "atomic_compare_exchange env I p e d n gc = Ok gc' \<Longrightarrow> keeps env gc gc'"
  by (auto simp: atomic_compare_exchange_def outcome_simps split: if_splits
      intro: keeps_trans [OF keeps_generateStoreBytes keeps_store_result])

lemma keeps_call_malloc [keeps_rules]: "call_malloc env I c gc = Ok gc' \<Longrightarrow> keeps env gc gc'"
  by (auto simp: call_malloc_def outcome_simps
      intro: keeps_trans [OF keeps_generateAllocateMemory keeps_store_result])

lemma keeps_start_thread [keeps_rules]: "start_thread env c t gc = Ok gc' \<Longrightarrow> keeps env gc gc'"
  by (cases "fst (c_args c ! 2)"; cases "snd (c_args c ! 2)"; cases "\<exists>r ps va. snd (c_args c ! 2) = PtrTy (FunTy r ps va)")
    (auto simp: start_thread_def arg_def outcome_simps split: if_splits ty.splits
      intro: keeps_pushStackFrame keeps_pushStackFrameIndirect)

lemma keeps_register_thread [keeps_rules]: "register_thread env c t gc = Ok gc' \<Longrightarrow> keeps env gc gc'"
  by (auto simp: register_thread_def Let_def outcome_simps
      intro: keeps_trans [OF keeps_trans [OF keeps_upd_proc_field(4) keeps_upd_proc_field(9)] keeps_generateStore])

lemma keeps_create_in_slot [keeps_rules]:
  "create_in_slot env I c slots gc = Ok gc' \<Longrightarrow> keeps env gc gc'"
  by (induction env I c slots gc rule: create_in_slot.induct)
    (auto simp: outcome_simps split: if_splits intro: keeps_trans [OF keeps_start_thread keeps_register_thread])

lemma keeps_call_pthread_join [keeps_rules]:
  "call_pthread_join env I t c gc = Ok gc' \<Longrightarrow> keeps env gc gc'"
  by (auto simp: call_pthread_join_def Let_def outcome_simps split: if_splits
      intro: keeps_store_result keeps_trans [OF keeps_store_result keeps_generateStore])

lemma keeps_call_declaration [keeps_rules]:
  assumes "call_declaration env fn I c F gc = Ok gc'"
  shows "keeps env gc gc'"
proof -
  have "call_intrinsic env n c gc = Ok gc' \<Longrightarrow> keeps env gc gc'"
    "call_atomic_load env k c gc = Ok gc' \<Longrightarrow> keeps env gc gc'"
    "call_atomic_store env k c gc = Ok gc' \<Longrightarrow> keeps env gc gc'"
    "call_atomic_compare_exchange env v c gc = Ok gc' \<Longrightarrow> keeps env gc gc'"
    "call_pthread_create env i c gc = Ok gc' \<Longrightarrow> keeps env gc gc'" for n k v i
    by (auto simp: call_intrinsic_def call_atomic_load_def call_atomic_store_def
        call_atomic_compare_exchange_def call_pthread_create_def outcome_simps
        split: if_splits list.splits ty.splits
        intro: keeps_copy_memory keeps_cmpxchg keeps_create_in_slot)
  with assms show ?thesis
    by (auto simp: call_declaration_def Let_def split: if_splits
        intro: keeps_call_malloc keeps_call_pthread_join)
qed

lemma keeps_generateNextStateForCall [keeps_rules]:
  "generateNextStateForCall env fn I c gc = Ok gc' \<Longrightarrow> keeps env gc gc'"
  by (cases "c_fty c")
    (auto simp: generateNextStateForCall_def call_inline_asm_def call_pointer_def outcome_simps
      split: option.splits if_splits
      intro: keeps_pushStackFrame keeps_pushStackFrameIndirect keeps_call_declaration)

lemma keeps_generateNextStateForBranch [keeps_rules]:
  "generateNextStateForBranch env F from cond succs gc = Ok gc' \<Longrightarrow> keeps env gc gc'"
  by (auto simp: generateNextStateForBranch_def Let_def outcome_simps
      split: option.splits list.splits if_splits
      intro: keeps_trans [OF keeps_upd_proc_field(7) keeps_generateStoresForPHINodes])

lemma keeps_generateNextStateForAtomicCmpXchg [keeps_rules]:
  "generateNextStateForAtomicCmpXchg env I p e d t gc = Ok gc' \<Longrightarrow> keeps env gc gc'"
  by (auto simp: generateNextStateForAtomicCmpXchg_def Let_def outcome_simps split: if_splits
      intro: keeps_trans [OF keeps_store_reg keeps_store_reg]
        keeps_trans [OF keeps_store_reg keeps_trans [OF keeps_generateStore keeps_store_reg]])

lemma keeps_generateNextStateForInstruction [keeps_rules]:
  assumes "generateNextStateForInstruction env F I gc = Ok gc'"
  shows "keeps env gc gc'"
proof -
  have "generateNextStateForInstructionValueMapped env fn I gc = Ok gc' \<Longrightarrow> keeps env gc gc'"
    "generateNextStateForAlloca env r t gc = Ok gc' \<Longrightarrow> keeps env gc gc'"
    "generateNextStateForLoad env r t v gc = Ok gc' \<Longrightarrow> keeps env gc gc'"
    "generateNextStateForStore env v t p gc = Ok gc' \<Longrightarrow> keeps env gc gc'"
    "generateNextStateForExtractValue env r t v u is gc = Ok gc' \<Longrightarrow> keeps env gc gc'"
    "generateNextStateForAtomicRMW env op p v t gc = Ok (old, gc') \<Longrightarrow> keeps env gc gc'" for fn r t v p u "is" op old
    by (auto simp: generateNextStateForInstructionValueMapped_def generateNextStateForAlloca_def
        generateNextStateForLoad_def generateNextStateForStore_def generateNextStateForExtractValue_def
        generateNextStateForAtomicRMW_def outcome_simps split: if_splits
        intro: keeps_store_result keeps_generateStore
          keeps_trans [OF keeps_generateAllocateMemory keeps_store_result])
  with assms show ?thesis
    by (auto simp: generateNextStateForInstruction_def Let_def outcome_simps split: opcode.splits
        intro: keeps_popStackFrame keeps_generateNextStateForBranch keeps_generateNextStateForCall
          keeps_generateNextStateForAtomicCmpXchg)
qed

end
