(* ===== verification/Next_State.thy ===== *)
theory Next_State
  imports Dispatch
begin

text \<open>
  The next-state function of the generated model (LLDMCModelGenerator.h): one step of a process
  (\<open>generateStepProcess\<close>, \<open>generateNextStateForGroup\<close>), the start of the constructors and of
  \<open>main\<close>, and \<open>dmc_nextstates\<close>, which selects by the global status.  A next state is the byte
  vector that is handed to the model checker.
\<close>

section \<open>Transition groups at run time\<close>

text \<open>The function of an instruction, and the instruction behind it in its block.\<close>

definition function_of :: "ir_module \<Rightarrow> nat \<Rightarrow> func option" where
  "function_of m i = find (\<lambda>F. \<not> f_decl F \<and> list_ex (\<lambda>I. i_id I = i) (f_insts F)) (m_functions m)"

fun next_in :: "nat \<Rightarrow> instruction list \<Rightarrow> instruction option" where
  "next_in i (a # b # is) = (if i_id a = i then Some b else next_in i (b # is))"
| "next_in i is = None"

text \<open>
  \<open>programLocations[ti->instructions.back()->getNextNode()]\<close>: 0 for the last instruction of a
  block, whose null successor has no location.
\<close>

definition location_after :: "generator \<Rightarrow> nat \<Rightarrow> nat" where
  "location_after g i =
     (case function_of (gn_module g) i of
        None \<Rightarrow> 0
      | Some F \<Rightarrow>
          (case Option.bind (block_of F i) (\<lambda>b. next_in i (f_blocks F ! b)) of
             None \<Rightarrow> 0
           | Some j \<Rightarrow> gn_programLocations g (i_id j)))"

text \<open>
  The code of a group runs on, leaves through \<open>end_no_report\<close>, or stops.  Leaving without a
  report drops the state vector under construction but not what was stored before.
\<close>

datatype 's run = Continue "'s gctx" | Quiet 's | Broken failure

primrec run_instructions :: "'s env \<Rightarrow> instruction list \<Rightarrow> 's gctx \<Rightarrow> 's run" where
  "run_instructions env [] gc = Continue gc"
| "run_instructions env (I # Is) gc =
     (case obind (of_option BadAccess (function_of (gn_module (en_gen env)) (i_id I)))
         (\<lambda>F. generateNextStateForInstruction env F I gc) of
        Ok gc' \<Rightarrow> run_instructions env Is gc'
      | NoReport \<Rightarrow> Quiet (gc_store gc)
      | Fail e \<Rightarrow> Broken e)"

definition emitter :: "generator \<Rightarrow> instruction list \<Rightarrow> bool" where
  "emitter g Is \<longleftrightarrow> list_ex (\<lambda>I. \<not> isRuntimeCollapsableInstruction g I) Is"

definition generateNextStateForGroup :: "'s env \<Rightarrow> instruction list \<Rightarrow> 's gctx \<Rightarrow> 's run" where
  "generateNextStateForGroup env Is gc =
     (if Is = [] then Broken BadAccess
      else run_instructions env Is
        (set_pc (gc_thread gc) (word_of_nat (location_after (en_gen env) (i_id (last Is)))) gc))"

section \<open>One step of a process\<close>

text \<open>
  The switch on the program counter has one case per group of thread 0, whatever the thread:
  the location of the first instruction of the group.
\<close>

definition group_case :: "generator \<Rightarrow> tgroup \<Rightarrow> (u32 \<times> instruction list) option" where
  "group_case g tg =
     (case tg of
        TGInstructions t Is em \<Rightarrow>
          (if t = 0 \<and> Is \<noteq> [] then Some (word_of_nat (gn_programLocations g (i_id (hd Is))), Is) else None)
      | TGLambda l \<Rightarrow> None)"

definition group_at :: "generator \<Rightarrow> u32 \<Rightarrow> instruction list option" where
  "group_at g pc = map_of (List.map_filter (group_case g) (gn_transitionGroups g)) pc"

definition pc_of :: "'s gctx \<Rightarrow> u32" where
  "pc_of gc = p_pc (sv_processes (gc_svout gc) ! gc_thread gc)"

text \<open>
  The loop: \<open>emitted\<close> says whether a group with an instruction that is not collapsable at run
  time has been executed; the next such group ends the step.  A program counter without a
  group ends it without a report.  The loop need not end.
\<close>

partial_function (option) step_loop :: "'s env \<Rightarrow> bool \<Rightarrow> 's gctx \<Rightarrow> 's run option" where
  "step_loop env emitted gc =
     (if pc_of gc = 0 then Some (Continue gc)
      else (case group_at (en_gen env) (pc_of gc) of
              None \<Rightarrow> Some (Quiet (gc_store gc))
            | Some Is \<Rightarrow>
                (if emitter (en_gen env) Is \<and> emitted then Some (Continue gc)
                 else (case generateNextStateForGroup env Is gc of
                         Continue gc' \<Rightarrow> step_loop env (emitted \<or> emitter (en_gen env) Is) gc'
                       | Quiet s \<Rightarrow> Some (Quiet s)
                       | Broken e \<Rightarrow> Some (Broken e)))))"

text \<open>\<open>model_step\<close>: an inactive process reports nothing.\<close>

definition generateContextAndSetupCode :: "nat \<Rightarrow> statevector \<Rightarrow> 's \<Rightarrow> 's gctx" where
  "generateContextAndSetupCode processorID src s =
     \<lparr>gc_thread = processorID, gc_src = src, gc_svout = src, gc_store = s\<rparr>"

definition generateStepProcess :: "'s env \<Rightarrow> nat \<Rightarrow> statevector \<Rightarrow> 's \<Rightarrow> 's run option" where
  "generateStepProcess env processorID src s =
     (let gc = generateContextAndSetupCode processorID src s in
      if pc_of gc \<noteq> 0 then step_loop env False gc else Some (Quiet s))"

section \<open>The next states of a state\<close>

datatype GlobalStatus =
    START | RUNNING_CONSTRUCTORS | STARTING_MAIN | RUNNING_MAIN | ENDED | ENDED_FAILURE

fun status_code :: "GlobalStatus \<Rightarrow> u32" where
  "status_code START = 0"
| "status_code RUNNING_CONSTRUCTORS = 1"
| "status_code STARTING_MAIN = 2"
| "status_code RUNNING_MAIN = 3"
| "status_code ENDED = 4"
| "status_code ENDED_FAILURE = 5"

text \<open>
  \<open>StateManager::uploadBytes\<close> for a next state checks the length first; the check takes the
  conjunction of the length and the number it should be a multiple of.
\<close>

definition checkIsMultipleOf :: "u64 \<Rightarrow> u64 \<Rightarrow> bool" where
  "checkIsMultipleOf v multipleOf \<longleftrightarrow> and v multipleOf = 0"

definition uploadTransition :: "statevector \<Rightarrow> bytes outcome" where
  "uploadTransition sv =
     (if checkIsMultipleOf (word_of_nat (length (sv_bytes sv))) 4 then Ok (sv_bytes sv) else Fail AbortCall)"

text \<open>The next states reported, and the storage afterwards; or the failure.\<close>

datatype 's successors = Next "bytes list" 's | Crash failure

definition generateConstructorStart :: "'s env \<Rightarrow> statevector \<Rightarrow> 's \<Rightarrow> 's gctx outcome" where
  "generateConstructorStart env src s =
     (let gc = generateContextAndSetupCode 0 src s in
      case getFunction (gn_module (en_gen env)) ''_GLOBAL__sub_I_test.cpp'' of
        Some F \<Rightarrow> pushStackFrame env F [] None 0 gc
      | None \<Rightarrow> Ok gc)"

definition generateMainStart :: "'s env \<Rightarrow> statevector \<Rightarrow> 's \<Rightarrow> 's gctx outcome" where
  "generateMainStart env src s =
     (let gc = generateContextAndSetupCode 0 src s in
      case getFunction (gn_module (en_gen env)) ''main'' of
        Some F \<Rightarrow> pushStackFrame env F [] None 0 gc
      | None \<Rightarrow> Ok gc)"

definition report_started :: "GlobalStatus \<Rightarrow> 's gctx outcome \<Rightarrow> 's \<Rightarrow> 's successors" where
  "report_started st start s =
     (case obind start (\<lambda>gc. obind (uploadTransition (gc_svout gc\<lparr>sv_status := status_code st\<rparr>))
         (\<lambda>d. Ok (Next [d] (gc_store gc)))) of
        Ok r \<Rightarrow> r
      | NoReport \<Rightarrow> Next [] s
      | Fail e \<Rightarrow> Crash e)"

fun process_loop :: "'s env \<Rightarrow> statevector \<Rightarrow> nat list \<Rightarrow> 's \<Rightarrow> 's successors option" where
  "process_loop env src [] s = Some (Next [] s)"
| "process_loop env src (t # ts) s =
     (case generateStepProcess env t src s of
        None \<Rightarrow> None
      | Some (Broken e) \<Rightarrow> Some (Crash e)
      | Some (Quiet s') \<Rightarrow> process_loop env src ts s'
      | Some (Continue gc) \<Rightarrow>
          (case uploadTransition (gc_svout gc) of
             Ok d \<Rightarrow> (case process_loop env src ts (gc_store gc) of
                 Some (Next ds s') \<Rightarrow> Some (Next (d # ds) s') | r \<Rightarrow> r)
           | NoReport \<Rightarrow> process_loop env src ts (gc_store gc)
           | Fail e \<Rightarrow> Some (Crash e)))"

definition generateGetNextAllDMC :: "'s env \<Rightarrow> statevector \<Rightarrow> 's \<Rightarrow> 's successors option" where
  "generateGetNextAllDMC env src s =
     (let status = sv_status src in
      if status = status_code START
      then Some (report_started RUNNING_CONSTRUCTORS (generateConstructorStart env src s) s)
      else if status = status_code STARTING_MAIN
      then Some (report_started RUNNING_MAIN (generateMainStart env src s) s)
      else if status = status_code RUNNING_CONSTRUCTORS \<or> status = status_code RUNNING_MAIN
      then (case process_loop env src [0..<MAX_THREADS] s of
              Some (Next [] s') \<Rightarrow> Some (Next [put_at 0 (bytes_u32 (1 + status)) (sv_bytes src)] s')
            | r \<Rightarrow> r)
      else Some (Next [] s))"

section \<open>A step as a run of groups\<close>

text \<open>
  The specification of a step of a process: execute groups at the program counter, at most one
  of them an emitter, and stop where the thread has ended or where the next group would be a
  second emitter.
\<close>

inductive group_run :: "'s env \<Rightarrow> bool \<Rightarrow> 's gctx \<Rightarrow> bool \<Rightarrow> 's gctx \<Rightarrow> bool" for env where
  here: "group_run env e gc e gc"
| group: "pc_of gc \<noteq> 0 \<Longrightarrow> group_at (en_gen env) (pc_of gc) = Some Is \<Longrightarrow>
    \<not> (emitter (en_gen env) Is \<and> e) \<Longrightarrow> generateNextStateForGroup env Is gc = Continue gc1 \<Longrightarrow>
    group_run env (e \<or> emitter (en_gen env) Is) gc1 e' gc' \<Longrightarrow> group_run env e gc e' gc'"

definition step_ends :: "'s env \<Rightarrow> bool \<Rightarrow> 's gctx \<Rightarrow> bool" where
  "step_ends env e gc \<longleftrightarrow> pc_of gc = 0
     \<or> e \<and> (case group_at (en_gen env) (pc_of gc) of Some Is \<Rightarrow> emitter (en_gen env) Is | None \<Rightarrow> False)"

lemma step_loop_group_run:
  assumes "step_loop env e gc = Some (Continue gc')"
  shows "\<exists>e'. group_run env e gc e' gc' \<and> step_ends env e' gc'"
proof -
  have "r = Continue gc' \<longrightarrow> (\<exists>e'. group_run env e gc e' gc' \<and> step_ends env e' gc')"
    if "step_loop env e gc = Some r" for r
  proof (rule step_loop.raw_induct [where
      P = "\<lambda>env e gc r. r = Continue gc' \<longrightarrow> (\<exists>e'. group_run env e gc e' gc' \<and> step_ends env e' gc')", OF _ that],
      goal_cases)
    case (1 loop env e gc r)
    show ?case
    proof
      assume r: "r = Continue gc'"
      show "\<exists>e'. group_run env e gc e' gc' \<and> step_ends env e' gc'"
      proof (cases "step_ends env e gc")
        case True
        with 1(2) r have "gc' = gc"
          by (auto simp: step_ends_def split: if_splits option.splits run.splits)
        with True show ?thesis by (auto intro: here)
      next
        case False
        with 1(2) r obtain Is gc1 where g: "pc_of gc \<noteq> 0" "group_at (en_gen env) (pc_of gc) = Some Is"
          "\<not> (emitter (en_gen env) Is \<and> e)" "generateNextStateForGroup env Is gc = Continue gc1"
          and l: "loop env (e \<or> emitter (en_gen env) Is) gc1 = Some r"
          by (auto simp: step_ends_def split: if_splits option.splits run.splits)
        from 1(1) [OF l] r obtain e' where "group_run env (e \<or> emitter (en_gen env) Is) gc1 e' gc'"
          "step_ends env e' gc'" by auto
        with group [OF g] show ?thesis by blast
      qed
    qed
  qed
  with assms show ?thesis by blast
qed

lemma group_run_step_loop:
  "group_run env e gc e' gc' \<Longrightarrow> step_ends env e' gc' \<Longrightarrow> step_loop env e gc = Some (Continue gc')"
proof (induction rule: group_run.induct)
  case (here e gc)
  then show ?case
    by (subst step_loop.simps) (auto simp: step_ends_def split: option.splits)
next
  case (group gc Is e gc1 e' gc')
  then show ?case
    by (subst step_loop.simps) auto
qed

section \<open>Shape and status\<close>

lemma keeps_run_instructions:
  "run_instructions env Is gc = Continue gc' \<Longrightarrow> keeps env gc gc'"
proof (induction Is arbitrary: gc)
  case Nil
  then show ?case by simp
next
  case (Cons I Is)
  then obtain F gc1 where 1: "generateNextStateForInstruction env F I gc = Ok gc1"
    and rest: "run_instructions env Is gc1 = Continue gc'"
    by (auto simp: outcome_simps split: outcome.splits)
  show ?case
    using keeps_generateNextStateForInstruction [OF 1] Cons.IH [OF rest] by (rule keeps_trans)
qed

lemma keeps_generateNextStateForGroup:
  "generateNextStateForGroup env Is gc = Continue gc' \<Longrightarrow> keeps env gc gc'"
  by (auto simp: generateNextStateForGroup_def split: if_splits
      intro: keeps_trans [OF keeps_upd_proc_field(7) keeps_run_instructions])

lemma keeps_group_run: "group_run env e gc e' gc' \<Longrightarrow> keeps env gc gc'"
  by (induction rule: group_run.induct) (blast intro: keeps_refl keeps_trans keeps_generateNextStateForGroup)+

lemma keeps_step_loop: "step_loop env e gc = Some (Continue gc') \<Longrightarrow> keeps env gc gc'"
  using step_loop_group_run keeps_group_run by blast

lemma keeps_generateStepProcess:
  assumes "generateStepProcess env t src s = Some (Continue gc)" and "sv_wf env src"
  shows "sv_wf env (gc_svout gc)" and "sv_status (gc_svout gc) = sv_status src"
proof -
  have "step_loop env False (generateContextAndSetupCode t src s) = Some (Continue gc)"
    using assms(1) by (auto simp: generateStepProcess_def Let_def split: if_splits)
  from keeps_step_loop [OF this] assms(2)
  show "sv_wf env (gc_svout gc)" and "sv_status (gc_svout gc) = sv_status src"
    by (simp_all add: keeps_def generateContextAndSetupCode_def)
qed

lemma uploadTransition_Ok: "uploadTransition sv = Ok d \<Longrightarrow> d = sv_bytes sv"
  by (simp add: uploadTransition_def split: if_splits)

lemma process_loop_steps:
  assumes "process_loop env src ts s = Some (Next ds s')" and "d \<in> set ds"
  shows "\<exists>t \<in> set ts. \<exists>x gc. generateStepProcess env t src x = Some (Continue gc) \<and> d = sv_bytes (gc_svout gc)"
  using assms
proof (induction ts arbitrary: s ds)
  case (Cons t ts)
  show ?case
  proof (cases "generateStepProcess env t src s")
    case (Some r)
    show ?thesis
    proof (cases r)
      case (Continue gc)
      from Cons.prems(1) Some Continue obtain e rest where e: "e = sv_bytes (gc_svout gc)"
        and "ds = e # rest \<and> process_loop env src ts (gc_store gc) = Some (Next rest s')
          \<or> process_loop env src ts (gc_store gc) = Some (Next ds s')"
        by (auto split: outcome.splits option.splits successors.splits dest: uploadTransition_Ok)
      with Cons.prems(2) Some Continue consider "d = e" | x rest' where
        "process_loop env src ts x = Some (Next rest' s')" "d \<in> set rest'"
        by (metis set_ConsD)
      then show ?thesis
        using Some Continue e Cons.IH by cases (auto 4 3)
    qed (use Some Cons in simp_all)
  qed (use Cons.prems in simp)
qed simp

lemma process_loop_reports:
  assumes "process_loop env src ts s = Some (Next ds s')" and "sv_wf env src" and "d \<in> set ds"
  shows "\<exists>sv. d = sv_bytes sv \<and> sv_wf env sv \<and> sv_status sv = sv_status src"
  using process_loop_steps [OF assms(1,3)] keeps_generateStepProcess [OF _ assms(2)] by blast

lemma keeps_start:
  "generateConstructorStart env src s = Ok gc \<Longrightarrow> keeps env (generateContextAndSetupCode 0 src s) gc"
  "generateMainStart env src s = Ok gc \<Longrightarrow> keeps env (generateContextAndSetupCode 0 src s) gc"
  by (auto simp: generateConstructorStart_def generateMainStart_def Let_def split: option.splits
      intro: keeps_pushStackFrame)

lemma report_started_Next:
  assumes "report_started st start s = Next ds s'" and "start \<noteq> NoReport"
  obtains gc where "start = Ok gc" and "ds = [sv_bytes (gc_svout gc\<lparr>sv_status := status_code st\<rparr>)]"
  using assms by (cases start) (auto simp: report_started_def uploadTransition_def split: outcome.splits if_splits)

lemma start_of_stage:
  assumes "report_started st start s = Next ds s'" and "start \<noteq> NoReport"
  shows "\<exists>gc. start = Ok gc \<and> ds = [sv_bytes (gc_svout gc\<lparr>sv_status := status_code st\<rparr>)]"
  using report_started_Next [OF assms] by blast

lemma start_reports:
  "generateConstructorStart env src s \<noteq> NoReport" "generateMainStart env src s \<noteq> NoReport"
proof -
  have "pushStackFrame env F [] None 0 gc \<noteq> NoReport" for F and gc :: "'a gctx"
    by (simp add: pushStackFrame_def saveCaller_def proc_at_def of_option_def split: option.splits)
  then show "generateConstructorStart env src s \<noteq> NoReport" "generateMainStart env src s \<noteq> NoReport"
    by (simp_all add: generateConstructorStart_def generateMainStart_def Let_def split: option.splits)
qed

lemma eight_dvd_padded: "(8 :: nat) dvd r + (8 - r mod 8) mod 8"
proof (cases "r mod 8 = 0")
  case True
  then show ?thesis by (simp add: mod_eq_0_iff_dvd)
next
  case False
  then have "(8 - r mod 8) mod 8 = 8 - r mod 8"
    by simp
  moreover have "r + (8 - r mod 8) = 8 * (r div 8) + (r mod 8 + (8 - r mod 8))"
    by (metis add.assoc mult_div_mod_eq)
  moreover have "r mod 8 + (8 - r mod 8) = 8"
    by (rule le_add_diff_inverse) simp
  ultimately show ?thesis by simp
qed

lemma length_process_bytes: "8 dvd length (process_bytes p)"
proof -
  have "length (process_bytes p) = 32 + (length (p_r p) + (8 - length (p_r p) mod 8) mod 8)"
    by (simp add: process_bytes_def)
  moreover have "(8 :: nat) dvd 32" by simp
  ultimately show ?thesis
    using dvd_add eight_dvd_padded by metis
qed

lemma length_sv_bytes: "8 dvd length (sv_bytes sv)"
proof -
  have "8 dvd length (concat (map process_bytes ps))" for ps
    by (induction ps) (simp_all add: length_process_bytes)
  then have "8 dvd 16 + length (concat (map process_bytes (sv_processes sv)))"
    by (rule dvd_add [rotated]) simp
  then show ?thesis
    by (simp add: sv_bytes_def)
qed

lemma put_status: "put_at 0 (bytes_u32 w) (sv_bytes sv) = sv_bytes (sv\<lparr>sv_status := w\<rparr>)"
  by (simp add: put_at_def sv_bytes_def)

text \<open>Where a next state comes from: the start of a stage, the step of a process, or the end of a stage.\<close>

lemma next_state_cases:
  assumes "generateGetNextAllDMC env src s = Some (Next ds s')" and "d \<in> set ds"
  obtains (start) gc where "generateConstructorStart env src s = Ok gc \<or> generateMainStart env src s = Ok gc"
      and "d = sv_bytes (gc_svout gc\<lparr>sv_status := 1 + sv_status src\<rparr>)"
  | (step) t x gc where "t < MAX_THREADS" and "generateStepProcess env t src x = Some (Continue gc)"
      and "d = sv_bytes (gc_svout gc)"
  | (ended) "d = sv_bytes (src\<lparr>sv_status := 1 + sv_status src\<rparr>)"
proof -
  consider (0) "sv_status src = 0" | (2) "sv_status src = 2"
    | (run) "sv_status src = 1 \<or> sv_status src = 3" | (none) "sv_status src \<notin> {0, 1, 2, 3}"
    by auto
  then show thesis
  proof cases
    case 0
    with assms(1) have "report_started RUNNING_CONSTRUCTORS (generateConstructorStart env src s) s = Next ds s'"
      by (simp add: generateGetNextAllDMC_def)
    from start_of_stage [OF this start_reports(1)] obtain gc where "generateConstructorStart env src s = Ok gc"
      and "ds = [sv_bytes (gc_svout gc\<lparr>sv_status := 1\<rparr>)]" by auto
    with assms(2) 0 start [of gc] show thesis by simp
  next
    case 2
    with assms(1) have "report_started RUNNING_MAIN (generateMainStart env src s) s = Next ds s'"
      by (simp add: generateGetNextAllDMC_def)
    from start_of_stage [OF this start_reports(2)] obtain gc where "generateMainStart env src s = Ok gc"
      and "ds = [sv_bytes (gc_svout gc\<lparr>sv_status := 3\<rparr>)]" by auto
    with assms(2) 2 start [of gc] show thesis by simp
  next
    case run
    then obtain es x where l: "process_loop env src [0..<MAX_THREADS] s = Some (Next es x)"
      and ds: "ds = (if es = [] then [put_at 0 (bytes_u32 (1 + sv_status src)) (sv_bytes src)] else es)"
      using assms(1) by (auto simp: generateGetNextAllDMC_def split: option.splits successors.splits list.splits)
    show thesis
    proof (cases "es = []")
      case True
      with ds assms(2) ended show thesis by (simp add: put_status)
    next
      case False
      with ds assms(2) process_loop_steps [OF l, of d] step show thesis by auto
    qed
  next
    case none
    with assms show thesis by (simp add: generateGetNextAllDMC_def)
  qed
qed

text \<open>
  Whatever the program does, a state of the right shape (six processes, register areas of
  the generator's size) only has next states of the right shape, and the global status stays
  the same or advances by one.
\<close>

lemma next_states_well_formed:
  assumes "sv_wf env src" and "generateGetNextAllDMC env src s = Some (Next ds s')" and "d \<in> set ds"
  shows "\<exists>sv. d = sv_bytes sv \<and> sv_wf env sv
    \<and> (sv_status sv = sv_status src \<or> sv_status sv = sv_status src + 1)"
  using assms(2,3)
proof (cases rule: next_state_cases)
  case (start gc)
  then have "keeps env (generateContextAndSetupCode 0 src s) gc"
    using keeps_start [of env src s gc] by auto
  with start(2) assms(1) show ?thesis
    by (intro exI [of _ "gc_svout gc\<lparr>sv_status := 1 + sv_status src\<rparr>"])
      (simp add: keeps_def sv_wf_def generateContextAndSetupCode_def)
next
  case (step t x gc)
  with keeps_generateStepProcess [OF step(2) assms(1)] show ?thesis by blast
next
  case ended
  with assms(1) show ?thesis
    by (intro exI [of _ "src\<lparr>sv_status := 1 + sv_status src\<rparr>"]) (simp add: sv_wf_def)
qed

text \<open>
  C10: the model has no deadlock before it ends: when \<open>dmc_nextstates\<close> returns, a state whose
  status is START, RUNNING_CONSTRUCTORS, STARTING_MAIN or RUNNING_MAIN has at least one next
  state, whatever its processes wait for, and a state of any other status has none.
\<close>

theorem successors_until_ended:
  assumes "generateGetNextAllDMC env src s = Some (Next ds s')"
  shows "(ds \<noteq> []) = (sv_status src \<in>
    {status_code START, status_code RUNNING_CONSTRUCTORS, status_code STARTING_MAIN, status_code RUNNING_MAIN})"
proof -
  consider "sv_status src = 0" | "sv_status src = 2"
    | "sv_status src = 1 \<or> sv_status src = 3" | "sv_status src \<notin> {0, 1, 2, 3}"
    by auto
  then show ?thesis
  proof cases
    case 1
    with assms have "report_started RUNNING_CONSTRUCTORS (generateConstructorStart env src s) s = Next ds s'"
      by (simp add: generateGetNextAllDMC_def)
    from report_started_Next [OF this start_reports(1)] 1 show ?thesis by auto
  next
    case 2
    with assms have "report_started RUNNING_MAIN (generateMainStart env src s) s = Next ds s'"
      by (simp add: generateGetNextAllDMC_def)
    from report_started_Next [OF this start_reports(2)] 2 show ?thesis by auto
  next
    case 3
    with assms show ?thesis
      by (auto simp: generateGetNextAllDMC_def split: option.splits successors.splits list.splits)
  next
    case 4
    with assms show ?thesis by (simp add: generateGetNextAllDMC_def)
  qed
qed

section \<open>The check of the length of a next state\<close>

lemma uploadTransition_succeeds: "uploadTransition sv = Ok (sv_bytes sv)"
proof -
  obtain k where k: "length (sv_bytes sv) = 8 * k"
    using length_sv_bytes [of sv] by (auto simp: dvd_def)
  have "and (word_of_nat (8 * k) :: u64) 4 = 0"
  proof -
    have "(word_of_nat (8 * k) :: u64) = push_bit 3 (word_of_nat k)"
      by (simp add: push_bit_eq_mult)
    moreover have "and (push_bit 3 w) (2 ^ 2) = 0" for w :: u64
      by (simp only: and_exp_eq_0_iff_not_bit) (simp add: bit_push_bit_iff)
    ultimately show ?thesis by simp
  qed
  with k show ?thesis
    by (simp add: uploadTransition_def checkIsMultipleOf_def)
qed

text \<open>
  The length check of \<open>uploadBytes\<close> never stops the model, because the bytes of a state
  vector come in multiples of eight; as a test for multiples of four it is wrong, since it
  accepts 1 and rejects 4.
\<close>

lemma upload_length_check:
  "uploadTransition sv = Ok (sv_bytes sv) \<and> checkIsMultipleOf 1 4 \<and> \<not> checkIsMultipleOf 4 4"
  by (simp add: uploadTransition_succeeds checkIsMultipleOf_def)

text \<open>
  C2: \<open>model_step\<close> reports the state it has reached exactly when that state ends a run of
  groups from the source state in which at most one group is an emitter and which goes as far
  as possible: up to the end of the thread or up to the next emitter.
\<close>

theorem model_step_is_maximal_run:
  "(generateStepProcess env t src s = Some (Continue gc')) =
    (pc_of (generateContextAndSetupCode t src s) \<noteq> 0
     \<and> (\<exists>e'. group_run env False (generateContextAndSetupCode t src s) e' gc' \<and> step_ends env e' gc'))"
proof -
  have "(step_loop env False gc = Some (Continue gc')) = (\<exists>e'. group_run env False gc e' gc' \<and> step_ends env e' gc')" for gc
    using step_loop_group_run [of env False gc gc'] group_run_step_loop [of env False gc _ gc'] by blast
  then show ?thesis
    by (simp add: generateStepProcess_def Let_def)
qed

section \<open>Steps that do not end\<close>

text \<open>
  One group of a step; the flags say whether a visible group has been executed before it and after it.  A run
  without end is an infinite sequence of such groups: at most one of them is visible, and they may change registers,
  the stack and the program counter from round to round.
\<close>

inductive group_step :: "'s env \<Rightarrow> bool \<times> 's gctx \<Rightarrow> bool \<times> 's gctx \<Rightarrow> bool" for env where
  step: "pc_of gc \<noteq> 0 \<Longrightarrow> group_at (en_gen env) (pc_of gc) = Some Is \<Longrightarrow>
    \<not> (emitter (en_gen env) Is \<and> e) \<Longrightarrow> generateNextStateForGroup env Is gc = Continue gc1 \<Longrightarrow>
    group_step env (e, gc) (e \<or> emitter (en_gen env) Is, gc1)"

definition endless :: "'s env \<Rightarrow> bool \<Rightarrow> 's gctx \<Rightarrow> bool" where
  "endless env e gc \<longleftrightarrow> (\<exists>f. f 0 = (e, gc) \<and> (\<forall>n. group_step env (f n) (f (Suc n))))"

lemma endless_unfold: "endless env e gc \<longleftrightarrow> (\<exists>e' gc'. group_step env (e, gc) (e', gc') \<and> endless env e' gc')"
proof
  assume "endless env e gc"
  then obtain f where "f 0 = (e, gc)" "\<And>n. group_step env (f n) (f (Suc n))"
    by (auto simp: endless_def)
  then show "\<exists>e' gc'. group_step env (e, gc) (e', gc') \<and> endless env e' gc'"
    unfolding endless_def
    by (intro exI [of _ "fst (f 1)"] exI [of _ "snd (f 1)"] conjI exI [of _ "\<lambda>n. f (Suc n)"]) (metis One_nat_def prod.collapse, simp_all)
next
  assume "\<exists>e' gc'. group_step env (e, gc) (e', gc') \<and> endless env e' gc'"
  then obtain e' gc' f where "group_step env (e, gc) (e', gc')" "f 0 = (e', gc')"
    "\<And>n. group_step env (f n) (f (Suc n))"
    by (auto simp: endless_def)
  then show "endless env e gc"
    unfolding endless_def by (intro exI [of _ "case_nat (e, gc) f"]) (auto split: nat.split)
qed

lemma endless_elim:
  assumes "endless env e gc"
  obtains Is gc1 where "pc_of gc \<noteq> 0" and "group_at (en_gen env) (pc_of gc) = Some Is"
    and "\<not> (emitter (en_gen env) Is \<and> e)" and "generateNextStateForGroup env Is gc = Continue gc1"
    and "endless env (e \<or> emitter (en_gen env) Is) gc1"
proof -
  obtain e' gc' where s: "group_step env (e, gc) (e', gc')" and rest: "endless env e' gc'"
    using assms endless_unfold by blast
  from s rest show thesis
    by cases (rule that, simp_all)
qed

lemma endless_step_loop:
  assumes "step_loop env e gc = Some r"
  shows "\<not> endless env e gc"
proof (rule step_loop.raw_induct [where P = "\<lambda>env e gc r. \<not> endless env e gc", OF _ assms], goal_cases)
  case (1 loop env e gc r)
  show ?case
  proof
    assume "endless env e gc"
    then obtain Is gc1 where *: "pc_of gc \<noteq> 0" "group_at (en_gen env) (pc_of gc) = Some Is"
      "\<not> (emitter (en_gen env) Is \<and> e)" "generateNextStateForGroup env Is gc = Continue gc1"
      "endless env (e \<or> emitter (en_gen env) Is) gc1"
      by (rule endless_elim)
    then have "loop env (e \<or> emitter (en_gen env) Is) gc1 = Some r"
      using 1(2) by (simp split: if_splits)
    with 1(1) *(5) show False by blast
  qed
qed

lemma step_loop_endless:
  assumes "step_loop env e gc = None"
  shows "endless env e gc"
proof -
  let ?runs = "\<lambda>x. step_loop env (fst x) (snd x) = None"
  have next_group: "\<exists>y. ?runs y \<and> group_step env x y" if "?runs x" for x
    using that by (cases x) (subst (asm) step_loop.simps,
      auto simp: group_step.simps split: if_splits option.splits run.splits)
  have "\<exists>f. \<forall>n. (?runs (f n) \<and> (n = 0 \<longrightarrow> f n = (e, gc))) \<and> group_step env (f n) (f (Suc n))"
    by (rule dependent_nat_choice [where P = "\<lambda>n x. ?runs x \<and> (n = 0 \<longrightarrow> x = (e, gc))"])
      (use assms next_group in auto)
  then show ?thesis
    unfolding endless_def by metis
qed

text \<open>A step of a process that is not at location 0 does not end exactly when it has such a run.\<close>

lemma generateStepProcess_None:
  "generateStepProcess env t src s = None \<longleftrightarrow> endless env False (generateContextAndSetupCode t src s)"
proof -
  let ?gc = "generateContextAndSetupCode t src s"
  have "step_loop env False ?gc = None \<longleftrightarrow> endless env False ?gc"
    using endless_step_loop [of env False ?gc] step_loop_endless [of env False ?gc]
    by (cases "step_loop env False ?gc") auto
  moreover have "endless env False ?gc \<Longrightarrow> pc_of ?gc \<noteq> 0"
    by (rule endless_elim)
  ultimately show ?thesis
    by (auto simp: generateStepProcess_def Let_def)
qed

lemma process_loop_goes_on:
  assumes "generateStepProcess env t src s = Some r" and "r = Quiet s1 \<or> (\<exists>gc. r = Continue gc \<and> s1 = gc_store gc)"
  shows "process_loop env src (t # ts) s = None \<longleftrightarrow> process_loop env src ts s1 = None"
    and "(\<exists>ds. process_loop env src (t # ts) s = Some (Next ds s'))
      \<longleftrightarrow> (\<exists>ds. process_loop env src ts s1 = Some (Next ds s'))"
  using assms by (auto simp: uploadTransition_succeeds split: option.splits successors.splits)

lemma process_loop_None:
  "process_loop env src ts s = None \<longleftrightarrow> (\<exists>k < length ts. \<exists>s'.
     (\<exists>ds. process_loop env src (take k ts) s = Some (Next ds s')) \<and> generateStepProcess env (ts ! k) src s' = None)"
proof (induction ts arbitrary: s)
  case (Cons t ts)
  have split: "(\<exists>k < length (t # ts). Q k) \<longleftrightarrow> Q 0 \<or> (\<exists>k < length ts. Q (Suc k))" for Q
    by (auto simp: less_Suc_eq_0_disj)
  show ?case
  proof (cases "\<exists>r s1. generateStepProcess env t src s = Some r
      \<and> (r = Quiet s1 \<or> (\<exists>gc. r = Continue gc \<and> s1 = gc_store gc))")
    case True
    then obtain r s1 where r: "generateStepProcess env t src s = Some r"
      "r = Quiet s1 \<or> (\<exists>gc. r = Continue gc \<and> s1 = gc_store gc)" by blast
    show ?thesis
      unfolding split process_loop_goes_on(1) [OF r] Cons.IH
      using process_loop_goes_on(2) [OF r] r(1) by simp
  next
    case False
    then consider "generateStepProcess env t src s = None" | e where "generateStepProcess env t src s = Some (Broken e)"
      by (metis option.exhaust run.exhaust)
    then show ?thesis
      unfolding split by cases simp_all
  qed
qed simp

text \<open>
  C30: the next-state function does not return exactly when some process runs without end within one step: the
  processes before it are done without a crash, and from its program counter groups follow one another for ever, at
  most one of them visible, whatever they change.  A program that loops without visible instruction hangs the
  model checker.
\<close>

theorem silent_loop_diverges:
  assumes "sv_status src \<in> {status_code RUNNING_CONSTRUCTORS, status_code RUNNING_MAIN}"
  shows "generateGetNextAllDMC env src s = None \<longleftrightarrow> (\<exists>t < MAX_THREADS. \<exists>s'.
    (\<exists>ds. process_loop env src [0..<t] s = Some (Next ds s')) \<and> endless env False (generateContextAndSetupCode t src s'))"
proof -
  have "generateGetNextAllDMC env src s = None \<longleftrightarrow> process_loop env src [0..<MAX_THREADS] s = None"
    using assms by (auto simp: generateGetNextAllDMC_def Let_def split: option.splits successors.splits list.splits)
  also have "\<dots> \<longleftrightarrow> (\<exists>t < MAX_THREADS. \<exists>s'. (\<exists>ds. process_loop env src (take t [0..<MAX_THREADS]) s = Some (Next ds s'))
      \<and> generateStepProcess env ([0..<MAX_THREADS] ! t) src s' = None)"
    by (subst process_loop_None) simp
  also have "\<dots> \<longleftrightarrow> (\<exists>t < MAX_THREADS. \<exists>s'. (\<exists>ds. process_loop env src [0..<t] s = Some (Next ds s'))
      \<and> endless env False (generateContextAndSetupCode t src s'))"
    by (intro ex_cong conj_cong refl) (simp add: take_upt generateStepProcess_None)
  finally show ?thesis .
qed

text \<open>A run that comes back to the state it started from goes on without end.\<close>

lemma endless_same:
  assumes "pc_of gc \<noteq> 0" and "group_at (en_gen env) (pc_of gc) = Some Is" and "\<not> emitter (en_gen env) Is"
    and "generateNextStateForGroup env Is gc = Continue gc"
  shows "endless env e gc"
  using group_step.step [OF assms(1,2) _ assms(4), of e] assms(3)
  unfolding endless_def by (intro exI [of _ "\<lambda>n. (e, gc)"]) simp

end
