(* ===== verification/Initial_State.thy ===== *)
theory Initial_State
  imports Next_State LLMC_VM State_Layout
begin

text \<open>
  \<open>dmc_initialstate\<close> (\<open>generateInterface\<close> of LLDMCModelGenerator.h): the initial state vector and
  the memory of process 0, which holds the global variables of the program.
\<close>

section \<open>The initial state\<close>

text \<open>
  The globals are the elements of the packed struct \<open>t_globals\<close>; its size, and the size of the
  buffer, which is rounded up to slots.
\<close>

definition globals_size :: "'s env \<Rightarrow> u32" where
  "globals_size env = word_of_nat (sum_list (map (dl_alloc (en_dl env)) (gn_globalTypes (en_gen env))))"

definition globals_aligned_size :: "'s env \<Rightarrow> u32" where
  "globals_aligned_size env = (let al1 = (4 - 1 :: u32) in and (globals_size env + al1) (not al1))"

definition global_offset :: "'s env \<Rightarrow> string \<Rightarrow> nat" where
  "global_offset env gv =
     (let idx = (case gn_globalIndex (en_gen env) gv of Some k \<Rightarrow> k | None \<Rightarrow> 0)
      in packed_offset (en_dl env) (gn_globalTypes (en_gen env)) idx)"

definition generatePointerToGlobal :: "'s env \<Rightarrow> u64 \<Rightarrow> string \<Rightarrow> u64" where
  "generatePointerToGlobal env start gv = start + word_of_nat (global_offset env gv)"

definition generateBoundCheck :: "u64 \<Rightarrow> u32 \<Rightarrow> u64 \<Rightarrow> u32 \<Rightarrow> unit outcome" where
  "generateBoundCheck ptr len range_start range_size =
     LLMCOS_CheckRangeIsInRange ptr (ucast len) range_start (ucast range_size)"

text \<open>
  The loop over the globals: each initializer is copied to its place in the buffer at the
  address \<open>start\<close>; \<open>llvm.global_ctors\<close> is skipped.
\<close>

definition initialised :: "global_var \<Rightarrow> bool" where
  "initialised v \<longleftrightarrow> g_init v \<noteq> None \<and> g_name v \<noteq> ''llvm.global_ctors''"

fun store_initializers :: "'s env \<Rightarrow> u64 \<Rightarrow> global_var list \<Rightarrow> bytes \<Rightarrow> bytes outcome" where
  "store_initializers env start [] buf = Ok buf"
| "store_initializers env start (v # vs) buf =
     (if initialised v
      then (let global_ptr = generatePointerToGlobal env start (g_name v);
                sizze = generateSizeOf (en_dl env) (g_ty v)
            in obind (generateBoundCheck global_ptr sizze start (globals_size env)) (\<lambda>_.
               store_initializers env start vs
                 (put_at (unat (global_ptr - start)) (take (unat sizze) (zpad (unat sizze) (the (g_init v)))) buf)))
      else store_initializers env start vs buf)"

definition generateInitialState :: "'s env \<Rightarrow> statevector" where
  "generateInitialState env = \<lparr>sv_status = 0, sv_threadsStarted = 0, sv_tres = 0,
     sv_processes = replicate MAX_THREADS
       \<lparr>p_status = 0, p_tid = 0, p_pc = 0, p_msize = 0, p_stk = 0, p_r = replicate (en_regs env) 0, p_m = 0\<rparr>\<rparr>"

definition dmc_initialstate :: "'s env \<Rightarrow> u64 \<Rightarrow> 's \<Rightarrow> (statevector \<times> 's) outcome" where
  "dmc_initialstate env start s =
     (let sv = generateInitialState env;
          sv = sv\<lparr>sv_processes := map (\<lambda>p. p\<lparr>p_stk := getEmptyStack\<rparr>) (sv_processes sv)\<rparr>;
          sv = sv\<lparr>sv_threadsStarted := 1\<rparr>;
          globalsSize = globals_aligned_size env
      in obind (store_initializers env start (m_globals (gn_module (en_gen env)))
             (replicate (unat globalsSize) 0)) (\<lambda>globalsInit.
         let (newMemory, s') = insertB (en_api env) s globalsInit
         in Ok (sv\<lparr>sv_processes := (sv_processes sv)[0 := (sv_processes sv ! 0)
                  \<lparr>p_m := newMemory, p_msize := globalsSize\<rparr>]\<rparr>, s')))"

section \<open>Places of the globals\<close>

lemma packed_offset_step:
  "j < length ts \<Longrightarrow> packed_offset dl ts (Suc j) = packed_offset dl ts j + dl_alloc dl (ts ! j)"
  by (simp add: packed_offset_def take_Suc_conv_app_nth)

lemma packed_offset_mono: "j \<le> k \<Longrightarrow> packed_offset dl ts j \<le> packed_offset dl ts k"
proof -
  assume "j \<le> k"
  then have "take k ts = take j ts @ take (k - j) (drop j ts)"
    by (metis le_add_diff_inverse take_add)
  then show ?thesis by (simp add: packed_offset_def)
qed

lemma packed_offset_total: "packed_offset dl ts (length ts) = sum_list (map (dl_alloc dl) ts)"
  by (simp add: packed_offset_def)

lemma packed_disjoint:
  assumes "j \<noteq> k" and "j < length ts" and "k < length ts"
  shows "packed_offset dl ts j + dl_alloc dl (ts ! j) \<le> packed_offset dl ts k
    \<or> packed_offset dl ts k + dl_alloc dl (ts ! k) \<le> packed_offset dl ts j"
  using packed_offset_step [of j ts dl] packed_offset_step [of k ts dl]
    packed_offset_mono [of "Suc j" k dl ts] packed_offset_mono [of "Suc k" j dl ts] assms
  by (metis Suc_leI linorder_neqE_nat)

text \<open>\<open>mapGlobals\<close> numbers the globals in the order of the module.\<close>

lemma mapGlobals_fold:
  fixes vs :: "global_var list" and k :: nat and g :: generator
  assumes "length (gn_globalTypes g) = k" and "distinct (map g_name vs)"
  defines "g' \<equiv> snd (fold (\<lambda>v st. if is_ctors v then st
         else (fst st + 1,
               (snd st)\<lparr>gn_globalIndex := (gn_globalIndex (snd st))(g_name v \<mapsto> fst st),
                       gn_globalTypes := gn_globalTypes (snd st) @ [g_ty v]\<rparr>)) vs (k, g))"
  shows "gn_module g' = gn_module g"
    and "gn_globalTypes g' = gn_globalTypes g @ map g_ty (filter (\<lambda>v. \<not> is_ctors v) vs)"
    and "j < length (filter (\<lambda>v. \<not> is_ctors v) vs) \<Longrightarrow>
      gn_globalIndex g' (g_name (filter (\<lambda>v. \<not> is_ctors v) vs ! j)) = Some (k + j)"
    and "n \<notin> g_name ` set vs \<Longrightarrow> gn_globalIndex g' n = gn_globalIndex g n"
  using assms(1,2) unfolding g'_def
proof (induction vs arbitrary: k g j n)
  case (Cons v vs)
  {
    case 1
    with Cons.IH(1) [of _ "Suc k"] Cons.IH(1) [of g k] show ?case by simp
  next
    case 2
    with Cons.IH(2) [of _ "Suc k"] Cons.IH(2) [of g k] show ?case by simp
  next
    case 3
    show ?case
    proof (cases "is_ctors v")
      case True
      with 3 Cons.IH(3) [of j g k] show ?thesis by simp
    next
      case False
      then show ?thesis
        using 3 Cons.IH(3) [of "j - 1" _ "Suc k"] Cons.IH(4) [of "g_name v" _ "Suc k"]
        by (cases j) simp_all
    qed
  next
    case 4
    with Cons.IH(4) [of n _ "Suc k"] Cons.IH(4) [of n g k] show ?case by simp
  }
qed simp_all

section \<open>The initializers in the buffer\<close>

abbreviation gsize :: "'s env \<Rightarrow> global_var \<Rightarrow> nat" where
  "gsize env v \<equiv> dl_alloc (en_dl env) (g_ty v)"

abbreviation goff :: "'s env \<Rightarrow> global_var \<Rightarrow> nat" where
  "goff env v \<equiv> global_offset env (g_name v)"

text \<open>One initializer: the bound check passes and the copy goes to the offset of the global.\<close>

lemma store_initializer:
  assumes "initialised v" and "goff env v + gsize env v \<le> unat (globals_size env)"
    and "unat start + unat (globals_size env) < 2 ^ 64" and "length (the (g_init v)) \<le> gsize env v"
  shows "store_initializers env start (v # vs) buf =
    store_initializers env start vs (put_at (goff env v) (zpad (gsize env v) (the (g_init v))) buf)"
proof -
  have b: "unat (globals_size env) < 2 ^ 32"
    using unat_less_power [of "globals_size env"] by simp
  with assms(2) have n: "unat (word_of_nat (goff env v) :: u64) = goff env v"
    "unat (generateSizeOf (en_dl env) (g_ty v)) = gsize env v"
    by (simp_all add: generateSizeOf_def unat_of_nat)
  let ?p = "generatePointerToGlobal env start (g_name v)"
  have p: "unat ?p = unat start + goff env v"
    using n(1) assms(2,3) by (simp add: generatePointerToGlobal_def unat_word_ariths)
  have "unat (?p - start) = goff env v"
    using n(1) by (simp add: generatePointerToGlobal_def)
  moreover have "generateBoundCheck ?p (generateSizeOf (en_dl env) (g_ty v)) start (globals_size env) = Ok ()"
  proof -
    have "unat (ucast (generateSizeOf (en_dl env) (g_ty v)) :: u64) = gsize env v"
      "unat (ucast (globals_size env) :: u64) = unat (globals_size env)"
      using n(2) by (simp_all add: unsigned_ucast_eq take_bit_nat_eq_self unat_less_power)
    then show ?thesis
      unfolding generateBoundCheck_def
      using p assms(2,3) range_check_exact [of ?p _ start] by (auto simp: subset_iff)
  qed
  moreover have "take (gsize env v) (zpad (gsize env v) (the (g_init v))) = zpad (gsize env v) (the (g_init v))"
    using assms(4) by simp
  ultimately show ?thesis
    using assms(1) n(2) by (simp add: Let_def)
qed

text \<open>What the loop leaves in the buffer: the initializers, and the rest as it was.\<close>

definition apart :: "'s env \<Rightarrow> global_var \<Rightarrow> nat \<Rightarrow> nat \<Rightarrow> bool" where
  "apart env v i n \<longleftrightarrow> i + n \<le> goff env v \<or> goff env v + gsize env v \<le> i"

definition filled :: "'s env \<Rightarrow> global_var list \<Rightarrow> bytes \<Rightarrow> bytes \<Rightarrow> bool" where
  "filled env vs buf buf' \<longleftrightarrow> length buf' = length buf
     \<and> (\<forall>v \<in> set vs. initialised v \<longrightarrow> bytes_at (goff env v) (gsize env v) buf' = zpad (gsize env v) (the (g_init v)))
     \<and> (\<forall>i n. i + n \<le> length buf \<longrightarrow> (\<forall>v \<in> set vs. initialised v \<longrightarrow> apart env v i n)
          \<longrightarrow> bytes_at i n buf' = bytes_at i n buf)"

lemma filled_put:
  assumes "filled env vs (put_at (goff env v) d buf) buf'" and "initialised v" and "d = zpad (gsize env v) (the (g_init v))"
    and "length d = gsize env v" and "goff env v + gsize env v \<le> length buf"
    and "\<forall>w \<in> set vs. initialised w \<longrightarrow> apart env w (goff env v) (gsize env v)"
  shows "filled env (v # vs) buf buf'"
proof -
  have len: "length (put_at (goff env v) d buf) = length buf"
    using assms(4,5) by (simp add: length_put_at)
  have "bytes_at (goff env v) (gsize env v) buf' = d"
    using assms bytes_at_put_at_same [of "goff env v" buf d] len by (simp add: filled_def)
  moreover have "bytes_at i n buf' = bytes_at i n buf"
    if "i + n \<le> length buf" "\<forall>w \<in> set (v # vs). initialised w \<longrightarrow> apart env w i n" for i n
    using that assms bytes_at_put_at_disjoint [of i n "goff env v" d buf] len by (simp add: filled_def apart_def)
  ultimately show ?thesis
    using assms(1,3) len by (simp add: filled_def)
qed

lemma store_initializers_Ok:
  assumes "\<forall>v \<in> set vs. initialised v \<longrightarrow>
      goff env v + gsize env v \<le> unat (globals_size env) \<and> length (the (g_init v)) \<le> gsize env v"
    and "\<forall>v \<in> set vs. \<forall>w \<in> set vs. initialised v \<longrightarrow> initialised w \<longrightarrow> g_name v \<noteq> g_name w
      \<longrightarrow> apart env w (goff env v) (gsize env v)"
    and "distinct (map g_name vs)" and "unat start + unat (globals_size env) < 2 ^ 64"
    and "unat (globals_size env) \<le> length buf"
  shows "\<exists>buf'. store_initializers env start vs buf = Ok buf' \<and> filled env vs buf buf'"
  using assms
proof (induction vs arbitrary: buf)
  case Nil
  then show ?case by (simp add: filled_def)
next
  case (Cons v vs)
  show ?case
  proof (cases "initialised v")
    case False
    with Cons show ?thesis by (simp add: filled_def)
  next
    case True
    let ?d = "zpad (gsize env v) (the (g_init v))"
    let ?buf = "put_at (goff env v) ?d buf"
    from Cons.prems(1,5) True
    have v: "goff env v + gsize env v \<le> unat (globals_size env)" "length (the (g_init v)) \<le> gsize env v"
      "length ?d = gsize env v" "goff env v + length ?d \<le> length buf"
      by auto
    obtain buf' where "store_initializers env start vs ?buf = Ok buf'" and f: "filled env vs ?buf buf'"
      using Cons.IH [of ?buf] Cons.prems length_put_at [OF v(4)] by auto
    moreover have "\<forall>w \<in> set vs. initialised w \<longrightarrow> apart env w (goff env v) (gsize env v)"
      using Cons.prems(2,3) True by force
    ultimately show ?thesis
      using store_initializer [OF True v(1) Cons.prems(4) v(2)] filled_put [OF f True refl] v by simp
  qed
qed

section \<open>The initial state holds the globals\<close>

lemma dmc_align_forms: "dmc_align t = 1 \<or> 4 dvd dmc_align t"
proof (induction t rule: dmc_align.induct)
  case (5 ts)
  have "Max (set (1 # map dmc_align ts)) \<in> set (1 # map dmc_align ts)"
    by (rule Max_in) auto
  then have "Max (set (1 # map dmc_align ts)) = 1 \<or> 4 dvd Max (set (1 # map dmc_align ts))"
    using 5 by (force simp del: Max_insert)
  then show ?case by simp
qed auto

lemma round_up_dvd4: "4 dvd n \<Longrightarrow> 4 dvd round_up (dmc_align t) n"
  using dmc_align_forms [of t] by (auto simp: round_up_def)

lemma dmc_alloc_dvd4: "4 dvd dmc_alloc t"
proof (induction t rule: dmc_alloc.induct)
  case (2 n)
  then show ?case by (auto simp: round_up_def)
next
  case (3 n)
  then show ?case by (auto simp: round_up_def)
next
  case (5 ts)
  have "4 dvd foldl (\<lambda>off t. round_up (dmc_align t) off + dmc_alloc t) off us"
    if "set us \<subseteq> set ts" "4 dvd off" for us off
    using that by (induction us arbitrary: off) (simp_all add: 5 round_up_dvd4)
  then show ?case
    using round_up_dvd4 [of _ "StructTy ts"] by simp
qed simp_all

lemma unat_globals_aligned_size:
  assumes "sum_list (map (dl_alloc (en_dl env)) (gn_globalTypes (en_gen env))) + 3 < 2 ^ 32"
  shows "unat (globals_aligned_size env)
    = 4 * ((sum_list (map (dl_alloc (en_dl env)) (gn_globalTypes (en_gen env))) + 3) div 4)"
  using assms unat_generateAlignedSizeOf
    [of "(en_dl env)\<lparr>dl_alloc := \<lambda>_. sum_list (map (dl_alloc (en_dl env)) (gn_globalTypes (en_gen env)))\<rparr>" VoidTy]
  by (simp add: globals_aligned_size_def globals_size_def generateAlignedSizeOf_def)

text \<open>The globals have places of their own within the size of the struct, which needs no rounding.\<close>

definition placed :: "'s env \<Rightarrow> global_var list \<Rightarrow> nat \<Rightarrow> bool" where
  "placed env vs n \<longleftrightarrow> (\<forall>v \<in> set vs. goff env v + gsize env v \<le> n)
     \<and> (\<forall>v \<in> set vs. \<forall>w \<in> set vs. g_name v \<noteq> g_name w \<longrightarrow> apart env w (goff env v) (gsize env v))
     \<and> unat (globals_size env) = n \<and> unat (globals_aligned_size env) = n"

lemma mapGlobals_places:
  assumes "en_gen env = mapGlobals g" and "gn_globalTypes g = []"
    and "vs = filter (\<lambda>v. \<not> is_ctors v) (m_globals (gn_module g))" and "distinct (map g_name (m_globals (gn_module g)))"
  shows "gn_globalTypes (en_gen env) = map g_ty vs" and "gn_module (en_gen env) = gn_module g"
    and "v \<in> set vs \<Longrightarrow> \<exists>j < length vs. v = vs ! j \<and> goff env v = packed_offset (en_dl env) (map g_ty vs) j"
proof -
  note fold = mapGlobals_fold [of g 0 "m_globals (gn_module g)", OF _ assms(4), unfolded assms(2), simplified,
      folded mapGlobals_def assms(1,3)]
  show types: "gn_globalTypes (en_gen env) = map g_ty vs" and "gn_module (en_gen env) = gn_module g"
    using fold(1,2) by simp_all
  show "\<exists>j < length vs. v = vs ! j \<and> goff env v = packed_offset (en_dl env) (map g_ty vs) j" if "v \<in> set vs"
  proof -
    from that obtain j where "j < length vs" "v = vs ! j"
      by (auto simp: in_set_conv_nth)
    with fold(3) [of j] show ?thesis
      by (auto simp: global_offset_def types)
  qed
qed

lemma mapGlobals_placed:
  assumes "en_dl env = dmc_layout" and "en_gen env = mapGlobals g" and "gn_globalTypes g = []"
    and "vs = filter (\<lambda>v. \<not> is_ctors v) (m_globals (gn_module g))" and "distinct (map g_name (m_globals (gn_module g)))"
    and n: "n = sum_list (map (\<lambda>v. dmc_alloc (g_ty v)) vs)" "n + 3 < 2 ^ 32"
  shows "placed env vs n"
proof -
  note places = mapGlobals_places [OF assms(2-5)]
  have sum: "sum_list (map (dl_alloc (en_dl env)) (gn_globalTypes (en_gen env))) = n"
    by (simp add: places(1) assms(1) n dmc_layout_def comp_def)
  have "goff env v + gsize env v \<le> n" if "v \<in> set vs" for v
  proof -
    from places(3) [OF that] obtain j where j: "j < length vs" "v = vs ! j"
      "goff env v = packed_offset (en_dl env) (map g_ty vs) j" by blast
    have "packed_offset (en_dl env) (map g_ty vs) (Suc j) \<le> packed_offset (en_dl env) (map g_ty vs) (length vs)"
      using j(1) by (intro packed_offset_mono) simp
    with j packed_offset_step [of j "map g_ty vs" "en_dl env"] packed_offset_total [of "en_dl env" "map g_ty vs"]
    show ?thesis using sum by (simp add: places(1))
  qed
  moreover have "apart env w (goff env v) (gsize env v)" if vw: "v \<in> set vs" "w \<in> set vs" "g_name v \<noteq> g_name w" for v w
  proof -
    from places(3) [OF vw(1)] places(3) [OF vw(2)] obtain i j where "i < length vs" "v = vs ! i" "j < length vs" "w = vs ! j"
      "goff env v = packed_offset (en_dl env) (map g_ty vs) i" "goff env w = packed_offset (en_dl env) (map g_ty vs) j"
      by blast
    with vw(3) packed_disjoint [of i j "map g_ty vs" "en_dl env"] show ?thesis by (auto simp: apart_def)
  qed
  moreover have "4 dvd n"
    unfolding n(1) by (induction vs) (simp_all add: dmc_alloc_dvd4)
  then have "unat (globals_aligned_size env) = n"
    using unat_globals_aligned_size [of env] n(2) by (auto simp: sum)
  ultimately show ?thesis
    using n(2) by (simp add: placed_def globals_size_def sum unat_of_nat)
qed

text \<open>A load through the pointer to a global reads its place in the memory of process 0.\<close>

lemma load_global:
  assumes "vector_store (en_api env) sinv room content" and "sinv s" and "content s (p_m (sv_processes sv ! 0)) = Some buf"
    and "en_dl env = dmc_layout" and "sv_processes sv \<noteq> []"
    and "goff env v + gsize env v \<le> length buf" and "length buf + 3 < 2 ^ 32"
  shows "generateLoad env (generateContextAndSetupCode t sv s) (generateModelPointerToGlobal env (g_name v)) (g_ty v)
    = Ok (take (dmc_store (g_ty v)) (bytes_at (goff env v) (gsize env v) buf))"
proof -
  have dl: "dl_alloc (en_dl env) = dmc_alloc" "dl_store (en_dl env) = dmc_store"
    by (simp_all add: assms(4) dmc_layout_def)
  have ptr: "generateModelPointerToGlobal env (g_name v) = makePointer (word_of_nat 0) (word_of_nat (goff env v))"
    by (simp add: generateModelPointerToGlobal_def global_offset_def Let_def)
  have off: "unat (word_of_nat (goff env v) :: u64) = goff env v"
    using assms(6,7) by (simp add: unat_of_nat)
  then have "unat (word_of_nat (goff env v) :: u64) < 2 ^ 56"
    using assms(6,7) by simp
  note own = owner_makePointer [OF _ this, of 0]
  have "aligned env (g_ty v) = gsize env v"
    using unat_generateAlignedSizeOf [of "en_dl env" "g_ty v"] assms(6,7) dmc_alloc_dvd4 [of "g_ty v"]
    by (auto simp: aligned_def dl)
  moreover have "getpartB (en_api env) s (p_m (sv_processes sv ! 0)) (goff env v) (gsize env v)
      = Some (bytes_at (goff env v) (gsize env v) buf)"
    using vector_store.getpart [OF assms(1-3)] assms(6) by simp
  ultimately show ?thesis
    using own off ptr assms(5)
    by (simp add: generateLoad_def generateAccessToMemory_eq generateContextAndSetupCode_def of_option_def dl)
qed

text \<open>
  C8: the initial state is a state vector of the right shape with the status START, one started
  thread and every process idle, and loading any initialised global through the pointer the
  generated code uses for it gives its initializer; the memory of process 0 ends behind the
  last global, so what the program allocates does not overlap the globals.
\<close>

theorem initial_globals_loaded:
  assumes "delta_store (en_api env) sinv room content" and "sinv s" and "room (Suc k) s"
    and "en_dl env = dmc_layout" and "en_gen env = mapGlobals g" and "gn_globalTypes g = []"
    and "vs = filter (\<lambda>v. \<not> is_ctors v) (m_globals (gn_module g))" and "distinct (map g_name (m_globals (gn_module g)))"
    and "tsize = sum_list (map (\<lambda>v. dmc_alloc (g_ty v)) vs)" and "tsize + 3 < 2 ^ 32" and "unat start + tsize < 2 ^ 64"
    and "\<forall>v \<in> set vs. initialised v \<longrightarrow> length (the (g_init v)) \<le> dmc_alloc (g_ty v)"
  shows "\<exists>sv s'. dmc_initialstate env start s = Ok (sv, s') \<and> sinv s' \<and> sv_wf env sv
    \<and> sv_status sv = status_code START \<and> sv_threadsStarted sv = 1
    \<and> (\<forall>t < MAX_THREADS. p_pc (sv_processes sv ! t) = 0 \<and> p_stk (sv_processes sv ! t) = getEmptyStack)
    \<and> unat (p_msize (sv_processes sv ! 0)) = tsize
    \<and> (\<forall>v \<in> set vs. initialised v \<longrightarrow>
        generateLoad env (generateContextAndSetupCode t sv s') (generateModelPointerToGlobal env (g_name v)) (g_ty v)
        = Ok (take (dmc_store (g_ty v)) (zpad (dmc_alloc (g_ty v)) (the (g_init v)))))"
proof -
  note api = delta_store.axioms(1) [OF assms(1)]
  note m = mapGlobals_places(2) [OF assms(5-8)]
  note p = mapGlobals_placed [OF assms(4-10), unfolded placed_def]
  have dl: "dl_alloc (en_dl env) = dmc_alloc"
    by (simp add: assms(4) dmc_layout_def)
  have init: "v \<in> set vs" if "v \<in> set (m_globals (gn_module g))" "initialised v" for v
    using that by (simp add: assms(7) initialised_def is_ctors_def)
  obtain buf where buf: "store_initializers env start (m_globals (gn_module g)) (replicate tsize 0) = Ok buf"
    and f: "filled env (m_globals (gn_module g)) (replicate tsize 0) buf"
    using store_initializers_Ok [of "m_globals (gn_module g)" env start "replicate tsize 0"] p init assms(8,11,12) dl
    by auto
  obtain i s' where ins: "insertB (en_api env) s buf = (i, s')"
    by (metis prod.exhaust)
  let ?p = "\<lparr>p_status = 0, p_tid = 0, p_pc = 0, p_msize = 0, p_stk = getEmptyStack, p_r = replicate (en_regs env) 0, p_m = 0\<rparr>"
  let ?sv = "\<lparr>sv_status = 0, sv_threadsStarted = 1, sv_tres = 0,
     sv_processes = (replicate MAX_THREADS ?p)[0 := ?p\<lparr>p_m := i, p_msize := globals_aligned_size env\<rparr>]\<rparr>"
  have run: "dmc_initialstate env start s = Ok (?sv, s')"
    using p by (simp add: dmc_initialstate_def m buf ins generateInitialState_def Let_def)
  have inv: "sinv s'" and cont: "content s' i = Some buf"
    using vector_store.insert_inv [OF api assms(2,3), of buf] vector_store.insert_content [OF api assms(2,3), of buf] ins
    by simp_all
  have "generateLoad env (generateContextAndSetupCode t ?sv s') (generateModelPointerToGlobal env (g_name v)) (g_ty v)
      = Ok (take (dmc_store (g_ty v)) (zpad (dmc_alloc (g_ty v)) (the (g_init v))))"
    if v: "v \<in> set vs" "initialised v" for v
    using load_global [OF api inv _ assms(4), of ?sv buf v t] cont f v p assms(7,10) by (simp add: filled_def dl)
  moreover have "sv_wf env ?sv"
    by (auto simp: sv_wf_def simp del: list_update_code dest!: subsetD [OF set_update_subset_insert])
  moreover have "p_pc (sv_processes ?sv ! t) = 0 \<and> p_stk (sv_processes ?sv ! t) = getEmptyStack" if "t < MAX_THREADS" for t
    using that by (cases t) simp_all
  ultimately show ?thesis
    using run inv p by (intro exI [of _ ?sv] exI [of _ s']) simp
qed

text \<open>Three globals: an integer 5, an external one, and the list of constructors.\<close>

definition ex_globals :: ir_module where
  "ex_globals = \<lparr>m_globals =
     [\<lparr>g_name = ''x'', g_ty = IntTy 32, g_init = Some [5, 0, 0, 0]\<rparr>,
      \<lparr>g_name = ''e'', g_ty = IntTy 64, g_init = None\<rparr>,
      \<lparr>g_name = ''llvm.global_ctors'', g_ty = IntTy 64, g_init = Some []\<rparr>], m_functions = [inc_func]\<rparr>"

definition ex_globals_env :: "tree_store env" where
  "ex_globals_env = ex_env\<lparr>en_gen := mapGlobals (generator_new ex_globals False)\<rparr>"

theorem initial_globals_loaded_witness:
  "\<exists>sv s'. dmc_initialstate ex_globals_env 4096 tree_store_new = Ok (sv, s')
    \<and> unat (p_msize (sv_processes sv ! 0)) = 12
    \<and> generateLoad ex_globals_env (generateContextAndSetupCode 0 sv s')
        (generateModelPointerToGlobal ex_globals_env ''x'') (IntTy 32) = Ok [5, 0, 0, 0]"
proof -
  let ?vs = "filter (\<lambda>v. \<not> is_ctors v) (m_globals ex_globals)"
  have vs: "?vs = [\<lparr>g_name = ''x'', g_ty = IntTy 32, g_init = Some [5, 0, 0, 0]\<rparr>,
      \<lparr>g_name = ''e'', g_ty = IntTy 64, g_init = None\<rparr>]"
    by (simp add: ex_globals_def is_ctors_def)
  have new: "ssgen_inv 3 tree_store_new" "ssgen_room 3 (Suc 1000) tree_store_new"
    by (simp_all add: ssgen_inv_def ssgen_room_def tree_store_new_def tree_store_inv_def tree_contents_def)
  have alloc: "dmc_alloc (IntTy 32) = 4" "dmc_alloc (IntTy 64) = 8"
    by (simp_all add: round_up_def)
  have gen: "gn_module (generator_new ex_globals False) = ex_globals" "gn_globalTypes (generator_new ex_globals False) = []"
    by (simp_all add: generator_new_def)
  have "distinct (map g_name (m_globals ex_globals))"
    by (simp add: ex_globals_def)
  moreover have "12 = sum_list (map (\<lambda>v. dmc_alloc (g_ty v)) ?vs)"
    unfolding vs using alloc by (simp del: dmc_alloc.simps)
  moreover have "\<forall>v \<in> set ?vs. initialised v \<longrightarrow> length (the (g_init v)) \<le> dmc_alloc (g_ty v)"
    unfolding vs using alloc by (simp add: initialised_def del: dmc_alloc.simps)
  moreover have "initialised \<lparr>g_name = ''x'', g_ty = IntTy 32, g_init = Some [5, 0, 0, 0]\<rparr>"
    by (simp add: initialised_def)
  ultimately show ?thesis
    using initial_globals_loaded [of ex_globals_env "ssgen_inv 3" "ssgen_room 3" "ssgen_content 3" tree_store_new 1000
        "generator_new ex_globals False" ?vs 12 4096 0] ssgen.delta_store_axioms [of "\<lambda>_. 0" 3] new alloc
    unfolding gen vs by (simp add: ex_globals_env_def zpad_def del: dmc_alloc.simps) blast
qed

end
