(* ===== verification/Isolation.thy ===== *)
theory Isolation
  imports Next_State
begin

text \<open>
  Which processes a step of the generated model can change.  Everything a process has of its own, that is all
  but the identifier of its memory, is changed by its own steps only; a process slot that is not in use can also
  be filled by \<open>pthread_create\<close>.  Memories are shared through pointers: \<open>Model_Memory\<close> says what a store changes.
\<close>

section \<open>What a process has of its own\<close>

definition own :: "process \<Rightarrow> u32 \<times> u32 \<times> u32 \<times> u32 \<times> u64 \<times> bytes" where
  "own p = (p_status p, p_tid p, p_pc p, p_msize p, p_stk p, p_r p)"

text \<open>\<open>touches A gc gc'\<close>: of the processes outside \<open>A\<close> nothing of their own has changed.\<close>

definition touches :: "nat set \<Rightarrow> 's gctx \<Rightarrow> 's gctx \<Rightarrow> bool" where
  "touches A gc gc' \<longleftrightarrow> gc_thread gc' = gc_thread gc
     \<and> length (sv_processes (gc_svout gc')) = length (sv_processes (gc_svout gc))
     \<and> (\<forall>u < length (sv_processes (gc_svout gc)). u \<notin> A
          \<longrightarrow> own (sv_processes (gc_svout gc') ! u) = own (sv_processes (gc_svout gc) ! u))"

named_theorems touches_rules \<open>pieces of generated code that touch one process\<close>

lemma touches_refl [simp, intro!]: "touches A gc gc"
  by (simp add: touches_def)

lemma touches_trans: "touches A a b \<Longrightarrow> touches A b c \<Longrightarrow> touches A a c"
  by (simp add: touches_def)

lemma touches_mono: "touches A a b \<Longrightarrow> A \<subseteq> B \<Longrightarrow> touches B a b"
  by (auto simp: touches_def)

lemma touches_thread: "touches A a b \<Longrightarrow> gc_thread b = gc_thread a"
  by (simp add: touches_def)

lemma touches_store [simp]: "touches A (gc\<lparr>gc_store := s\<rparr>) gc' = touches A gc gc'"
  "touches A gc (gc'\<lparr>gc_store := s\<rparr>) = touches A gc gc'"
  by (simp_all add: touches_def)

lemma touches_upd_sv [simp]:
  "touches A gc (upd_sv (\<lambda>sv. sv\<lparr>sv_tres := x\<rparr>) gc') = touches A gc gc'"
  "touches A gc (upd_sv (\<lambda>sv. sv\<lparr>sv_threadsStarted := y\<rparr>) gc') = touches A gc gc'"
  by (simp_all add: touches_def)

lemma touches_upd_proc: "t \<in> A \<Longrightarrow> touches A gc (upd_proc t f gc)"
  unfolding touches_def gc_upd_proc length_list_update by (metis nth_list_update_neq)

lemma touches_set_pc: "t \<in> A \<Longrightarrow> touches A gc (set_pc t pc gc)"
  by (simp add: set_pc_def touches_upd_proc)

lemma touches_memory: "touches A gc (upd_proc t (\<lambda>p. p\<lparr>p_m := x\<rparr>) gc)"
proof -
  have "own ((sv_processes (gc_svout gc))[t := (sv_processes (gc_svout gc) ! t)\<lparr>p_m := x\<rparr>] ! u)
      = own (sv_processes (gc_svout gc) ! u)" if "u < length (sv_processes (gc_svout gc))" for u
    using that by (cases "u = t") (simp_all add: own_def)
  then show ?thesis
    by (simp add: touches_def)
qed

section \<open>Registers, memory and stack\<close>

lemma touches_store_reg_of: "store_reg_of t off d gc = Ok gc' \<Longrightarrow> t \<in> A \<Longrightarrow> touches A gc gc'"
  by (auto simp: store_reg_of_def outcome_simps touches_upd_proc split: if_splits)

lemma touches_store_reg [touches_rules]:
  "store_reg off d gc = Ok gc' \<Longrightarrow> gc_thread gc \<in> A \<Longrightarrow> touches A gc gc'"
  by (simp add: store_reg_def touches_store_reg_of)

lemma touches_vRegUsingOffset [touches_rules]:
  "vRegUsingOffset off d gc = Ok gc' \<Longrightarrow> gc_thread gc \<in> A \<Longrightarrow> touches A gc gc'"
  by (simp add: vRegUsingOffset_def touches_store_reg)

lemma touches_store_result [touches_rules]:
  "store_result env I v gc = Ok gc' \<Longrightarrow> gc_thread gc \<in> A \<Longrightarrow> touches A gc gc'"
  by (auto simp: store_result_def outcome_simps touches_store_reg split: prod.splits)

lemma touches_generateStoreBytes [touches_rules]: "generateStoreBytes env p d gc = Ok gc' \<Longrightarrow> touches A gc gc'"
  using touches_memory [of A "gc\<lparr>gc_store := s\<rparr>" for s]
  by (auto simp: generateStoreBytes_def outcome_simps Let_def)

lemma touches_generateStore [touches_rules]: "generateStore env p v t gc = Ok gc' \<Longrightarrow> touches A gc gc'"
  by (simp add: generateStore_def touches_generateStoreBytes)

lemma touches_copy_memory [touches_rules]: "copy_memory env dst src n gc = Ok gc' \<Longrightarrow> touches A gc gc'"
  by (auto simp: copy_memory_def outcome_simps intro: touches_generateStoreBytes)

lemma touches_generateAllocateMemory [touches_rules]:
  "generateAllocateMemory n gc = Ok (p, gc') \<Longrightarrow> gc_thread gc \<in> A \<Longrightarrow> touches A gc gc'"
  by (auto simp: generateAllocateMemory_def outcome_simps touches_upd_proc)

text \<open>Two pieces of the running thread, one after the other.\<close>

lemma touches_seq:
  "touches A a b \<Longrightarrow> gc_thread a \<in> A \<Longrightarrow> (gc_thread b \<in> A \<Longrightarrow> touches A b c) \<Longrightarrow> touches A a c"
  by (simp add: touches_def)

lemma touches_write_phis [touches_rules]:
  "write_phis env fn D gc = Ok gc' \<Longrightarrow> gc_thread gc \<in> A \<Longrightarrow> touches A gc gc'"
proof (induction D arbitrary: gc)
  case (Cons it D)
  obtain n v where it: "it = (n, v)" by (cases it)
  from Cons.prems obtain x gc1 where "store_result env (InstV fn n) x gc = Ok gc1"
    and "write_phis env fn D gc1 = Ok gc'"
    by (auto simp: outcome_simps it)
  with Cons show ?case
    by (blast intro: touches_seq touches_store_result)
qed simp

lemma touches_generateStoresForPHINodes [touches_rules]:
  "generateStoresForPHINodes env fn from to gc = Ok gc' \<Longrightarrow> gc_thread gc \<in> A \<Longrightarrow> touches A gc gc'"
  by (auto simp: generateStoresForPHINodes_def outcome_simps intro: touches_write_phis)

lemma touches_saveCaller: "saveCaller env cs t gc = Ok gc' \<Longrightarrow> t \<in> A \<Longrightarrow> touches A gc gc'"
  using touches_upd_proc [of t A "gc\<lparr>gc_store := s\<rparr>" for s] touches_upd_proc [of t A gc]
  by (auto simp: saveCaller_def uploadBytes_def outcome_simps Let_def split: option.splits)

lemma touches_store_args: "store_args env t fn k args gc = Ok gc' \<Longrightarrow> t \<in> A \<Longrightarrow> touches A gc gc'"
proof (induction args arbitrary: k gc)
  case (Cons a args)
  then obtain off v gc1 where "store_reg_of t off v gc = Ok gc1"
    and "store_args env t fn (Suc k) args gc1 = Ok gc'"
    by (auto simp: outcome_simps)
  with Cons show ?case
    by (blast intro: touches_trans touches_store_reg_of)
qed simp

lemma touches_store_values: "store_values env t ts k vs gc = Ok gc' \<Longrightarrow> t \<in> A \<Longrightarrow> touches A gc gc'"
proof (induction vs arbitrary: k gc)
  case (Cons v vs)
  then obtain off gc1 where "store_reg_of t off v gc = Ok gc1"
    and "store_values env t ts (Suc k) vs gc1 = Ok gc'"
    by (auto simp: outcome_simps split: if_splits)
  with Cons show ?case
    by (blast intro: touches_trans touches_store_reg_of)
qed simp

lemma touches_pushStackFrame: "pushStackFrame env F args cs t gc = Ok gc' \<Longrightarrow> t \<in> A \<Longrightarrow> touches A gc gc'"
  by (auto simp: pushStackFrame_def outcome_simps split: if_splits
      intro!: touches_trans [OF touches_saveCaller touches_trans [OF touches_store_args touches_set_pc]])

lemma touches_pushStackFrameIndirect:
  "pushStackFrameIndirect env ps va loc args cs t gc = Ok gc' \<Longrightarrow> t \<in> A \<Longrightarrow> touches A gc gc'"
  by (auto simp: pushStackFrameIndirect_def outcome_simps split: if_splits
      intro!: touches_trans [OF touches_saveCaller touches_trans [OF touches_store_values touches_set_pc]])

lemma touches_restoreRegisters [touches_rules]:
  "restoreRegisters env r gc = Ok gc' \<Longrightarrow> gc_thread gc \<in> A \<Longrightarrow> touches A gc gc'"
  by (auto simp: restoreRegisters_def Let_def outcome_simps intro: touches_store_reg split: if_splits)

lemma touches_storeThreadResult [touches_rules]: "storeThreadResult env t v gc = Ok gc' \<Longrightarrow> touches A gc gc'"
  by (auto simp: storeThreadResult_def deltaBytes_def Let_def outcome_simps)

lemma touches_popStackFrame [touches_rules]:
  assumes "popStackFrame env r gc = Ok gc'" and "gc_thread gc \<in> A"
  shows "touches A gc gc'"
proof -
  note own_step = touches_upd_proc [OF assms(2)]
  note pop = touches_seq [OF own_step assms(2)]
  from assms(1) show ?thesis
    unfolding popStackFrame_def Let_def
    by (elim obind_OkE)
      (auto simp: outcome_simps split: if_splits option.splits
        intro!: own_step pop intro: touches_restoreRegisters touches_storeThreadResult
          touches_seq [OF touches_restoreRegisters _ touches_vRegUsingOffset])
qed

section \<open>Handlers\<close>

text \<open>Only \<open>pthread_create\<close> touches another process, one whose program counter is 0.\<close>

definition idle :: "'s gctx \<Rightarrow> nat set" where
  "idle gc = {u. u < length (sv_processes (gc_svout gc)) \<and> p_pc (sv_processes (gc_svout gc) ! u) = 0}"

lemma idle_touches: "touches A a b \<Longrightarrow> idle a \<subseteq> A \<Longrightarrow> idle b \<subseteq> A"
  by (auto simp: touches_def idle_def own_def)

lemma touches_cmpxchg [touches_rules]:
  "atomic_compare_exchange env I p e d n gc = Ok gc' \<Longrightarrow> gc_thread gc \<in> A \<Longrightarrow> touches A gc gc'"
  by (auto simp: atomic_compare_exchange_def outcome_simps split: if_splits
      intro: touches_seq [OF touches_generateStoreBytes _ touches_store_result])

lemma touches_call_malloc [touches_rules]:
  "call_malloc env I c gc = Ok gc' \<Longrightarrow> gc_thread gc \<in> A \<Longrightarrow> touches A gc gc'"
  by (auto simp: call_malloc_def outcome_simps
      intro: touches_seq [OF touches_generateAllocateMemory _ touches_store_result])

lemma touches_start_thread: "start_thread env c t gc = Ok gc' \<Longrightarrow> t \<in> A \<Longrightarrow> touches A gc gc'"
  by (cases "fst (c_args c ! 2)"; cases "snd (c_args c ! 2)"; cases "\<exists>r ps va. snd (c_args c ! 2) = PtrTy (FunTy r ps va)")
    (auto simp: start_thread_def arg_def outcome_simps split: if_splits ty.splits
      intro: touches_pushStackFrame touches_pushStackFrameIndirect)

lemma touches_register_thread: "register_thread env c t gc = Ok gc' \<Longrightarrow> t \<in> A \<Longrightarrow> touches A gc gc'"
  by (auto simp: register_thread_def Let_def outcome_simps
      intro: touches_trans [OF iffD2 [OF touches_upd_sv(2) touches_upd_proc] touches_generateStore])

lemma touches_create_in_slot:
  "create_in_slot env I c slots gc = Ok gc' \<Longrightarrow> gc_thread gc \<in> A \<Longrightarrow> idle gc \<subseteq> A \<Longrightarrow> touches A gc gc'"
proof (induction env I c slots gc rule: create_in_slot.induct)
  case (2 env I c t slots gc)
  show ?case
  proof (cases "p_pc (sv_processes (gc_svout gc) ! t) = 0")
    case True
    with 2 have "t \<in> A" by (auto simp: outcome_simps idle_def)
    with True 2 show ?thesis
      by (auto simp: outcome_simps intro: touches_trans [OF touches_start_thread touches_register_thread])
  qed (use 2 in \<open>auto simp: outcome_simps\<close>)
qed (auto simp: touches_set_pc)

lemma touches_call_pthread_join [touches_rules]:
  "call_pthread_join env I t c gc = Ok gc' \<Longrightarrow> gc_thread gc \<in> A \<Longrightarrow> touches A gc gc'"
  by (auto simp: call_pthread_join_def Let_def outcome_simps split: if_splits
      intro: touches_store_result touches_seq [OF touches_store_result _ touches_generateStore])

lemma touches_call_declaration:
  assumes "call_declaration env fn I c F gc = Ok gc'" and t: "gc_thread gc \<in> A" and "idle gc \<subseteq> A"
  shows "touches A gc gc'"
proof -
  have "call_intrinsic env n c gc = Ok gc' \<Longrightarrow> touches A gc gc'"
    "call_atomic_load env k c gc = Ok gc' \<Longrightarrow> touches A gc gc'"
    "call_atomic_store env k c gc = Ok gc' \<Longrightarrow> touches A gc gc'"
    "call_atomic_compare_exchange env v c gc = Ok gc' \<Longrightarrow> touches A gc gc'"
    "call_pthread_create env i c gc = Ok gc' \<Longrightarrow> touches A gc gc'" for n k v i
    using t assms(3)
    by (auto simp: call_intrinsic_def call_atomic_load_def call_atomic_store_def
        call_atomic_compare_exchange_def call_pthread_create_def outcome_simps
        split: if_splits list.splits ty.splits
        intro: touches_copy_memory touches_cmpxchg touches_create_in_slot)
  with assms show ?thesis
    by (auto simp: call_declaration_def Let_def split: if_splits
        intro: touches_call_malloc touches_call_pthread_join)
qed

lemma touches_generateNextStateForCall:
  "generateNextStateForCall env fn I c gc = Ok gc' \<Longrightarrow> gc_thread gc \<in> A \<Longrightarrow> idle gc \<subseteq> A \<Longrightarrow> touches A gc gc'"
  by (cases "c_fty c")
    (auto simp: generateNextStateForCall_def call_inline_asm_def call_pointer_def outcome_simps
      split: option.splits if_splits
      intro: touches_pushStackFrame touches_pushStackFrameIndirect touches_call_declaration)

lemma touches_generateNextStateForBranch [touches_rules]:
  "generateNextStateForBranch env F from cond succs gc = Ok gc' \<Longrightarrow> gc_thread gc \<in> A \<Longrightarrow> touches A gc gc'"
  by (auto simp: generateNextStateForBranch_def Let_def outcome_simps
      split: option.splits list.splits if_splits
      intro: touches_seq [OF touches_set_pc _ touches_generateStoresForPHINodes])

lemma touches_generateNextStateForAtomicCmpXchg [touches_rules]:
  assumes "generateNextStateForAtomicCmpXchg env I p e d t gc = Ok gc'" and "gc_thread gc \<in> A"
  shows "touches A gc gc'"
  using assms
  by (auto simp: generateNextStateForAtomicCmpXchg_def Let_def outcome_simps split: if_splits
      intro: touches_seq [OF touches_store_reg _ touches_store_reg]
        touches_seq [OF touches_store_reg _ touches_seq [OF touches_generateStore _ touches_store_reg]])

lemma touches_generateNextStateForInstruction:
  assumes "generateNextStateForInstruction env F I gc = Ok gc'" and t: "gc_thread gc \<in> A" and "idle gc \<subseteq> A"
  shows "touches A gc gc'"
proof -
  have "generateNextStateForInstructionValueMapped env fn I gc = Ok gc' \<Longrightarrow> touches A gc gc'"
    "generateNextStateForAlloca env r t gc = Ok gc' \<Longrightarrow> touches A gc gc'"
    "generateNextStateForLoad env r t v gc = Ok gc' \<Longrightarrow> touches A gc gc'"
    "generateNextStateForStore env v t p gc = Ok gc' \<Longrightarrow> touches A gc gc'"
    "generateNextStateForExtractValue env r t v u is gc = Ok gc' \<Longrightarrow> touches A gc gc'"
    "generateNextStateForAtomicRMW env op p v t gc = Ok (old, gc') \<Longrightarrow> touches A gc gc'" for fn r t v p u "is" op old
    using t
    by (auto simp: generateNextStateForInstructionValueMapped_def generateNextStateForAlloca_def
        generateNextStateForLoad_def generateNextStateForStore_def generateNextStateForExtractValue_def
        generateNextStateForAtomicRMW_def outcome_simps split: if_splits
        intro: touches_store_result touches_generateStore
          touches_seq [OF touches_generateAllocateMemory _ touches_store_result])
  with assms show ?thesis
    by (auto simp: generateNextStateForInstruction_def Let_def outcome_simps split: opcode.splits
        intro: touches_popStackFrame touches_generateNextStateForBranch touches_generateNextStateForCall
          touches_generateNextStateForAtomicCmpXchg)
qed

section \<open>Steps\<close>

lemma touches_run_instructions:
  "run_instructions env Is gc = Continue gc' \<Longrightarrow> gc_thread gc \<in> A \<Longrightarrow> idle gc \<subseteq> A \<Longrightarrow> touches A gc gc'"
proof (induction Is arbitrary: gc)
  case (Cons I Is)
  then obtain F gc1 where "generateNextStateForInstruction env F I gc = Ok gc1"
    and rest: "run_instructions env Is gc1 = Continue gc'"
    by (auto simp: outcome_simps split: outcome.splits)
  then have "touches A gc gc1"
    using Cons.prems by (blast intro: touches_generateNextStateForInstruction)
  moreover from this have "touches A gc1 gc'"
    using Cons.prems idle_touches touches_thread by (metis Cons.IH [OF rest])
  ultimately show ?case by (rule touches_trans)
qed simp

lemma touches_generateNextStateForGroup:
  assumes "generateNextStateForGroup env Is gc = Continue gc'" and "gc_thread gc \<in> A" and "idle gc \<subseteq> A"
  shows "touches A gc gc'"
proof -
  let ?gc = "set_pc (gc_thread gc) (word_of_nat (location_after (en_gen env) (i_id (last Is)))) gc"
  have pc: "touches A gc ?gc"
    using assms(2) by (rule touches_set_pc)
  have "run_instructions env Is ?gc = Continue gc'"
    using assms(1) by (simp add: generateNextStateForGroup_def split: if_splits)
  with touches_run_instructions [OF this] touches_thread [OF pc] idle_touches [OF pc assms(3)] assms(2)
  have "touches A ?gc gc'" by simp
  with pc show ?thesis by (rule touches_trans)
qed

lemma touches_group_run:
  "group_run env e gc e' gc' \<Longrightarrow> gc_thread gc \<in> A \<Longrightarrow> idle gc \<subseteq> A \<Longrightarrow> touches A gc gc'"
proof (induction rule: group_run.induct)
  case (group gc Is e gc1 e' gc')
  then have "touches A gc gc1"
    by (blast intro: touches_generateNextStateForGroup)
  moreover from this have "touches A gc1 gc'"
    using group.prems group.IH idle_touches touches_thread by metis
  ultimately show ?case by (rule touches_trans)
qed simp

lemma touches_generateStepProcess:
  assumes "generateStepProcess env t src s = Some (Continue gc)"
  shows "touches (insert t (idle (generateContextAndSetupCode t src s))) (generateContextAndSetupCode t src s) gc"
proof -
  obtain e' where "group_run env False (generateContextAndSetupCode t src s) e' gc"
    using assms step_loop_group_run by (fastforce simp: generateStepProcess_def Let_def split: if_splits)
  then show ?thesis
    by (rule touches_group_run) (auto simp: generateContextAndSetupCode_def)
qed

text \<open>The processes of a next state that one step of process \<open>t\<close> leads to.\<close>

definition step_of :: "nat \<Rightarrow> statevector \<Rightarrow> statevector \<Rightarrow> bool" where
  "step_of t src sv \<longleftrightarrow> (\<forall>u < MAX_THREADS. u \<noteq> t \<longrightarrow> p_pc (sv_processes src ! u) \<noteq> 0
     \<longrightarrow> own (sv_processes sv ! u) = own (sv_processes src ! u))"

lemma touches_step_of:
  assumes "touches (insert t (idle gc)) gc gc'" and "gc_svout gc = src" and "length (sv_processes src) = MAX_THREADS"
  shows "step_of t src (gc_svout gc')"
  using assms by (auto simp: touches_def step_of_def idle_def)

lemma step_of_start:
  assumes "generateConstructorStart env src s = Ok gc \<or> generateMainStart env src s = Ok gc"
    and "length (sv_processes src) = MAX_THREADS"
  shows "step_of 0 src (gc_svout gc)"
proof -
  let ?gc = "generateContextAndSetupCode 0 src s"
  have "touches (insert 0 (idle ?gc)) ?gc gc"
    using assms(1) by (auto simp: generateConstructorStart_def generateMainStart_def Let_def split: option.splits
        intro: touches_pushStackFrame)
  then show ?thesis
    by (rule touches_step_of) (simp_all add: generateContextAndSetupCode_def assms(2))
qed

text \<open>
  C6: the model interleaves its processes: every next state of a well-formed state is reached by a step of one
  process.  Of every other process that has started and not ended, the program counter, the stack, the registers,
  the thread number, the status and the size of the memory are the same before and after.
\<close>

theorem next_state_one_process:
  assumes "sv_wf env src" and "generateGetNextAllDMC env src s = Some (Next ds s')" and "d \<in> set ds"
  shows "\<exists>t < MAX_THREADS. \<exists>sv. d = sv_bytes sv \<and> sv_wf env sv \<and> step_of t src sv"
proof -
  have len: "length (sv_processes src) = MAX_THREADS"
    using assms(1) by (simp add: sv_wf_def)
  from assms(2,3) show ?thesis
  proof (cases rule: next_state_cases)
    case (start gc)
    have "sv_wf env (gc_svout gc)"
      using start(1) keeps_start [of env src s gc] assms(1) by (auto simp: keeps_def generateContextAndSetupCode_def)
    with step_of_start [OF start(1) len] start(2) show ?thesis
      by (intro exI [of _ 0] conjI exI [of _ "gc_svout gc\<lparr>sv_status := 1 + sv_status src\<rparr>"]) (simp_all add: sv_wf_def step_of_def)
  next
    case (step t x gc)
    have "step_of t src (gc_svout gc)"
      using touches_generateStepProcess [OF step(2)]
      by (rule touches_step_of) (simp_all add: generateContextAndSetupCode_def len)
    with step keeps_generateStepProcess [OF step(2) assms(1)] show ?thesis by blast
  next
    case ended
    with assms(1) show ?thesis
      by (intro exI [of _ 0] conjI exI [of _ "src\<lparr>sv_status := 1 + sv_status src\<rparr>"]) (simp_all add: sv_wf_def step_of_def)
  qed
qed

end
