(* ===== verification/Private_Groups.thy ===== *)
theory Private_Groups
  imports Isolation
begin

text \<open>
  Why groups may be collapsed: the instructions that \<open>isRuntimeCollapsableInstruction\<close> of LLDMCModelGenerator.h
  accepts work on what a process has for itself.  A group of them gives the same result whatever the other
  processes, their memories and its own memory are, and leaves all of these alone.  There are two exceptions:
  \<open>llvm.memcpy\<close>, which is accepted as an intrinsic although it reads and writes shared memory, and the \<open>ret\<close> that
  ends a thread with a result, which adds an entry to the shared list of thread results.
\<close>

section \<open>Changing the surroundings of a process\<close>

text \<open>
  \<open>carry res sv gc\<close> puts the running process into the state vector \<open>sv\<close>, with all it has for itself, but with the
  memory it finds there.  The list of thread results is shared: with \<open>res = False\<close> it is the list of \<open>sv\<close>, like
  everything else there.  A thread that ends adds its result to the list; for the runs that may do so, \<open>res = True\<close>
  says that the process comes with the list it had.
\<close>

definition carry :: "bool \<Rightarrow> statevector \<Rightarrow> 's gctx \<Rightarrow> 's gctx" where
  "carry res sv gc = gc\<lparr>gc_svout := sv\<lparr>sv_tres := (if res then sv_tres (gc_svout gc) else sv_tres sv),
     sv_processes := (sv_processes sv)[gc_thread gc :=
       (sv_processes (gc_svout gc) ! gc_thread gc)\<lparr>p_m := p_m (sv_processes sv ! gc_thread gc)\<rparr>]\<rparr>\<rparr>"

lemma carry_fields [simp]:
  "gc_thread (carry res sv gc) = gc_thread gc" "gc_src (carry res sv gc) = gc_src gc" "gc_store (carry res sv gc) = gc_store gc"
  "sv_tres (gc_svout (carry res sv gc)) = (if res then sv_tres (gc_svout gc) else sv_tres sv)"
  "length (sv_processes (gc_svout (carry res sv gc))) = length (sv_processes sv)"
  by (simp_all add: carry_def list_update_beyond)

lemma carry_process [simp]:
  "gc_thread gc = t \<Longrightarrow> t < length (sv_processes sv) \<Longrightarrow> sv_processes (gc_svout (carry res sv gc)) ! t
     = (sv_processes (gc_svout gc) ! t)\<lparr>p_m := p_m (sv_processes sv ! t)\<rparr>"
  by (auto simp: carry_def)

lemma carry_own [simp]: "carry res (gc_svout gc) gc = gc"
  by (simp add: carry_def)

lemma carry_store [simp]: "(carry res sv gc)\<lparr>gc_store := s\<rparr> = carry res sv (gc\<lparr>gc_store := s\<rparr>)"
  by (simp add: carry_def)

lemma carry_tres [simp]:
  "upd_sv (\<lambda>sv. sv\<lparr>sv_tres := x\<rparr>) (carry True sv gc) = carry True sv (upd_sv (\<lambda>sv. sv\<lparr>sv_tres := x\<rparr>) gc)"
  by (simp add: carry_def upd_sv_def)

lemma carry_upd_proc:
  assumes "gc_thread gc = t" and "t < threads gc" and "t < length (sv_processes sv)"
    and "\<And>p m. f (p\<lparr>p_m := m\<rparr>) = (f p)\<lparr>p_m := m\<rparr>"
  shows "upd_proc t f (carry res sv gc) = carry res sv (upd_proc t f gc)"
  using assms by (simp add: carry_def upd_proc_def upd_sv_def)

section \<open>Operations that are private to a process\<close>

definition local_read :: "nat \<Rightarrow> ('s gctx \<Rightarrow> 'a) \<Rightarrow> bool" where
  "local_read t r \<longleftrightarrow> (\<forall>gc sv res. gc_thread gc = t \<longrightarrow> t < threads gc \<longrightarrow> t < length (sv_processes sv)
     \<longrightarrow> r (carry res sv gc) = r gc)"

definition local_at :: "bool \<Rightarrow> ('s gctx \<Rightarrow> 's gctx outcome) \<Rightarrow> 's gctx \<Rightarrow> bool" where
  "local_at res f gc \<longleftrightarrow>
     (\<forall>sv. gc_thread gc < length (sv_processes sv) \<longrightarrow> f (carry res sv gc) = map_outcome (carry res sv) (f gc))
     \<and> (\<forall>gc'. f gc = Ok gc' \<longrightarrow> gc_thread gc' = gc_thread gc)"

definition local_op :: "bool \<Rightarrow> nat \<Rightarrow> ('s gctx \<Rightarrow> 's gctx outcome) \<Rightarrow> bool" where
  "local_op res t f \<longleftrightarrow> (\<forall>gc. gc_thread gc = t \<longrightarrow> t < threads gc \<longrightarrow> local_at res f gc)"

named_theorems local_rules \<open>pieces of generated code that are private to a process\<close>

lemma local_opI:
  assumes "\<And>gc sv. gc_thread gc = t \<Longrightarrow> t < threads gc \<Longrightarrow> t < length (sv_processes sv)
      \<Longrightarrow> f (carry res sv gc) = map_outcome (carry res sv) (f gc)"
    and "\<And>gc gc'. gc_thread gc = t \<Longrightarrow> t < threads gc \<Longrightarrow> f gc = Ok gc' \<Longrightarrow> gc_thread gc' = t"
  shows "local_op res t f"
  using assms unfolding local_op_def local_at_def by blast

lemma local_readD:
  "local_read t r \<Longrightarrow> gc_thread gc = t \<Longrightarrow> t < threads gc \<Longrightarrow> t < length (sv_processes sv) \<Longrightarrow> r (carry res sv gc) = r gc"
  by (simp add: local_read_def)

text \<open>A private operation keeps the thread and the number of processes.\<close>

lemma local_at_keeps:
  assumes "local_at res f gc" and "f gc = Ok gc'" and "gc_thread gc < threads gc"
  shows "gc' = carry res (gc_svout gc) gc'" and "gc_thread gc' = gc_thread gc" and "threads gc' = threads gc"
proof -
  have "f (carry res (gc_svout gc) gc) = map_outcome (carry res (gc_svout gc)) (f gc)"
    using assms unfolding local_at_def by blast
  then show eq: "gc' = carry res (gc_svout gc) gc'"
    using assms(2) by simp
  show "gc_thread gc' = gc_thread gc"
    using assms unfolding local_at_def by blast
  show "threads gc' = threads gc"
    using arg_cong [OF eq, of "\<lambda>gc. length (sv_processes (gc_svout gc))"] by simp
qed

lemma local_at_carry:
  "local_at res f gc \<Longrightarrow> gc_thread gc < length (sv_processes sv)
     \<Longrightarrow> f (carry res sv gc) = map_outcome (carry res sv) (f gc)"
  by (simp add: local_at_def)

lemma local_at_cong:
  "f gc = g gc \<Longrightarrow> (\<And>sv. gc_thread gc < length (sv_processes sv) \<Longrightarrow> f (carry res sv gc) = g (carry res sv gc))
     \<Longrightarrow> local_at res g gc \<Longrightarrow> local_at res f gc"
  unfolding local_at_def by metis

lemma local_op_at: "local_op res t f \<Longrightarrow> gc_thread gc = t \<Longrightarrow> t < threads gc \<Longrightarrow> local_at res f gc"
  by (simp add: local_op_def)

lemma local_op_keeps:
  assumes "local_op res t f" and "f gc = Ok gc'" and "gc_thread gc = t" and "t < threads gc"
  shows "gc' = carry res (gc_svout gc) gc'" and "gc_thread gc' = t" and "threads gc' = threads gc"
  using local_at_keeps [OF local_op_at [OF assms(1,3,4)] assms(2)] assms(3,4) by simp_all

lemma local_op_carry:
  "local_op res t f \<Longrightarrow> gc_thread gc = t \<Longrightarrow> t < threads gc \<Longrightarrow> t < length (sv_processes sv)
     \<Longrightarrow> f (carry res sv gc) = map_outcome (carry res sv) (f gc)"
  using local_op_at [of res t f gc] local_at_carry [of res f gc sv] by simp

lemma local_bind:
  assumes "local_op res t f" and "local_op res t g"
  shows "local_op res t (\<lambda>gc. obind (f gc) g)"
proof (rule local_opI)
  fix gc :: "'a gctx" and sv :: statevector
  assume gc: "gc_thread gc = t" "t < threads gc" and sv: "t < length (sv_processes sv)"
  have "g (carry res sv gc1) = map_outcome (carry res sv) (g gc1)" if "f gc = Ok gc1" for gc1
    using local_op_keeps [OF assms(1) that gc] local_op_carry [OF assms(2)] gc(2) sv by simp
  then show "obind (f (carry res sv gc)) g = map_outcome (carry res sv) (obind (f gc) g)"
    using local_op_carry [OF assms(1) gc sv] by (cases "f gc") simp_all
next
  fix gc gc' :: "'a gctx"
  assume gc: "gc_thread gc = t" "t < threads gc" and "obind (f gc) g = Ok gc'"
  then obtain gc1 where "f gc = Ok gc1" "g gc1 = Ok gc'"
    by (auto simp: outcome_simps)
  with local_op_keeps [OF assms(1) _ gc] local_op_keeps [OF assms(2)] gc(2) show "gc_thread gc' = t"
    by simp
qed

lemma local_read_bind:
  assumes "local_read t r" and "\<And>x. local_op res t (g x)"
  shows "local_op res t (\<lambda>gc. obind (r gc) (\<lambda>x. g x gc))"
proof (rule local_opI)
  fix gc :: "'a gctx" and sv :: statevector
  assume gc: "gc_thread gc = t" "t < threads gc" "t < length (sv_processes sv)"
  then have "r (carry res sv gc) = r gc"
    using assms(1) by (simp add: local_read_def)
  with gc show "obind (r (carry res sv gc)) (\<lambda>x. g x (carry res sv gc)) = map_outcome (carry res sv) (obind (r gc) (\<lambda>x. g x gc))"
    by (cases "r gc") (simp_all add: local_op_carry [OF assms(2)])
next
  fix gc gc' :: "'a gctx"
  assume "gc_thread gc = t" "t < threads gc" "obind (r gc) (\<lambda>x. g x gc) = Ok gc'"
  with local_op_keeps(2) [OF assms(2)] show "gc_thread gc' = t"
    by (auto simp: outcome_simps)
qed

lemma local_Ok [local_rules]: "local_op res t Ok"
  by (rule local_opI) simp_all

lemma local_Fail [local_rules]: "local_op res t (\<lambda>gc. Fail e)"
  by (rule local_opI) simp_all

lemma local_const [local_rules]: "local_read t (\<lambda>gc. c)"
  by (simp add: local_read_def)

lemma local_if [local_rules]:
  "(b \<Longrightarrow> local_op res t f) \<Longrightarrow> (\<not> b \<Longrightarrow> local_op res t g) \<Longrightarrow> local_op res t (\<lambda>gc. if b then f gc else g gc)"
  by (cases b) simp_all

lemma local_option [local_rules]:
  "local_op res t f \<Longrightarrow> (\<And>x y. local_op res t (g x y))
     \<Longrightarrow> local_op res t (\<lambda>gc. case v of None \<Rightarrow> f gc | Some (x, y) \<Rightarrow> g x y gc)"
  by (cases v) (auto split: prod.splits)

lemma local_cong: "(\<And>gc. gc_thread gc = t \<Longrightarrow> f gc = g gc) \<Longrightarrow> local_op res t g \<Longrightarrow> local_op res t f"
  unfolding local_op_def local_at_def by (metis carry_fields(1))

lemma local_upd_proc [local_rules]:
  "(\<And>p m. f (p\<lparr>p_m := m\<rparr>) = (f p)\<lparr>p_m := m\<rparr>) \<Longrightarrow> local_op res t (\<lambda>gc. Ok (upd_proc t f gc))"
  by (rule local_opI) (auto simp: carry_upd_proc)

lemma local_set_pc [local_rules]: "local_op res t (\<lambda>gc. Ok (set_pc t pc gc))"
  by (simp add: set_pc_def local_upd_proc)

section \<open>Reading\<close>

lemma carry_load_reg [simp]:
  "gc_thread gc < threads gc \<Longrightarrow> gc_thread gc < length (sv_processes sv) \<Longrightarrow> load_reg (carry res sv gc) off n = load_reg gc off n"
  by (simp add: load_reg_def proc_at_def)

lemma carry_vMap [simp]:
  assumes "gc_thread gc < threads gc" and "gc_thread gc < length (sv_processes sv)"
  shows "vMap env (carry res sv gc) v = vMap env gc v"
proof (induction v)
  case (ExprV op vs ty)
  then have "omap (vMap env (carry res sv gc)) vs = omap (vMap env gc) vs"
    by (rule omap_eq)
  then show ?case by simp
qed (simp_all add: assms case_prod_unfold)

lemma local_load_reg [local_rules]: "local_read t (\<lambda>gc. load_reg gc off n)"
  by (auto simp: local_read_def)

lemma local_vMap [local_rules]: "local_read t (\<lambda>gc. vMap env gc v)"
  by (auto simp: local_read_def)

section \<open>Registers, stack and values\<close>

lemma local_store_reg_of [local_rules]: "local_op res t (store_reg_of t off d)"
  by (rule local_opI) (auto simp: store_reg_of_def proc_at_def carry_upd_proc split: if_splits)

lemma local_store_reg [local_rules]: "local_op res t (store_reg off d)"
  by (rule local_cong [OF _ local_store_reg_of]) (simp add: store_reg_def)

lemma local_vRegUsingOffset [local_rules]: "local_op res t (vRegUsingOffset off d)"
  by (rule local_cong [OF _ local_store_reg]) (simp add: vRegUsingOffset_def)

lemma local_store_result [local_rules]: "local_op res t (store_result env I v)"
proof -
  have "local_op res t (\<lambda>gc. obind (vReg env I) (\<lambda>x. store_reg (fst x) v gc))"
    by (rule local_read_bind [OF local_const local_store_reg])
  then show ?thesis
    by (rule local_cong [rotated]) (simp add: store_result_def case_prod_unfold)
qed

lemma local_write_phis [local_rules]: "local_op res t (write_phis env fn D)"
proof (induction D)
  case (Cons it D)
  obtain n v where it: "it = (n, v)" by (cases it)
  have "local_op res t (\<lambda>gc. obind (vMap env gc v) (\<lambda>x. obind (store_result env (InstV fn n) x gc) (write_phis env fn D)))"
    by (intro local_read_bind local_vMap local_bind local_store_result Cons.IH)
  then show ?case
    by (rule local_cong [rotated]) (simp add: it)
qed (rule local_cong [OF _ local_Ok], simp)

lemma local_generateStoresForPHINodes [local_rules]: "local_op res t (generateStoresForPHINodes env fn from to)"
proof -
  have "local_op res t (\<lambda>gc. obind (phi_plan env fn from to) (\<lambda>D. write_phis env fn D gc))"
    by (rule local_read_bind [OF local_const local_write_phis])
  then show ?thesis
    by (rule local_cong [rotated]) (simp add: generateStoresForPHINodes_def)
qed

lemma local_saveCaller [local_rules]: "local_op res t (saveCaller env cs t)"
  by (rule local_opI)
    (auto simp: saveCaller_def uploadBytes_def proc_at_def Let_def carry_upd_proc split: option.splits)

lemma local_store_args [local_rules]: "local_op res t (store_args env t fn k args)"
proof (induction args arbitrary: k)
  case (Cons a args)
  have "local_op res t (\<lambda>gc. obind (vMap env gc a) (\<lambda>v. obind (vReg env (ArgV fn k)) (\<lambda>x.
      obind (store_reg_of t (fst x) v gc) (store_args env t fn (Suc k) args))))"
    by (intro local_read_bind local_vMap local_const local_bind local_store_reg_of Cons.IH)
  then show ?case
    by (rule local_cong [rotated]) (simp add: case_prod_unfold)
qed (rule local_cong [OF _ local_Ok], simp)

lemma local_pushStackFrame [local_rules]: "local_op res t (pushStackFrame env F args cs t)"
proof -
  have "local_op res t (\<lambda>gc. obind (saveCaller env cs t gc) (\<lambda>gc.
      if \<not> f_vararg F \<and> length (f_params F) < length args then Fail TooManyArguments
      else obind (store_args env t (f_name F) 0 args gc) (\<lambda>gc.
        obind (of_option BadAccess (entry_location (en_gen env) F)) (\<lambda>loc.
          if loc = 0 then Fail Assertion else Ok (set_pc t (word_of_nat loc) gc)))))"
    by (intro local_bind local_if local_read_bind [OF local_const] local_rules)
  then show ?thesis
    by (rule local_cong [rotated]) (simp add: pushStackFrame_def)
qed

lemma local_restoreRegisters [local_rules]: "local_op res t (restoreRegisters env r)"
proof -
  have "local_op res t (\<lambda>gc. obind (download env (gc_store gc) r) (\<lambda>d.
      if unat (getLengthOfStateID r) \<le> length d then store_reg 0 (take (unat (getLengthOfStateID r)) d) gc
      else Fail UnknownValue))"
    by (intro local_read_bind local_if local_rules) (simp add: local_read_def)
  then show ?thesis
    by (rule local_cong [rotated]) (simp add: restoreRegisters_def Let_def)
qed

lemma local_storeThreadResult: "local_op True t (storeThreadResult env ty v)"
proof (rule local_opI, goal_cases)
  case (1 gc sv)
  then show ?case
    by (simp add: storeThreadResult_def deltaBytes_def proc_at_def Let_def)
next
  case (2 gc gc')
  then show ?case
    by (auto simp: storeThreadResult_def deltaBytes_def outcome_simps Let_def)
qed

text \<open>
  A return is private when it leaves the results of the threads alone: when it goes back to a caller, or when
  nothing is returned.
\<close>

abbreviation stack_of :: "'s gctx \<Rightarrow> u64" where
  "stack_of gc \<equiv> p_stk (sv_processes (gc_svout gc) ! gc_thread gc)"

lemma local_popStackFrame:
  assumes t: "gc_thread gc < threads gc" and "res \<or> result = None \<or> stack_of gc \<noteq> getEmptyStack"
  shows "local_at res (popStackFrame env result) gc"
proof -
  let ?t = "gc_thread gc"
  let ?val = "\<lambda>gc. case result of None \<Rightarrow> Ok None
    | Some (v, ty) \<Rightarrow> obind (vMap env gc v) (\<lambda>bs. Ok (Some (bs, ty)))"
  let ?return = "\<lambda>frame retVal gc. obind (Ok (upd_proc ?t
      (\<lambda>p. p\<lparr>p_stk := getPrevStackChunkIDFromFrame frame, p_pc := getPrevPCFromFrame frame\<rparr>) gc)) (\<lambda>gc.
    obind (restoreRegisters env (getPrevRegisterChunkIDFrame frame) gc) (\<lambda>gc.
      case retVal of None \<Rightarrow> Ok gc
      | Some (bs, ty) \<Rightarrow> vRegUsingOffset (getResultRegisterOffsetFromFrame frame) bs gc))"
  let ?leave = "\<lambda>retVal gc. obind (Ok (upd_proc ?t
      (\<lambda>p. p\<lparr>p_pc := 0, p_r := put_at 0 (replicate (en_regs env) 0) (p_r p)\<rparr>) gc)) (\<lambda>gc.
    case retVal of None \<Rightarrow> Ok gc
    | Some (bs, ty) \<Rightarrow> (if res then storeThreadResult env ty bs gc else Fail Assertion))"
  let ?pop = "\<lambda>gc. obind (obind (proc_at ?t (gc_svout gc)) (\<lambda>p. Ok (p_stk p))) (\<lambda>stk.
      obind (?val gc) (\<lambda>retVal. if stk \<noteq> getEmptyStack
        then obind (download env (gc_store gc) stk) (\<lambda>frame. ?return frame retVal gc) else ?leave retVal gc))"
  have val: "local_read ?t ?val"
    by (auto simp: local_read_def split: option.splits)
  have stk: "local_read ?t (\<lambda>gc. obind (proc_at ?t (gc_svout gc)) (\<lambda>p. Ok (p_stk p)))"
    by (simp add: local_read_def proc_at_def)
  have return: "local_op res ?t (?return frame retVal)" for frame retVal
    by (intro local_bind local_upd_proc local_rules) simp_all
  have "local_op res ?t (\<lambda>gc. if res then storeThreadResult env ty bs gc else Fail Assertion)" for ty bs
    by (cases res) (simp_all add: local_storeThreadResult local_Fail)
  then have ends: "local_op res ?t (?leave retVal)" for retVal
    by (intro local_bind local_upd_proc local_rules) simp_all
  have frame: "local_read ?t (\<lambda>gc. download env (gc_store gc) i)" for i
    by (simp add: local_read_def)
  have pop: "local_op res ?t ?pop"
    by (rule local_read_bind [OF stk], rule local_read_bind [OF val], rule local_if,
        rule local_read_bind [OF frame return], rule ends)
  have same: "popStackFrame env result g = ?pop g"
    if "gc_thread g = ?t" "?t < threads g" "stack_of g = stack_of gc" for g
  proof (cases "res \<or> result = None")
    case True
    with that show ?thesis
      by (auto simp: popStackFrame_def Let_def proc_at_def cong: if_cong option.case_cong)
  next
    case False
    with that assms(2) show ?thesis
      by (auto simp: popStackFrame_def Let_def proc_at_def)
  qed
  show ?thesis
  proof (rule local_at_cong [OF _ _ local_op_at [OF pop refl t]])
    show "popStackFrame env result gc = ?pop gc"
      using t by (intro same) simp_all
    show "popStackFrame env result (carry res sv gc) = ?pop (carry res sv gc)"
      if "?t < length (sv_processes sv)" for sv
      using that t by (intro same) simp_all
  qed
qed

section \<open>Handlers\<close>

lemma local_allocation:
  "local_op res t (\<lambda>gc. obind (generateAllocateMemory n gc) (\<lambda>(ptr, gc'). store_result env I (bytes_u64 ptr) gc'))"
proof -
  have ptr: "local_read t (\<lambda>gc. obind (proc_at t (gc_svout gc)) (\<lambda>p. Ok (makePointer (word_of_nat t) (ucast (p_msize p)))))"
    by (simp add: local_read_def proc_at_def)
  have "local_op res t (\<lambda>gc. obind (obind (proc_at t (gc_svout gc)) (\<lambda>p. Ok (makePointer (word_of_nat t) (ucast (p_msize p)))))
      (\<lambda>ptr. obind (Ok (upd_proc t (\<lambda>p. p\<lparr>p_msize := p_msize p + n\<rparr>) gc)) (store_result env I (bytes_u64 ptr))))"
    by (intro local_read_bind [OF ptr] local_bind local_upd_proc local_store_result) simp
  then show ?thesis
    by (rule local_cong [rotated]) (simp add: generateAllocateMemory_def proc_at_def)
qed

lemma local_generateNextStateForInstructionValueMapped [local_rules]:
  "local_op res t (generateNextStateForInstructionValueMapped env fn I)"
proof -
  have ops: "local_read t (\<lambda>gc. vMapOperands env gc (operands I))"
    by (auto simp: local_read_def vMapOperands_def intro!: omap_eq)
  have "local_op res t (\<lambda>gc. obind (vMapOperands env gc (operands I)) (\<lambda>xs. if i_ty I = VoidTy then Ok gc
      else if reg_index (en_gen env) fn (InstReg (i_id I)) \<in> {None, Some 0} then Fail Assertion
      else store_result env (InstV fn (i_id I)) (en_exec env I xs) gc))"
    by (intro local_read_bind [OF ops] local_if local_rules)
  then show ?thesis
    by (rule local_cong [rotated]) (simp add: generateNextStateForInstructionValueMapped_def)
qed

lemma local_generateNextStateForExtractValue [local_rules]:
  "local_op res t (generateNextStateForExtractValue env I ty agg aggTy idxs)"
proof -
  have "local_op res t (\<lambda>gc. obind (vReg env agg) (\<lambda>x.
      obind (load_reg gc (fst x + dl_field (en_dl env) aggTy idxs) (dl_store (en_dl env) ty)) (\<lambda>v. store_result env I v gc)))"
    by (intro local_read_bind local_const local_load_reg local_store_result)
  then show ?thesis
    by (rule local_cong [rotated]) (simp add: generateNextStateForExtractValue_def case_prod_unfold)
qed

lemma local_generateNextStateForBranch [local_rules]: "local_op res t (generateNextStateForBranch env F from cond succs)"
proof -
  let ?go = "\<lambda>loc to gc. obind (Ok (set_pc t (word_of_nat loc) gc)) (generateStoresForPHINodes env (f_name F) from to)"
  have go: "local_op res t (?go loc to)" for loc to
    by (intro local_bind local_rules)
  consider (cond) c s0 s1 where "cond = Some c" "succs = [s0, s1]" | (jump) s0 where "cond = None" "succs = [s0]"
    | (other) "cond = None \<and> (\<forall>s0. succs \<noteq> [s0]) \<or> cond \<noteq> None \<and> (\<forall>s0 s1. succs \<noteq> [s0, s1])"
    by (cases cond) blast+
  then show ?thesis
  proof cases
    case cond
    have "local_op res t (\<lambda>gc. obind (block_location (en_gen env) F s0) (\<lambda>locTrue.
        obind (block_location (en_gen env) F s1) (\<lambda>locFalse.
        obind (phi_plan env (f_name F) from (f_blocks F ! s0)) (\<lambda>_.
        obind (phi_plan env (f_name F) from (f_blocks F ! s1)) (\<lambda>_.
        obind (vMap env gc c) (\<lambda>cv. ?go (if le_nat cv mod 2 = 1 then locTrue else locFalse)
          (f_blocks F ! (if le_nat cv mod 2 = 1 then s0 else s1)) gc))))))"
      by (intro local_read_bind local_const local_vMap go)
    then show ?thesis
      by (rule local_cong [rotated]) (simp add: generateNextStateForBranch_def cond Let_def)
  next
    case jump
    have "local_op res t (\<lambda>gc. obind (block_location (en_gen env) F s0) (\<lambda>loc. ?go loc (f_blocks F ! s0) gc))"
      by (intro local_read_bind local_const go)
    then show ?thesis
      by (rule local_cong [rotated]) (simp add: generateNextStateForBranch_def jump)
  next
    case other
    then show ?thesis
      by (intro local_cong [OF _ local_Ok])
        (auto simp: generateNextStateForBranch_def Let_def split: option.splits list.splits)
  qed
qed

section \<open>Groups\<close>

text \<open>A call of \<open>llvm.memcpy\<close>, the only instruction that is collapsable without an option and uses memory.\<close>

definition copies_memory :: "generator \<Rightarrow> instruction \<Rightarrow> bool" where
  "copies_memory g I = (case i_op I of
     Call c \<Rightarrow> (case getCalledFunction (gn_module g) c of
        Some F \<Rightarrow> isIntrinsic F \<and> take 11 (f_name F) = ''llvm.memcpy'' | None \<Rightarrow> False)
   | _ \<Rightarrow> False)"

lemma local_collapsable_call:
  assumes "isRuntimeCollapsableCall (en_gen env) c"
    and "\<And>F. getCalledFunction (gn_module (en_gen env)) c = Some F \<Longrightarrow> isIntrinsic F \<Longrightarrow> take 11 (f_name F) \<noteq> ''llvm.memcpy''"
  shows "local_op res t (generateNextStateForCall env fn I c)"
proof (cases "c_asm c")
  case (Some asm)
  show ?thesis
  proof (cases "snd asm = barrier_constraints \<and> (fst asm = '''' \<or> fst asm = ''mfence'')")
    case True
    then show ?thesis
      by (intro local_cong [OF _ local_Ok]) (simp add: generateNextStateForCall_def call_inline_asm_def Some)
  next
    case False
    then show ?thesis
      by (intro local_cong [OF _ local_Fail [of res t Assertion]])
        (simp add: generateNextStateForCall_def call_inline_asm_def Some)
  qed
next
  case None
  with assms(1) obtain F where F: "getCalledFunction (gn_module (en_gen env)) c = Some F"
    by (auto simp: isRuntimeCollapsableCall_def Let_def split: option.splits)
  show ?thesis
  proof (cases "f_decl F")
    case False
    then show ?thesis
      by (intro local_cong [OF _ local_pushStackFrame]) (simp add: generateNextStateForCall_def None F)
  next
    case True
    show ?thesis
    proof (cases "isIntrinsic F")
      case True
      then show ?thesis
        using \<open>f_decl F\<close> assms(2) [OF F]
        by (intro local_cong [OF _ local_Ok])
          (simp add: generateNextStateForCall_def None F call_declaration_def call_intrinsic_def Let_def)
    next
      case False
      with assms(1) F None \<open>f_decl F\<close> have "f_name F = ''malloc''"
        by (simp add: isRuntimeCollapsableCall_def Let_def split: if_splits)
      have malloc: "local_op res t (\<lambda>gc. obind (arg_size env gc c 0) (\<lambda>n. obind (generateAllocateMemory (word_of_nat n) gc)
          (\<lambda>(ptr, gc'). store_result env (InstV fn (i_id I)) (bytes_u64 ptr) gc')))"
        by (intro local_read_bind local_allocation) (simp add: local_read_def arg_size_def arg_def)
      show ?thesis
        by (rule local_cong [OF _ malloc]) (simp add: generateNextStateForCall_def None F call_declaration_def
            call_malloc_def \<open>f_name F = ''malloc''\<close> \<open>f_decl F\<close> False)
    qed
  qed
qed

lemma local_simple:
  "(\<forall>gc. f gc = Ok gc) \<or> (\<exists>e. \<forall>gc. f gc = Fail e)
     \<or> (\<forall>gc. f gc = generateNextStateForInstructionValueMapped env fn I gc) \<Longrightarrow> local_op res t f"
  by (auto intro: local_cong [OF _ local_Ok] local_cong [OF _ local_Fail]
      local_cong [OF _ local_generateNextStateForInstructionValueMapped])

text \<open>An instruction that ends its thread with a result, and a group that comes to one.\<close>

definition ends_with_result :: "instruction \<Rightarrow> 's gctx \<Rightarrow> bool" where
  "ends_with_result I gc = (case i_op I of
     Ret (Some r) \<Rightarrow> stack_of gc = getEmptyStack | _ \<Rightarrow> False)"

fun reports_result :: "'s env \<Rightarrow> instruction list \<Rightarrow> 's gctx \<Rightarrow> bool" where
  "reports_result env [] gc = False"
| "reports_result env (I # Is) gc = (ends_with_result I gc
     \<or> (case obind (of_option BadAccess (function_of (gn_module (en_gen env)) (i_id I)))
            (\<lambda>F. generateNextStateForInstruction env F I gc) of
          Ok gc' \<Rightarrow> reports_result env Is gc'
        | _ \<Rightarrow> False))"

lemma local_collapsable_instruction:
  assumes "isRuntimeCollapsableInstruction (en_gen env) I" and "\<not> gn_assumeNonAtomicCollapsable (en_gen env)"
    and "\<not> copies_memory (en_gen env) I" and t: "gc_thread gc < threads gc"
    and "res \<or> \<not> ends_with_result I gc"
  shows "local_at res (generateNextStateForInstruction env F I) gc"
proof (cases "\<exists>r. i_op I = Ret r")
  case True
  then obtain r where r: "i_op I = Ret r" ..
  then have "local_at res (popStackFrame env r) gc"
    using assms(5) by (intro local_popStackFrame t) (auto simp: ends_with_result_def)
  moreover have "generateNextStateForInstruction env F I = popStackFrame env r"
    by (rule ext) (simp add: generateNextStateForInstruction_def r)
  ultimately show ?thesis by simp
next
  case no_return: False
  have "local_op res (gc_thread gc) (generateNextStateForInstruction env F I)"
  proof (cases "i_op I")
    case (Alloca ty)
    then show ?thesis
      by (intro local_cong [OF _ local_allocation])
        (simp add: generateNextStateForInstruction_def generateNextStateForAlloca_def Let_def)
  next
    case (Br cond succs)
    have "local_op res (gc_thread gc) (\<lambda>gc. obind (of_option BadAccess (block_of F (i_id I))) (\<lambda>from.
        generateNextStateForBranch env F from cond succs gc))"
      by (intro local_read_bind local_const local_rules)
    then show ?thesis
      by (rule local_cong [rotated]) (simp add: generateNextStateForInstruction_def Br)
  next
    case (Call c)
    with assms(1,3) have "local_op res (gc_thread gc) (generateNextStateForCall env (f_name F) I c)"
      by (intro local_collapsable_call) (auto simp: isRuntimeCollapsableInstruction_def copies_memory_def)
    then show ?thesis
      by (rule local_cong [rotated]) (simp add: generateNextStateForInstruction_def Call)
  next
    case (Load v a)
    with assms show ?thesis by (simp add: isRuntimeCollapsableInstruction_def nonatomic_collapsable_def)
  next
    case (Store v ty p a)
    with assms show ?thesis by (simp add: isRuntimeCollapsableInstruction_def nonatomic_collapsable_def)
  next
    case (Ret r)
    with no_return show ?thesis by simp
  next
    case (ExtractValue agg aggTy idxs)
    then show ?thesis
      by (intro local_cong [OF _ local_generateNextStateForExtractValue]) (simp add: generateNextStateForInstruction_def)
  qed (use assms(1) in \<open>auto intro!: local_simple [where env = env and fn = "f_name F" and I = I]
      simp: generateNextStateForInstruction_def isRuntimeCollapsableInstruction_def\<close>)
  then show ?thesis
    using t by (simp add: local_op_at)
qed

definition carry_run :: "bool \<Rightarrow> statevector \<Rightarrow> 's run \<Rightarrow> 's run" where
  "carry_run res sv r = (case r of Continue gc \<Rightarrow> Continue (carry res sv gc) | r \<Rightarrow> r)"

lemma local_run_instructions:
  assumes "list_all (isRuntimeCollapsableInstruction (en_gen env)) Is" and "\<not> gn_assumeNonAtomicCollapsable (en_gen env)"
    and "list_all (\<lambda>I. \<not> copies_memory (en_gen env) I) Is"
    and "gc_thread gc < threads gc" and "res \<or> \<not> reports_result env Is gc"
    and "gc_thread gc < length (sv_processes sv)"
  shows "run_instructions env Is (carry res sv gc) = carry_run res sv (run_instructions env Is gc)"
  using assms(1,3-)
proof (induction Is arbitrary: gc)
  case (Cons I Is)
  let ?f = "\<lambda>gc. obind (of_option BadAccess (function_of (gn_module (en_gen env)) (i_id I)))
    (\<lambda>F. generateNextStateForInstruction env F I gc)"
  have "local_at res (generateNextStateForInstruction env F I) gc" for F
    using Cons.prems(1-4) assms(2) by (intro local_collapsable_instruction) auto
  then have f: "local_at res ?f gc"
    by (cases "function_of (gn_module (en_gen env)) (i_id I)") (simp_all add: local_at_def of_option_def)
  have "?f (carry res sv gc) = map_outcome (carry res sv) (?f gc)"
    using local_at_carry [OF f Cons.prems(5)] .
  moreover have "run_instructions env Is (carry res sv gc1) = carry_run res sv (run_instructions env Is gc1)" if "?f gc = Ok gc1" for gc1
    using local_at_keeps(2,3) [OF f that Cons.prems(3)] Cons.prems that by (intro Cons.IH) auto
  ultimately show ?case
    by (cases "?f gc") (simp_all add: carry_run_def)
qed (simp add: carry_run_def)

definition group_reports_result :: "'s env \<Rightarrow> instruction list \<Rightarrow> 's gctx \<Rightarrow> bool" where
  "group_reports_result env Is gc = reports_result env Is
     (set_pc (gc_thread gc) (word_of_nat (location_after (en_gen env) (i_id (last Is)))) gc)"

lemma group_private:
  assumes "\<not> emitter (en_gen env) Is" and "\<not> gn_assumeNonAtomicCollapsable (en_gen env)"
    and "list_all (\<lambda>I. \<not> copies_memory (en_gen env) I) Is"
    and "gc_thread gc < threads gc" and "res \<or> \<not> group_reports_result env Is gc"
    and "gc_thread gc < length (sv_processes sv)"
  shows "generateNextStateForGroup env Is (carry res sv gc) = carry_run res sv (generateNextStateForGroup env Is gc)"
proof -
  let ?pc = "word_of_nat (location_after (en_gen env) (i_id (last Is))) :: u32"
  have pc: "local_op res (gc_thread gc) (\<lambda>gc'. Ok (set_pc (gc_thread gc) ?pc gc'))"
    by (rule local_set_pc)
  have "set_pc (gc_thread gc) ?pc (carry res sv gc) = carry res sv (set_pc (gc_thread gc) ?pc gc)"
    using local_op_carry [OF pc refl assms(4,6)] by simp
  moreover have "list_all (isRuntimeCollapsableInstruction (en_gen env)) Is"
    using assms(1) by (simp add: emitter_def list_all_iff list_ex_iff)
  ultimately show ?thesis
    using local_run_instructions [of env Is "set_pc (gc_thread gc) ?pc gc" res sv] assms(2-6)
    by (simp add: generateNextStateForGroup_def group_reports_result_def set_pc_def carry_run_def)
qed

lemma group_private_frame:
  assumes "\<not> emitter (en_gen env) Is" and "\<not> gn_assumeNonAtomicCollapsable (en_gen env)"
    and "list_all (\<lambda>I. \<not> copies_memory (en_gen env) I) Is"
    and "gc_thread gc < threads gc" and "res \<or> \<not> group_reports_result env Is gc"
    and "generateNextStateForGroup env Is gc = Continue gc'"
  shows "gc' = carry res (gc_svout gc) gc'"
  using group_private [OF assms(1-5,4)] assms(6) by (simp add: carry_run_def)

text \<open>
  C4: what a transition group without a visible instruction does depends only on what its process has for itself
  and on the stored vectors.  Carried into any other state vector, with other processes, another status, another
  list of thread results and other memories, it gives the same result carried there: the same registers, stack,
  program counter and stored vectors.  In particular it changes nothing else in its own state, the list of results
  included.  This holds unless the group copies memory with \<open>llvm.memcpy\<close>, ordinary loads and stores are assumed to
  be collapsable, or the group ends its thread with a result: that \<open>ret\<close> is not visible either, and it adds an entry
  to the list of results, which is shared.
\<close>

theorem collapsed_group_private:
  assumes "\<not> emitter (en_gen env) Is" and "\<not> gn_assumeNonAtomicCollapsable (en_gen env)"
    and "list_all (\<lambda>I. \<not> copies_memory (en_gen env) I) Is"
    and "gc_thread gc < threads gc" and "\<not> group_reports_result env Is gc"
    and "gc_thread gc < length (sv_processes sv)"
  shows "generateNextStateForGroup env Is (carry False sv gc)
      = carry_run False sv (generateNextStateForGroup env Is gc)
    \<and> (\<forall>gc'. generateNextStateForGroup env Is gc = Continue gc' \<longrightarrow> gc' = carry False (gc_svout gc) gc')"
  using group_private [OF assms(1-4) _ assms(6)] group_private_frame [OF assms(1-4)] assms(5) by blast

section \<open>Steps\<close>

text \<open>
  A run of groups without visible instruction, which the process could make in any other surroundings, with the same
  result for itself.
\<close>

definition private_run :: "'s env \<Rightarrow> bool \<Rightarrow> 's gctx \<Rightarrow> 's gctx \<Rightarrow> bool" where
  "private_run env e gc gc' \<longleftrightarrow> gc_thread gc' = gc_thread gc \<and> gc' = carry True (gc_svout gc) gc'
     \<and> (\<forall>sv. gc_thread gc < length (sv_processes sv) \<longrightarrow> group_run env e (carry True sv gc) e (carry True sv gc'))"

lemma private_run_refl [simp]: "private_run env e gc gc"
  by (simp add: private_run_def group_run.here)

lemma carry_carry: "gc_thread gc1 = gc_thread gc \<Longrightarrow> carry True (gc_svout (carry True sv gc1)) gc = carry True sv gc"
  by (cases "gc_thread gc < length (sv_processes sv)") (simp_all add: carry_def list_update_beyond)

lemma pc_of_carry [simp]: "gc_thread gc < length (sv_processes sv) \<Longrightarrow> pc_of (carry True sv gc) = pc_of gc"
  by (simp add: pc_of_def)

lemma private_run_group:
  assumes "pc_of gc \<noteq> 0" and "group_at (en_gen env) (pc_of gc) = Some Is" and "\<not> emitter (en_gen env) Is"
    and "\<not> gn_assumeNonAtomicCollapsable (en_gen env)" and "list_all (\<lambda>I. \<not> copies_memory (en_gen env) I) Is"
    and "gc_thread gc < threads gc" and run: "generateNextStateForGroup env Is gc = Continue gc1"
    and "gc_thread gc1 = gc_thread gc" and rest: "private_run env e gc1 gc'"
  shows "private_run env e gc gc'"
  unfolding private_run_def
proof (intro conjI allI impI)
  have gc1: "gc1 = carry True (gc_svout gc) gc1"
    using group_private_frame [OF assms(3-6) _ run] by simp
  show "gc_thread gc' = gc_thread gc"
    using rest assms(8) by (simp add: private_run_def)
  then show "gc' = carry True (gc_svout gc) gc'"
    using rest carry_carry [of gc1 gc' "gc_svout gc"] gc1 assms(8) by (simp add: private_run_def)
  show "group_run env e (carry True sv gc) e (carry True sv gc')" if sv: "gc_thread gc < length (sv_processes sv)" for sv
  proof (rule group_run.group)
    show "generateNextStateForGroup env Is (carry True sv gc) = Continue (carry True sv gc1)"
      using group_private [OF assms(3-6) _ sv] run by (simp add: carry_run_def)
    show "group_run env (e \<or> emitter (en_gen env) Is) (carry True sv gc1) e (carry True sv gc')"
      using rest sv assms(3,8) by (simp add: private_run_def)
  qed (use assms(1-3) sv in simp_all)
qed

text \<open>One visible group.\<close>

definition visible_group :: "'s env \<Rightarrow> 's gctx \<Rightarrow> 's gctx \<Rightarrow> bool" where
  "visible_group env gc gc' \<longleftrightarrow> (\<exists>Is. group_at (en_gen env) (pc_of gc) = Some Is \<and> emitter (en_gen env) Is
     \<and> generateNextStateForGroup env Is gc = Continue gc')"

abbreviation no_copies :: "'s env \<Rightarrow> bool" where
  "no_copies env \<equiv> \<forall>pc Is. group_at (en_gen env) pc = Some Is \<longrightarrow> list_all (\<lambda>I. \<not> copies_memory (en_gen env) I) Is"

lemma group_run_parts:
  assumes "group_run env e gc e' gc'" and "\<not> gn_assumeNonAtomicCollapsable (en_gen env)" and "no_copies env"
    and "gc_thread gc < threads gc"
  shows "e' = e \<and> private_run env e gc gc' \<or> \<not> e \<and> e'
    \<and> (\<exists>gcA gcB. private_run env False gc gcA \<and> visible_group env gcA gcB \<and> private_run env True gcB gc')"
  using assms(1,4)
proof (induction rule: group_run.induct)
  case (group gc Is e gc1 e' gc')
  have "touches UNIV gc gc1"
    using touches_generateNextStateForGroup [OF group(4)] by simp
  then have gc1: "gc_thread gc1 = gc_thread gc" "gc_thread gc1 < threads gc1"
    using group.prems by (simp_all add: touches_def)
  note IH = group.IH [OF gc1(2)]
  show ?case
  proof (cases "emitter (en_gen env) Is")
    case True
    with group(2-4) IH show ?thesis
      by (auto simp: visible_group_def intro: exI [of _ gc])
  next
    case False
    have "private_run env e0 gc1 gc2 \<Longrightarrow> private_run env e0 gc gc2" for e0 gc2
      using private_run_group [OF group(1,2) False assms(2) _ group.prems group(4) gc1(1)] assms(3) group(2) by blast
    with IH False show ?thesis by auto
  qed
qed simp

text \<open>
  C5: a step of a process has at most one visible group.  What the process does before it and after it, it does
  without reading or changing anything of the others, and would do in any other surroundings with the same stored
  vectors.  The list of thread results, to which a process that ends adds its own, is counted as its own.
\<close>

theorem step_has_one_visible_group:
  assumes "generateStepProcess env t src s = Some (Continue gc')" and "t < length (sv_processes src)"
    and "\<not> gn_assumeNonAtomicCollapsable (en_gen env)" and "no_copies env"
  shows "let gc = generateContextAndSetupCode t src s in private_run env False gc gc'
    \<or> (\<exists>gcA gcB. private_run env False gc gcA \<and> visible_group env gcA gcB \<and> private_run env True gcB gc')"
proof -
  let ?gc = "generateContextAndSetupCode t src s"
  obtain e' where "group_run env False ?gc e' gc'"
    using assms(1) step_loop_group_run by (fastforce simp: generateStepProcess_def Let_def split: if_splits)
  then show ?thesis
    using group_run_parts [OF _ assms(3,4)] assms(2) by (fastforce simp: generateContextAndSetupCode_def Let_def)
qed

section \<open>Copies of memory\<close>

text \<open>
  A call of \<open>llvm.memcpy\<close> is not visible either, but it copies between memories that other processes can reach
  through pointers: a step does not stop before it, so that other processes never run between what comes before and it.
\<close>

lemma memcpy_not_visible:
  assumes "i_op I = Call c" and "c_asm c = None" and "getCalledFunction (gn_module (en_gen env)) c = Some F"
    and "f_decl F" and "isIntrinsic F" and "take 11 (f_name F) = ''llvm.memcpy''"
  shows "\<not> emitter (en_gen env) [I]"
    and "generateNextStateForInstruction env G I gc = obind (arg_pointer env gc c 0) (\<lambda>dst.
      obind (arg_pointer env gc c 1) (\<lambda>src. obind (arg_size env gc c 2) (\<lambda>len. copy_memory env dst src len gc)))"
  using assms
  by (simp_all add: emitter_def isRuntimeCollapsableInstruction_def isRuntimeCollapsableCall_def
      generateNextStateForInstruction_def generateNextStateForCall_def call_declaration_def call_intrinsic_def)

end
