(* ===== verification/Handler_Laws.thy ===== *)
theory Handler_Laws
  imports Dispatch
begin

text \<open>
  Properties of the instruction handlers: the atomic instructions, the padding of
  stores, branches and the arguments of a call.
\<close>

section \<open>Memory and registers are independent\<close>

lemma store_reg_Ok:
  assumes "store_reg off d gc = Ok gc'"
  shows "gc' = upd_proc (gc_thread gc) (\<lambda>p. p\<lparr>p_r := put_at off d (p_r p)\<rparr>) gc"
    and "gc_thread gc < threads gc"
    and "off + length d \<le> length (p_r (sv_processes (gc_svout gc) ! gc_thread gc))"
  using assms by (auto simp: store_reg_def store_reg_of_def outcome_simps split: if_splits)

lemma mem_upd_regs: "mem (upd_proc t (\<lambda>p. p\<lparr>p_r := f p\<rparr>) gc) u = mem gc u"
  by (cases "t < threads gc"; cases "u = t") (simp_all add: list_update_beyond)

lemma generateAccessToMemory_store_reg:
  assumes "store_reg off d gc = Ok gc'"
  shows "generateAccessToMemory env gc' p n = generateAccessToMemory env gc p n"
proof -
  note e = store_reg_Ok(1) [OF assms]
  have "mem gc' u = mem gc u" for u
    unfolding e by (rule mem_upd_regs)
  moreover have "threads gc' = threads gc" "gc_store gc' = gc_store gc"
    by (simp_all add: e)
  ultimately show ?thesis
    by (simp add: generateAccessToMemory_def proc_at_def)
qed

lemma generateLoad_store_reg:
  "store_reg off d gc = Ok gc' \<Longrightarrow> generateLoad env gc' p t = generateLoad env gc p t"
  by (simp add: generateLoad_def generateAccessToMemory_store_reg)

text \<open>A store changes no register.\<close>

abbreviation regs :: "'s gctx \<Rightarrow> nat \<Rightarrow> bytes" where
  "regs gc t \<equiv> p_r (sv_processes (gc_svout gc) ! t)"

lemma generateStore_regs:
  assumes "generateStore env p v t gc = Ok gc'"
  shows "regs gc' u = regs gc u" and "threads gc' = threads gc" and "gc_thread gc' = gc_thread gc"
proof -
  obtain i s where "gc' = upd_proc (owner p) (\<lambda>q. q\<lparr>p_m := i\<rparr>) (gc\<lparr>gc_store := s\<rparr>)" "owner p < threads gc"
    using assms by (auto simp: generateStore_def generateStoreBytes_def Let_def outcome_simps)
  then show "regs gc' u = regs gc u" and "threads gc' = threads gc" and "gc_thread gc' = gc_thread gc"
    by (cases "u = owner p"; simp)+
qed

lemma generateStore_succeeds:
  assumes "owner p < threads gc"
  obtains gc' where "generateStore env p v t gc = Ok gc'"
  using assms by (simp add: generateStore_def generateStoreBytes_def proc_at_def Let_def)

section \<open>Atomic read-modify-write\<close>

text \<open>
  C29: an \<open>atomicrmw\<close> instruction leaves the new value in the memory cell, and changes no
  register of any process: the old value, which is the result of the instruction, is not
  stored in its register.
\<close>

theorem atomic_rmw_effect:
  assumes "delta_store (en_api env) sinv room content"
    and "sinv (gc_store gc)" and "room (Suc k) (gc_store gc)"
    and "i_op I = AtomicRMW op ptr v t" and "vGetMemOffset env gc ptr = Ok p"
    and "owner p < threads gc" and "content (gc_store gc) (mem gc (owner p)) = Some x"
    and "generateLoad env gc p t = Ok old" and "vMap env gc v = Ok a"
    and "rmw_value env op t old a = Ok new" and "length new = dl_store (en_dl env) t"
    and "dl_store (en_dl env) t \<le> aligned env t"
  shows "\<exists>gc'. generateNextStateForInstruction env F I gc = Ok gc'
    \<and> generateLoad env gc' p t = Ok new \<and> (\<forall>u. regs gc' u = regs gc u)"
proof -
  obtain gc' where s: "generateStoreBytes env p (zpad (aligned env t) new) gc = Ok gc'"
    "generateAccessToMemory env gc' p (length (zpad (aligned env t) new)) = Ok (zpad (aligned env t) new)"
    using delta_store.access_after_store [OF assms(1) refl assms(2,3,6,7)] by metis
  then have st: "generateStore env p new t gc = Ok gc'"
    by (simp add: generateStore_def)
  have "length (zpad (aligned env t) new) = aligned env t"
    using assms(11,12) by simp
  with s(2) have "generateLoad env gc' p t = Ok (take (length new) (zpad (aligned env t) new))"
    by (simp only: generateLoad_def obind.simps assms(11))
  then have "generateLoad env gc' p t = Ok new"
    by (simp only: aligned_take_zpad)
  moreover have "generateNextStateForInstruction env F I gc = Ok gc'"
    using assms(4,5,8-10) st
    by (simp add: generateNextStateForInstruction_def generateNextStateForAtomicRMW_def)
  ultimately show ?thesis
    using generateStore_regs(1) [OF st] by auto
qed

text \<open>
  The value computed for \<open>nand\<close> is not the complement of the conjunction, which is what
  the instruction and the comment in the code say; it is the complement of the sum.
\<close>

lemma rmw_nand_is_wrong:
  "rmw_value env RMW_Nand (IntTy 8) [1] [1] = Ok [0xFD] \<and> map2 (\<lambda>a b. not (and a b)) [1] [1 :: byte] = [0xFE]"
  by (simp add: rmw_value_def add_bytes_def)

text \<open>
  The other integer operations of \<open>atomicrmw\<close> compute what the instruction means: the sum
  and the difference modulo the width of the operand, and the larger or smaller operand in
  the signed and the unsigned order.
\<close>

lemma rmw_value_numbers:
  assumes "length a = n" and "length b = n"
  shows "(\<exists>r. rmw_value env RMW_Add t a b = Ok r \<and> length r = n \<and> le_nat r = (le_nat a + le_nat b) mod 256 ^ n)
    \<and> (\<exists>r. rmw_value env RMW_Sub t a b = Ok r \<and> length r = n
        \<and> int (le_nat r) = (int (le_nat a) - int (le_nat b)) mod 256 ^ n)
    \<and> (\<exists>r. rmw_value env RMW_Max t a b = Ok r \<and> sint_bytes r = max (sint_bytes a) (sint_bytes b))
    \<and> (\<exists>r. rmw_value env RMW_Min t a b = Ok r \<and> sint_bytes r = min (sint_bytes a) (sint_bytes b))
    \<and> (\<exists>r. rmw_value env RMW_UMax t a b = Ok r \<and> le_nat r = max (le_nat a) (le_nat b))
    \<and> (\<exists>r. rmw_value env RMW_UMin t a b = Ok r \<and> le_nat r = min (le_nat a) (le_nat b))"
proof -
  have "int ((le_nat a + 256 ^ n - le_nat b) mod 256 ^ n) = (int (le_nat a) - int (le_nat b)) mod 256 ^ n"
  proof -
    have "le_nat b \<le> 256 ^ n"
      using le_nat_bound [of b] assms(2) by simp
    then have "int (le_nat a + 256 ^ n - le_nat b) = (int (le_nat a) - int (le_nat b)) + 256 ^ n"
      by (simp add: of_nat_diff)
    then show ?thesis
      by (simp add: zmod_int)
  qed
  then show ?thesis
    using assms by (auto simp: rmw_value_def add_bytes_def sub_bytes_def le_nat_nat_le max_def min_def)
qed

text \<open>
  A store writes whole slots: behind the value it puts zeros up to the aligned size of the
  type, so equal values always leave equal bytes.
\<close>

lemma store_fills_slots:
  assumes "delta_store (en_api env) sinv room content"
    and "sinv (gc_store gc)" and "room (Suc k) (gc_store gc)" and "owner p < threads gc"
    and "content (gc_store gc) (mem gc (owner p)) = Some x"
    and "length v = dl_store (en_dl env) t" and "dl_store (en_dl env) t \<le> aligned env t"
  shows "\<exists>gc'. generateStore env p v t gc = Ok gc' \<and> generateAccessToMemory env gc' p (aligned env t)
    = Ok (v @ replicate (aligned env t - dl_store (en_dl env) t) 0)"
proof -
  obtain gc' where s: "generateStoreBytes env p (zpad (aligned env t) v) gc = Ok gc'"
    "generateAccessToMemory env gc' p (length (zpad (aligned env t) v)) = Ok (zpad (aligned env t) v)"
    using delta_store.access_after_store [OF assms(1) refl assms(2-5)] by metis
  moreover have "length (zpad (aligned env t) v) = aligned env t"
    using assms(6,7) by simp
  ultimately show ?thesis
    by (simp add: generateStore_def zpad_def assms(6))
qed

section \<open>Compare and exchange\<close>

text \<open>A byte stored behind a value in the register area, and a typed store as the next load sees it.\<close>

lemma store_reg_behind:
  assumes "store_reg fl [b] gc = Ok gc'" and "off + n \<le> fl"
  shows "bytes_at off n (regs gc' (gc_thread gc)) = bytes_at off n (regs gc (gc_thread gc))"
    and "bytes_at fl 1 (regs gc' (gc_thread gc)) = [b]"
proof -
  note r = store_reg_Ok [OF assms(1)]
  show "bytes_at off n (regs gc' (gc_thread gc)) = bytes_at off n (regs gc (gc_thread gc))"
    using r assms(2) by (simp add: bytes_at_put_at_disjoint)
  show "bytes_at fl 1 (regs gc' (gc_thread gc)) = [b]"
    using r bytes_at_put_at_same [of fl "regs gc (gc_thread gc)" "[b]"] by simp
qed

lemma generateLoad_generateStore:
  assumes "delta_store (en_api env) sinv room content" and "sinv (gc_store gc)" and "room (Suc k) (gc_store gc)"
    and "content (gc_store gc) (mem gc (owner p)) = Some x"
    and "length v = dl_store (en_dl env) t" and "dl_store (en_dl env) t \<le> aligned env t"
    and "generateStore env p v t gc = Ok gc'"
  shows "generateLoad env gc' p t = Ok v"
proof -
  have "owner p < threads gc"
    using assms(7) by (auto simp: generateStore_def generateStoreBytes_def outcome_simps)
  then obtain g where s: "generateStoreBytes env p (zpad (aligned env t) v) gc = Ok g"
    "generateAccessToMemory env g p (length (zpad (aligned env t) v)) = Ok (zpad (aligned env t) v)"
    using delta_store.access_after_store [OF assms(1) refl, of gc k p x] assms(2-4) by metis
  moreover have "length (zpad (aligned env t) v) = aligned env t"
    using assms(5,6) by simp
  ultimately have "generateLoad env g p t = Ok (take (length v) (zpad (aligned env t) v))"
    by (simp only: generateLoad_def obind.simps assms(5))
  with s(1) assms(7) show ?thesis
    by (simp add: generateStore_def aligned_take_zpad)
qed

text \<open>
  C27: a \<open>cmpxchg\<close> instruction that runs puts the loaded value and the success flag into its
  result register, the flag being 1 exactly when the loaded value is the expected one; then
  the cell holds the desired value, and otherwise it keeps its value.
\<close>

theorem cmpxchg_effect:
  assumes "delta_store (en_api env) sinv room content"
    and "sinv (gc_store gc)" and "room (Suc k) (gc_store gc)"
    and "i_op I = AtomicCmpXchg ptr cmp new t" and "vGetMemOffset env gc ptr = Ok p"
    and "content (gc_store gc) (mem gc (owner p)) = Some x"
    and "vMap env gc cmp = Ok expected" and "vMap env gc new = Ok desired"
    and "generateLoad env gc p t = Ok old" and "vReg env (InstV (f_name F) (i_id I)) = Ok (off, rt)"
    and "length desired = dl_store (en_dl env) t" and "dl_store (en_dl env) t \<le> aligned env t"
    and "length old \<le> dl_elem (en_dl env) [t, IntTy 1] 1"
    and "generateNextStateForInstruction env F I gc = Ok gc'"
  shows "bytes_at off (length old) (regs gc' (gc_thread gc)) = old
    \<and> bytes_at (off + dl_elem (en_dl env) [t, IntTy 1] 1) 1 (regs gc' (gc_thread gc))
        = [if old = expected then 1 else 0]
    \<and> generateLoad env gc' p t = Ok (if old = expected then desired else old)"
proof -
  let ?flag = "off + dl_elem (en_dl env) [t, IntTy 1] 1"
  obtain gc1 where 1: "store_reg off old gc = Ok gc1"
    and rest: "(if old = expected then obind (generateStore env p desired t gc1) (store_reg ?flag [1])
      else store_reg ?flag [0] gc1) = Ok gc'"
    using assms(4,5,7-10,14)
    by (auto simp: generateNextStateForInstruction_def generateNextStateForAtomicCmpXchg_def Let_def outcome_simps
        simp del: One_nat_def)
  note r1 = store_reg_Ok [OF 1]
  have old1: "bytes_at off (length old) (regs gc1 (gc_thread gc)) = old" "gc_thread gc1 = gc_thread gc"
    "mem gc1 (owner p) = mem gc (owner p)" "gc_store gc1 = gc_store gc"
    using r1(2,3) mem_upd_regs by (simp_all add: r1(1) bytes_at_put_at_same)
  have behind: "off + length old \<le> ?flag"
    using assms(13) by simp
  show ?thesis
  proof (cases "old = expected")
    case True
    then obtain gc2 where 2: "generateStore env p desired t gc1 = Ok gc2" "store_reg ?flag [1] gc2 = Ok gc'"
      using rest by (auto simp: outcome_simps)
    have "generateLoad env gc2 p t = Ok desired"
      using generateLoad_generateStore [OF assms(1) _ _ _ assms(11,12) 2(1)] assms(2,3,6) old1(3,4) by metis
    then have "generateLoad env gc' p t = Ok desired"
      by (simp add: generateLoad_store_reg [OF 2(2)])
    with store_reg_behind [OF 2(2) behind] generateStore_regs [OF 2(1)] old1(1,2) True show ?thesis
      by simp
  next
    case False
    then have 2: "store_reg ?flag [0] gc1 = Ok gc'"
      using rest by simp
    have "generateLoad env gc' p t = Ok old"
      using generateLoad_store_reg [OF 2] generateLoad_store_reg [OF 1] assms(9) by simp
    with store_reg_behind [OF 2 behind] old1(1,2) False show ?thesis by simp
  qed
qed

section \<open>Branches\<close>

lemma store_result_pc:
  assumes "store_result env I v gc = Ok gc'"
  shows "p_pc (sv_processes (gc_svout gc') ! u) = p_pc (sv_processes (gc_svout gc) ! u)"
    and "gc_thread gc' = gc_thread gc" and "threads gc' = threads gc"
proof -
  obtain off where "store_reg off v gc = Ok gc'"
    using assms by (auto simp: store_result_def outcome_simps)
  note r = store_reg_Ok [OF this]
  show "p_pc (sv_processes (gc_svout gc') ! u) = p_pc (sv_processes (gc_svout gc) ! u)"
    and "gc_thread gc' = gc_thread gc" and "threads gc' = threads gc"
    unfolding r(1) using r(2) by (cases "u = gc_thread gc"; simp)+
qed

lemma write_phis_pc:
  "write_phis env fn D gc = Ok gc' \<Longrightarrow>
     p_pc (sv_processes (gc_svout gc') ! u) = p_pc (sv_processes (gc_svout gc) ! u)"
proof (induction D arbitrary: gc)
  case Nil
  then show ?case by simp
next
  case (Cons it D)
  obtain n v where it: "it = (n, v)" by (cases it)
  from Cons.prems obtain x gc1 where 1: "store_result env (InstV fn n) x gc = Ok gc1"
    and rest: "write_phis env fn D gc1 = Ok gc'"
    by (auto simp: outcome_simps it)
  show ?case
    using Cons.IH [OF rest] store_result_pc(1) [OF 1] by simp
qed

lemma block_location_Ok:
  assumes "block_location g F b = Ok loc"
  shows "\<exists>i is. f_blocks F ! b = i # is \<and> loc = gn_programLocations g (i_id i) \<and> loc \<noteq> 0"
  using assms by (auto simp: block_location_def Let_def split: if_splits list.splits)

text \<open>
  C28: a conditional branch that runs sets the program counter of the running thread to the
  location of the first instruction of the successor selected by the condition, which the
  generator has checked to be a proper location.
\<close>

theorem branch_takes_successor:
  assumes "generateNextStateForBranch env F from (Some c) [s0, s1] gc = Ok gc'"
    and "vMap env gc c = Ok cv" and "gc_thread gc < threads gc"
    and "s = (if le_nat cv mod 2 = 1 then s0 else s1)"
  shows "\<exists>i is. f_blocks F ! s = i # is \<and> gn_programLocations (en_gen env) (i_id i) \<noteq> 0
    \<and> p_pc (sv_processes (gc_svout gc') ! gc_thread gc) = word_of_nat (gn_programLocations (en_gen env) (i_id i))"
proof -
  obtain l0 l1 where l: "block_location (en_gen env) F s0 = Ok l0" "block_location (en_gen env) F s1 = Ok l1"
    and p: "generateStoresForPHINodes env (f_name F) from (f_blocks F ! s)
      (set_pc (gc_thread gc) (word_of_nat (if le_nat cv mod 2 = 1 then l0 else l1)) gc) = Ok gc'"
    using assms(1,2) unfolding assms(4)
    by (auto simp: generateNextStateForBranch_def Let_def outcome_simps)
  have pc: "p_pc (sv_processes (gc_svout gc') ! gc_thread gc) = word_of_nat (if le_nat cv mod 2 = 1 then l0 else l1)"
    using p assms(3) write_phis_pc [where u = "gc_thread gc" and gc' = gc']
    by (auto simp: generateStoresForPHINodes_def outcome_simps set_pc_def)
  show ?thesis
    using block_location_Ok [OF l(1)] block_location_Ok [OF l(2)] pc unfolding assms(4)
    by (cases "le_nat cv mod 2 = 1") auto
qed

section \<open>Arguments of a call\<close>

lemma vMap_same_regs:
  assumes "register_of env v = Some (F, k)" and "regs gc' (gc_thread gc) = regs gc (gc_thread gc)"
    and "gc_thread gc' = gc_thread gc" and "threads gc' = threads gc"
  shows "vMap env gc' v = vMap env gc v"
  using assms(2-4) by (simp add: vReg_register_of(2) [OF assms(1)] load_reg_def proc_at_def)

lemma saveCaller_regs:
  assumes "saveCaller env cs t gc = Ok gc'"
  shows "regs gc' u = regs gc u" and "gc_thread gc' = gc_thread gc" and "threads gc' = threads gc"
proof -
  have "\<exists>x s. gc' = upd_proc t (\<lambda>p. p\<lparr>p_stk := x\<rparr>) (gc\<lparr>gc_store := s\<rparr>) \<and> t < threads gc"
  proof (cases cs)
    case None
    with assms have "gc' = upd_proc t (\<lambda>p. p\<lparr>p_stk := getEmptyStack\<rparr>) (gc\<lparr>gc_store := gc_store gc\<rparr>) \<and> t < threads gc"
      by (simp add: saveCaller_def outcome_simps)
    then show ?thesis by blast
  next
    case (Some c)
    with assms show ?thesis
      by (cases c) (simp add: saveCaller_def uploadBytes_def outcome_simps Let_def, blast)
  qed
  then show "regs gc' u = regs gc u" and "gc_thread gc' = gc_thread gc" and "threads gc' = threads gc"
    by (elim exE conjE; cases "u = t"; simp)+
qed

text \<open>
  C31: the arguments of a call are not read before the parameters are written: a function that
  calls itself with its first two arguments exchanged starts with the value of the second
  argument in both parameters.
\<close>

theorem exchanged_arguments_clobbered:
  assumes "en_dl env = dmc_layout" and "regs_fit env gc"
    and "register_of env (ArgV (f_name F) 0) = Some (f_name F, 0)"
    and "register_of env (ArgV (f_name F) 1) = Some (f_name F, 1)"
    and "gn_registerTypes (en_gen env) (f_name F) = t # t # ts"
    and "vMap env gc (ArgV (f_name F) 0) = Ok a" and "vMap env gc (ArgV (f_name F) 1) = Ok b"
    and "length b = dmc_store t"
    and "pushStackFrame env F [ArgV (f_name F) 1, ArgV (f_name F) 0] cs (gc_thread gc) gc = Ok gc'"
  shows "vMap env gc' (ArgV (f_name F) 0) = Ok b \<and> vMap env gc' (ArgV (f_name F) 1) = Ok b"
proof -
  let ?A0 = "ArgV (f_name F) 0" and ?A1 = "ArgV (f_name F) 1" and ?t = "gc_thread gc"
  let ?ts = "gn_registerTypes (en_gen env) (f_name F)"
  obtain off0 off1 where v: "vReg env ?A0 = Ok (off0, t)" "vReg env ?A1 = Ok (off1, t)"
    using vReg_register_of(1) [OF assms(3)] vReg_register_of(1) [OF assms(4)] assms(5) by simp
  obtain gc0 gc2 loc where s: "saveCaller env cs ?t gc = Ok gc0"
    and args: "store_args env ?t (f_name F) 0 [?A1, ?A0] gc0 = Ok gc2"
    and pc: "gc' = set_pc ?t (word_of_nat loc) gc2"
    using assms(9) by (auto simp: pushStackFrame_def outcome_simps split: if_splits)
  note save = saveCaller_regs [OF s]
  have fit: "regs_fit env gc0"
    using assms(2) save by (simp add: regs_fit_def)
  have b0: "vMap env gc0 ?A1 = Ok b"
    using vMap_same_regs [OF assms(4) save(1-3)] assms(7) by simp
  have len: "length b = dl_store dmc_layout (?ts ! 0)" "length b = dl_store dmc_layout (?ts ! 1)"
    using assms(5,8) by (simp_all add: dmc_layout_def)
  have lt: "0 < length ?ts" "1 < length ?ts"
    using assms(5) by simp_all
  obtain gc1 where 1: "store_reg off0 b gc0 = Ok gc1" "vMap env gc1 ?A0 = Ok b" "regs_fit env gc1"
    "vMap env gc1 ?A1 = Ok b" "gc_thread gc1 = ?t"
  proof (rule dmc.register_write_read [OF assms(1) fit assms(3) lt(1) len(1) v(1)], goal_cases)
    case (1 g)
    with that [of g] show ?case
      using b0 assms(4) lt(2) save(2) 1(6) [OF assms(4) lt(2)] by simp
  qed
  obtain gc3 where 3: "store_reg off1 b gc1 = Ok gc3" "vMap env gc3 ?A1 = Ok b" "vMap env gc3 ?A0 = Ok b"
    "gc_thread gc3 = ?t"
  proof (rule dmc.register_write_read [OF assms(1) 1(3) assms(4) lt(2) len(2) v(2)], goal_cases)
    case (1 g)
    with that [of g] show ?case
      using \<open>vMap env gc1 ?A0 = Ok b\<close> \<open>gc_thread gc1 = ?t\<close> 1(6) [OF assms(3) lt(1)] by simp
  qed
  have "gc2 = gc3"
    using args b0 v 1 3(1) save(2) by (simp add: store_reg_def)
  then have "regs gc' ?t = regs gc3 ?t" "gc_thread gc' = ?t" "threads gc' = threads gc3"
    using 3(4) pc by (cases "?t < threads gc3"; simp add: set_pc_def list_update_beyond)+
  then show ?thesis
    using vMap_same_regs [OF assms(3), of gc' gc3] vMap_same_regs [OF assms(4), of gc' gc3] 3 by simp
qed

end
