(* ===== verification/Thread_Laws.thy ===== *)
theory Thread_Laws
  imports Handler_Laws
begin

text \<open>
  The life of a thread from \<open>pthread_create\<close> to \<open>pthread_join\<close>: the slot it gets, the entry it
  leaves in the list of thread results when it ends, and the join that reads the entry after
  other threads have ended too.
\<close>

section \<open>Creation\<close>

lemma pushStackFrame_new_thread:
  assumes "pushStackFrame env F args None t gc = Ok gc'"
  obtains r loc where "entry_location (en_gen env) F = Some loc" and "loc \<noteq> 0" and "t < threads gc"
    and "length r = length (regs gc t)"
    and "gc' = upd_proc t (\<lambda>p. p\<lparr>p_stk := getEmptyStack, p_r := r, p_pc := word_of_nat loc\<rparr>) gc"
proof (rule pushStackFrame_props [OF assms], goal_cases)
  case (1 gc1 r loc)
  then have "gc1 = upd_proc t (\<lambda>p. p\<lparr>p_stk := getEmptyStack\<rparr>) gc"
    by (simp add: saveCaller_def outcome_simps)
  with 1 that [of loc r] show ?case by simp
qed

lemma generateStore_processes:
  assumes "generateStore env p v t gc = Ok gc'"
  shows "\<exists>i. sv_processes (gc_svout gc')
    = (sv_processes (gc_svout gc))[owner p := (sv_processes (gc_svout gc) ! owner p)\<lparr>p_m := i\<rparr>]"
    and "sv_threadsStarted (gc_svout gc') = sv_threadsStarted (gc_svout gc)"
    and "sv_tres (gc_svout gc') = sv_tres (gc_svout gc)" and "gc_src gc' = gc_src gc"
  using assms by (auto simp: generateStore_def generateStoreBytes_def Let_def outcome_simps)

lemma create_in_slot_find:
  assumes "\<forall>t \<in> set slots. t < threads gc"
  shows "create_in_slot env I c slots gc =
    (case find (\<lambda>t. p_pc (sv_processes (gc_svout gc) ! t) = 0) slots of
       None \<Rightarrow> Ok (set_pc (gc_thread gc) (word_of_nat (gn_programLocations (en_gen env) I)) gc)
     | Some t \<Rightarrow> obind (start_thread env c t gc) (register_thread env c t))"
  using assms by (induction slots) (auto simp: proc_at_def)

text \<open>The value of an operand depends on the registers of the running thread only.\<close>

lemma vMap_own_regs:
  assumes "regs gc' (gc_thread gc) = regs gc (gc_thread gc)" and "gc_thread gc' = gc_thread gc"
    and "threads gc' = threads gc"
  shows "vMap env gc' v = vMap env gc v"
proof -
  have same: "load_reg gc' off n = load_reg gc off n" for off n
    using assms by (simp add: load_reg_def proc_at_def)
  show ?thesis
  proof (induction v)
    case (ExprV op vs ty)
    then have "omap (vMap env gc') vs = omap (vMap env gc) vs"
      by (rule omap_eq)
    then show ?case by simp
  qed (simp_all add: same case_prod_unfold)
qed

lemma pthread_create_free:
  assumes "call_pthread_create env I c gc = Ok gc'" and "threads gc = MAX_THREADS"
    and "arg c 2 = Ok (FunctionV n)" and "getFunction (gn_module (en_gen env)) n = Some F"
    and "find (\<lambda>t. p_pc (sv_processes (gc_svout gc) ! t) = 0) [0..<MAX_THREADS] = Some t"
    and "p_pc (sv_processes (gc_svout gc) ! gc_thread gc) \<noteq> 0" and "arg_pointer env gc c 0 = Ok pid"
  defines "k \<equiv> sv_threadsStarted (gc_svout gc) + 1"
  obtains loc r gc2 where "entry_location (en_gen env) F = Some loc" and "t < MAX_THREADS"
    and "gc2 = upd_sv (\<lambda>sv. sv\<lparr>sv_threadsStarted := k\<rparr>) (upd_proc t
      (\<lambda>p. p\<lparr>p_stk := getEmptyStack, p_r := r, p_pc := word_of_nat loc, p_tid := k\<rparr>) gc)"
    and "generateStore env pid (bytes_u64 (ucast k)) (IntTy 64) gc2 = Ok gc'"
proof -
  have "obind (start_thread env c t gc) (register_thread env c t) = Ok gc'"
    using assms(1,2,5) create_in_slot_find [of "[0..<MAX_THREADS]" gc env I c]
    by (simp add: call_pthread_create_def)
  then obtain gc1 a where p: "pushStackFrame env F [a] None t gc = Ok gc1"
    and reg: "register_thread env c t gc1 = Ok gc'"
    using assms(3,4) by (auto simp: start_thread_def outcome_simps)
  obtain r loc where push: "entry_location (en_gen env) F = Some loc" "t < threads gc"
    "gc1 = upd_proc t (\<lambda>p. p\<lparr>p_stk := getEmptyStack, p_r := r, p_pc := word_of_nat loc\<rparr>) gc"
    using pushStackFrame_new_thread [OF p] by metis
  let ?gc2 = "upd_sv (\<lambda>sv. sv\<lparr>sv_threadsStarted := k\<rparr>) (upd_proc t (\<lambda>p. p\<lparr>p_tid := k\<rparr>) gc1)"
  have "p_pc (sv_processes (gc_svout gc) ! t) = 0"
    using assms(5) by (auto simp: find_Some_iff)
  then have "t \<noteq> gc_thread gc"
    using assms(6) by auto
  then have "arg_pointer env ?gc2 c 0 = arg_pointer env gc c 0"
    using vMap_own_regs [of ?gc2 gc env] by (cases "arg c 0") (simp_all add: arg_pointer_def vGetMemOffset_def push(3))
  then have st: "generateStore env pid (bytes_u64 (ucast k)) (IntTy 64) ?gc2 = Ok gc'"
    using reg assms(7) by (simp add: register_thread_def Let_def k_def push(3))
  show thesis
    by (rule that [OF push(1) _ _ st]) (use push(2,3) assms(2) in simp_all)
qed

text \<open>
  C26: \<open>pthread_create\<close> of a named function starts the thread in the first slot whose program
  counter is 0: the slot then has the location of the function's first instruction, an empty
  stack and the next thread number, and the count of started threads is one higher.  The
  number is stored through the first argument, after the slot is set up and with the memories
  as they were.  Every other slot is as before, but for the memory of the process that owns
  the place of the number.  When every slot is taken, the only effect is that the program
  counter of the calling thread is set back to the location of the call.
\<close>

theorem pthread_create_slot:
  assumes "call_pthread_create env I c gc = Ok gc'" and "threads gc = MAX_THREADS"
    and "arg c 2 = Ok (FunctionV n)" and "getFunction (gn_module (en_gen env)) n = Some F"
    and "p_pc (sv_processes (gc_svout gc) ! gc_thread gc) \<noteq> 0" and "arg_pointer env gc c 0 = Ok pid"
  shows "let k = sv_threadsStarted (gc_svout gc) + 1 in
    case find (\<lambda>t. p_pc (sv_processes (gc_svout gc) ! t) = 0) [0..<MAX_THREADS] of
      None \<Rightarrow> gc' = set_pc (gc_thread gc) (word_of_nat (gn_programLocations (en_gen env) I)) gc
    | Some t \<Rightarrow> (\<exists>loc. entry_location (en_gen env) F = Some loc
        \<and> p_pc (sv_processes (gc_svout gc') ! t) = word_of_nat loc
        \<and> p_stk (sv_processes (gc_svout gc') ! t) = getEmptyStack
        \<and> p_tid (sv_processes (gc_svout gc') ! t) = k
        \<and> sv_threadsStarted (gc_svout gc') = k
        \<and> (\<exists>gc2. generateStore env pid (bytes_u64 (ucast k)) (IntTy 64) gc2 = Ok gc'
            \<and> gc_store gc2 = gc_store gc \<and> (\<forall>u. mem gc2 u = mem gc u))
        \<and> list_all (\<lambda>u. u = t \<or> (\<exists>m. sv_processes (gc_svout gc') ! u
              = (sv_processes (gc_svout gc) ! u)\<lparr>p_m := m\<rparr>
            \<and> (u \<noteq> owner pid \<longrightarrow> m = mem gc u))) [0..<MAX_THREADS])"
proof (cases "find (\<lambda>t. p_pc (sv_processes (gc_svout gc) ! t) = 0) [0..<MAX_THREADS]")
  case None
  then show ?thesis
    using assms(1,2) create_in_slot_find [of "[0..<MAX_THREADS]" gc env I c]
    by (simp add: call_pthread_create_def Let_def)
next
  case (Some t)
  let ?k = "sv_threadsStarted (gc_svout gc) + 1"
  obtain loc r gc2 where e: "entry_location (en_gen env) F = Some loc" "t < MAX_THREADS"
    and gc2: "gc2 = upd_sv (\<lambda>sv. sv\<lparr>sv_threadsStarted := ?k\<rparr>) (upd_proc t
      (\<lambda>p. p\<lparr>p_stk := getEmptyStack, p_r := r, p_pc := word_of_nat loc, p_tid := ?k\<rparr>) gc)"
    and st: "generateStore env pid (bytes_u64 (ucast ?k)) (IntTy 64) gc2 = Ok gc'"
    using pthread_create_free [OF assms(1-4) Some assms(5,6)] by metis
  obtain i where ps: "sv_processes (gc_svout gc')
      = (sv_processes (gc_svout gc2))[owner pid := (sv_processes (gc_svout gc2) ! owner pid)\<lparr>p_m := i\<rparr>]"
    using generateStore_processes(1) [OF st] by blast
  have "owner pid < threads gc2"
    using st by (auto simp: generateStore_def generateStoreBytes_def outcome_simps)
  then have at: "sv_processes (gc_svout gc') ! u = (sv_processes (gc_svout gc2) ! u)
      \<lparr>p_m := (if u = owner pid then i else mem gc2 u)\<rparr>" for u
    unfolding ps by (cases "u = owner pid") simp_all
  have t: "sv_processes (gc_svout gc2) ! t = (sv_processes (gc_svout gc) ! t)
      \<lparr>p_stk := getEmptyStack, p_r := r, p_pc := word_of_nat loc, p_tid := ?k\<rparr>"
    using e(2) assms(2) by (simp add: gc2)
  have other: "sv_processes (gc_svout gc2) ! u = sv_processes (gc_svout gc) ! u" if "u \<noteq> t" for u
    using that by (simp add: gc2)
  have mems: "gc_store gc2 = gc_store gc" "mem gc2 u = mem gc u" for u
    using t other [of u] by (cases "u = t"; simp add: gc2)+
  have "sv_threadsStarted (gc_svout gc') = ?k"
    using generateStore_processes(2) [OF st] by (simp add: gc2)
  moreover have "list_all (\<lambda>u. u = t \<or> (\<exists>m. sv_processes (gc_svout gc') ! u
              = (sv_processes (gc_svout gc) ! u)\<lparr>p_m := m\<rparr>
            \<and> (u \<noteq> owner pid \<longrightarrow> m = mem gc u))) [0..<MAX_THREADS]"
    unfolding list_all_iff
  proof
    fix u
    show "u = t \<or> (\<exists>m. sv_processes (gc_svout gc') ! u = (sv_processes (gc_svout gc) ! u)\<lparr>p_m := m\<rparr>
        \<and> (u \<noteq> owner pid \<longrightarrow> m = mem gc u))"
    proof (cases "u = t")
      case False
      show ?thesis
        unfolding at [of u] other [OF False] mems(2)
        by (rule disjI2, rule exI [of _ "if u = owner pid then i else mem gc u"]) simp
    qed simp
  qed
  moreover have "p_pc (sv_processes (gc_svout gc') ! t) = word_of_nat loc"
    "p_stk (sv_processes (gc_svout gc') ! t) = getEmptyStack" "p_tid (sv_processes (gc_svout gc') ! t) = ?k"
    by (simp_all add: at t)
  ultimately show ?thesis
    unfolding Let_def Some option.case
    by (intro exI [of _ loc] conjI exI [of _ gc2] e(1) st mems allI)
qed

section \<open>End and join\<close>

text \<open>
  The entry of a thread in the list of results: at 16 times its number, the number and the value as a pointer.
\<close>

abbreviation results :: "'s gctx \<Rightarrow> u64" where
  "results gc \<equiv> sv_tres (gc_svout gc)"

definition has_result :: "('s \<Rightarrow> u64 \<Rightarrow> bytes option) \<Rightarrow> u32 \<Rightarrow> bytes \<Rightarrow> 's gctx \<Rightarrow> bool" where
  "has_result content tid entry gc \<longleftrightarrow> (\<exists>y. content (gc_store gc) (results gc) = Some y
     \<and> unat (tid * 16) + length entry \<le> length y \<and> bytes_at (unat (tid * 16)) (length entry) y = entry)"

context delta_store begin

text \<open>A range of a stored vector that is written by a modification, and one that is not.\<close>

lemma delta_range_same:
  assumes "inv s" and "room (Suc n) s" and "content s i = Some x" and "deltaB api s i off d = (j, s')"
  shows "\<exists>y. content s' j = Some y \<and> off + length d \<le> length y \<and> bytes_at off (length d) y = d"
proof (cases "off + length d \<le> length x")
  case True
  then show ?thesis
    using delta_inside [OF assms(1-3) True] assms(4) by (simp add: byte_simps length_put_at)
next
  case False
  then obtain gap where "length gap = off - length x" "content s' j = Some (take off x @ gap @ d)"
    using delta_extend [OF assms(1-3), of off d] assms(4) by auto
  then show ?thesis
    by (intro exI [of _ "take off x @ gap @ d"]) (simp add: bytes_at_def)
qed

lemma delta_range_other:
  assumes "inv s" and "room (Suc n) s" and "content s i = Some x" and "deltaB api s i off d = (j, s')"
    and "off' + m \<le> off \<or> off + length d \<le> off'" and "off' + m \<le> length x"
  shows "\<exists>y. content s' j = Some y \<and> off' + m \<le> length y \<and> bytes_at off' m y = bytes_at off' m x"
proof (cases "off + length d \<le> length x")
  case True
  then show ?thesis
    using delta_inside [OF assms(1-3) True] assms(4-6) by (simp add: byte_simps length_put_at)
next
  case False
  then obtain gap where gap: "length gap = off - length x" "content s' j = Some (take off x @ gap @ d)"
    using delta_extend [OF assms(1-3), of off d] assms(4) by auto
  have off: "off' + m \<le> off"
    using False assms(5,6) by linarith
  then have "bytes_at off' m (take off x @ gap @ d) = bytes_at off' m x"
    using assms(6) by (simp add: bytes_at_def drop_take) linarith
  with gap off show ?thesis
    by (intro exI [of _ "take off x @ gap @ d"]) simp
qed

end

text \<open>The last return of a thread, written out.\<close>

lemma popStackFrame_last_eq:
  assumes "gc_thread gc < threads gc" and "gc_thread gc < length (sv_processes (gc_src gc))"
    and "p_stk (sv_processes (gc_svout gc) ! gc_thread gc) = getEmptyStack"
    and "popStackFrame env (Some (v, ty)) gc = Ok gc1"
  obtains i s bs where "vMap env gc v = Ok bs"
    and "deltaB (en_api env) (gc_store gc) (results gc)
      (unat (p_tid (sv_processes (gc_src gc) ! gc_thread gc) * 16))
      (bytes_u64 (ucast (p_tid (sv_processes (gc_src gc) ! gc_thread gc))) @ as_voidp ty bs) = (i, s)"
    and "gc1 = upd_sv (\<lambda>sv. sv\<lparr>sv_tres := i\<rparr>) ((upd_proc (gc_thread gc)
      (\<lambda>p. p\<lparr>p_pc := 0, p_r := put_at 0 (replicate (en_regs env) 0) (p_r p)\<rparr>) gc)\<lparr>gc_store := s\<rparr>)"
proof -
  obtain bs where bs: "vMap env gc v = Ok bs"
    using assms(1,4) by (auto simp: popStackFrame_def proc_at_def outcome_simps)
  let ?tid = "p_tid (sv_processes (gc_src gc) ! gc_thread gc)"
  obtain i s where d: "deltaB (en_api env) (gc_store gc) (results gc) (unat (?tid * 16))
      (bytes_u64 (ucast ?tid) @ as_voidp ty bs) = (i, s)"
    by (metis prod.exhaust)
  show thesis
    using assms bs d
    by (intro that [OF bs d]) (simp add: popStackFrame_def storeThreadResult_def deltaBytes_def proc_at_def Let_def mult.commute)
qed

lemma length_entry [simp]: "length (bytes_u64 w @ as_voidp ty bs) = 16"
  by (simp add: as_voidp_def split: ty.splits)

text \<open>It puts the entry of the thread into the list, and leaves the entries of the other threads alone.\<close>

lemma popStackFrame_last:
  assumes "delta_store (en_api env) sinv room content"
    and "sinv (gc_store gc)" and "room (Suc k) (gc_store gc)" and "content (gc_store gc) (results gc) = Some x"
    and "gc_thread gc < threads gc" and "gc_thread gc < length (sv_processes (gc_src gc))"
    and "p_stk (sv_processes (gc_svout gc) ! gc_thread gc) = getEmptyStack"
    and "popStackFrame env (Some (v, ty)) gc = Ok gc1" and "vMap env gc v = Ok bs"
    and "tid = p_tid (sv_processes (gc_src gc) ! gc_thread gc)"
  shows "has_result content tid (bytes_u64 (ucast tid) @ as_voidp ty bs) gc1"
proof (rule popStackFrame_last_eq [OF assms(5-8)])
  fix i s bs'
  assume *: "vMap env gc v = Ok bs'" and d: "deltaB (en_api env) (gc_store gc) (results gc)
      (unat (p_tid (sv_processes (gc_src gc) ! gc_thread gc) * 16))
      (bytes_u64 (ucast (p_tid (sv_processes (gc_src gc) ! gc_thread gc))) @ as_voidp ty bs') = (i, s)"
    and gc1: "gc1 = upd_sv (\<lambda>sv. sv\<lparr>sv_tres := i\<rparr>) ((upd_proc (gc_thread gc)
      (\<lambda>p. p\<lparr>p_pc := 0, p_r := put_at 0 (replicate (en_regs env) 0) (p_r p)\<rparr>) gc)\<lparr>gc_store := s\<rparr>)"
  have "bs' = bs"
    using * assms(9) by simp
  with delta_store.delta_range_same [OF assms(1-4) d] show ?thesis
    by (simp add: has_result_def gc1 assms(10) del: length_append)
qed

lemma popStackFrame_keeps_result:
  assumes "delta_store (en_api env) sinv room content"
    and "sinv (gc_store gc)" and "room (Suc k) (gc_store gc)" and "has_result content tid entry gc"
    and "length entry = 16"
    and "gc_thread gc < threads gc" and "gc_thread gc < length (sv_processes (gc_src gc))"
    and "p_stk (sv_processes (gc_svout gc) ! gc_thread gc) = getEmptyStack"
    and "popStackFrame env (Some (v, ty)) gc = Ok gc1"
    and "p_tid (sv_processes (gc_src gc) ! gc_thread gc) * 16 \<noteq> tid * 16"
  shows "has_result content tid entry gc1"
proof (rule popStackFrame_last_eq [OF assms(6-9)])
  let ?tid = "p_tid (sv_processes (gc_src gc) ! gc_thread gc)"
  fix i s bs
  assume d: "deltaB (en_api env) (gc_store gc) (results gc) (unat (?tid * 16))
      (bytes_u64 (ucast ?tid) @ as_voidp ty bs) = (i, s)"
    and gc1: "gc1 = upd_sv (\<lambda>sv. sv\<lparr>sv_tres := i\<rparr>) ((upd_proc (gc_thread gc)
      (\<lambda>p. p\<lparr>p_pc := 0, p_r := put_at 0 (replicate (en_regs env) 0) (p_r p)\<rparr>) gc)\<lparr>gc_store := s\<rparr>)"
  obtain y where y: "content (gc_store gc) (results gc) = Some y" "unat (tid * 16) + 16 \<le> length y"
    "bytes_at (unat (tid * 16)) 16 y = entry"
    using assms(4,5) by (auto simp: has_result_def)
  have dvd: "16 dvd unat (t * 16)" for t :: u32
    by (simp add: unat_word_ariths dvd_mod_iff)
  have "unat (tid * 16) + 16 \<le> unat (?tid * 16) \<or> unat (?tid * 16) + 16 \<le> unat (tid * 16)"
  proof -
    obtain a b where "unat (tid * 16) = 16 * a" "unat (?tid * 16) = 16 * b"
      using dvd [of tid] dvd [of ?tid] by (auto elim!: dvdE)
    moreover have "unat (?tid * 16) \<noteq> unat (tid * 16)"
      using assms(10) by (simp only: word_unat_eq_iff not_False_eq_True)
    ultimately show ?thesis by auto
  qed
  then show ?thesis
    using delta_store.delta_range_other [OF assms(1-3) y(1) d, of "unat (tid * 16)" 16] y(2,3) assms(5)
    by (simp add: has_result_def gc1 del: length_append)
qed

text \<open>
  What may happen between the end of a thread and the join: steps that leave the list of results alone and keep the
  stored vectors, and the ends of other threads, which add their results to the list.
\<close>

inductive results_later :: "'s env \<Rightarrow> ('s \<Rightarrow> bool) \<Rightarrow> (nat \<Rightarrow> 's \<Rightarrow> bool) \<Rightarrow> ('s \<Rightarrow> u64 \<Rightarrow> bytes option) \<Rightarrow> u32
    \<Rightarrow> 's gctx \<Rightarrow> 's gctx \<Rightarrow> bool"
  for env sinv room content tid gc1 where
  now: "results_later env sinv room content tid gc1 gc1"
| other: "results_later env sinv room content tid gc1 gc \<Longrightarrow> results gc' = results gc \<Longrightarrow>
    (\<And>i y. content (gc_store gc) i = Some y \<Longrightarrow> content (gc_store gc') i = Some y) \<Longrightarrow>
    results_later env sinv room content tid gc1 gc'"
| ends: "results_later env sinv room content tid gc1 gc \<Longrightarrow>
    sinv (gc_store gc) \<Longrightarrow> room (Suc k) (gc_store gc) \<Longrightarrow>
    gc_thread gc < threads gc \<Longrightarrow> gc_thread gc < length (sv_processes (gc_src gc)) \<Longrightarrow>
    p_stk (sv_processes (gc_svout gc) ! gc_thread gc) = getEmptyStack \<Longrightarrow>
    p_tid (sv_processes (gc_src gc) ! gc_thread gc) * 16 \<noteq> tid * 16 \<Longrightarrow>
    popStackFrame env (Some (v, ty)) gc = Ok gc' \<Longrightarrow>
    results_later env sinv room content tid gc1 gc'"

lemma results_later_keeps:
  assumes "results_later env sinv room content tid gc1 gc2" and "delta_store (en_api env) sinv room content"
    and "has_result content tid entry gc1" and "length entry = 16"
  shows "has_result content tid entry gc2"
  using assms(1)
proof (induction rule: results_later.induct)
  case now
  show ?case by (rule assms(3))
next
  case (other gc gc')
  then show ?case by (fastforce simp: has_result_def)
next
  case (ends gc k v ty gc')
  then show ?case
    by (intro popStackFrame_keeps_result [OF assms(2) ends(2,3) _ assms(4) ends(4-6,8,7)])
qed

text \<open>
  C25: \<open>pthread_join\<close> delivers the result of the joined thread: once a thread with a thread number other than 0 has
  returned from its last function, a join with that number goes on in any later state, also when other threads have
  ended in between and added their results to the list, and stores the returned value through the pointer it is
  given, unless that is null.  The numbers of the other threads differ from it modulo \<open>2 ^ 28\<close>, since the place in the
  list is computed in 32 bits.
\<close>

theorem join_delivers_result:
  assumes "delta_store (en_api env) sinv room content"
    and "sinv (gc_store gc)" and "room (Suc k) (gc_store gc)" and "content (gc_store gc) (sv_tres (gc_svout gc)) = Some x"
    and "gc_thread gc < threads gc" and "gc_thread gc < length (sv_processes (gc_src gc))"
    and "p_stk (sv_processes (gc_svout gc) ! gc_thread gc) = getEmptyStack"
    and "popStackFrame env (Some (v, ty)) gc = Ok gc1" and "vMap env gc v = Ok bs"
    and "tid = p_tid (sv_processes (gc_src gc) ! gc_thread gc)" and "tid \<noteq> 0"
    and "results_later env sinv room content tid gc1 gc2" and "sinv (gc_store gc2)"
    and "store_result env I (replicate (dl_store (en_dl env) t) 0) gc2 = Ok gc3"
    and "arg c 0 = Ok th" and "vReg env th = Ok (off, u)"
    and "load_reg gc3 off 8 = Ok (bytes_u64 (ucast tid))" and "arg_pointer env gc3 c 1 = Ok q"
  shows "call_pthread_join env I t c gc2 =
    (if q = 0 then Ok gc3 else generateStore env q (as_voidp ty bs) (PtrTy (IntTy 8)) gc3)"
proof -
  let ?entry = "bytes_u64 (ucast tid) @ as_voidp ty bs" and ?off = "unat (tid * 16)"
  have "has_result content tid ?entry gc2"
    by (rule results_later_keeps [OF assms(12,1) popStackFrame_last [OF assms(1-10)] length_entry])
  then obtain y where y: "content (gc_store gc2) (sv_tres (gc_svout gc2)) = Some y" "?off + 16 \<le> length y"
    "bytes_at ?off 16 y = ?entry"
    unfolding has_result_def length_entry by blast
  obtain o' where o': "store_reg o' (replicate (dl_store (en_dl env) t) 0) gc2 = Ok gc3"
    using assms(14) by (auto simp: store_result_def outcome_simps)
  have gc3: "gc_store gc3 = gc_store gc2" "sv_tres (gc_svout gc3) = sv_tres (gc_svout gc2)"
    by (simp_all add: store_reg_Ok(1) [OF o'])
  have "getpartB (en_api env) (gc_store gc2) (sv_tres (gc_svout gc2)) ?off 16 = Some (bytes_at ?off 16 y)"
    using assms(1,13) y(1,2) by (rule vector_store.getpart [OF delta_store.axioms(1)])
  then have part: "downloadPartBytes env (gc_store gc3) (sv_tres (gc_svout gc3)) ?off 16 = Ok ?entry"
    by (simp add: downloadPartBytes_def gc3 of_option_def y(3))
  have "le_nat (bytes_u64 (ucast tid)) = unat (ucast tid :: u64)"
    using unat_less_power [of "ucast tid :: u64"] by (simp add: bytes_u64_def le_nat_nat_le)
  also have wide: "unat (ucast tid :: u64) = unat tid"
    using unat_less_power [of tid] by (simp add: unsigned_ucast_eq take_bit_eq_mod)
  finally have tid: "(word_of_nat (le_nat (bytes_u64 (ucast tid))) :: u32) = tid"
    by simp
  have "length (as_voidp ty bs) = 8"
    by (simp add: as_voidp_def split: ty.splits)
  then have parts: "bytes_at 0 8 ?entry = bytes_u64 (ucast tid)" "bytes_at 8 8 ?entry = as_voidp ty bs"
    by (simp_all add: bytes_at_def)
  have "unat tid \<noteq> 0"
    using assms(11) by (simp add: unat_eq_zero)
  then have "(ucast tid :: u64) \<noteq> 0"
    unfolding wide [symmetric] by (metis unat_0)
  then have "(if (ucast tid :: u64) = 0 then NoReport else if q = 0 then Ok gc3
      else generateStore env q (as_voidp ty bs) (PtrTy (IntTy 8)) gc3)
    = (if q = 0 then Ok gc3 else generateStore env q (as_voidp ty bs) (PtrTy (IntTy 8)) gc3)"
    by (rule if_not_P)
  then show ?thesis
    by (simp only: call_pthread_join_def Let_def assms(14-18) obind.simps prod.case tid part parts
        u64_of_bytes_u64)
qed

end
