(* ===== verification/Handler_Examples.thy ===== *)
theory Handler_Examples
  imports Thread_Laws Sized_Store
begin

text \<open>
  The properties of the handlers at concrete inputs, over the chunk store of ssgen with one
  stored memory of eight bytes and the module of \<open>inc\<close>.
\<close>

section \<open>Memory\<close>

abbreviation ex_p :: u64 where
  "ex_p \<equiv> 0x0100000000000000"

abbreviation ex_ptr :: val where
  "ex_ptr \<equiv> ConstV (PtrTy (IntTy 32)) (bytes_u64 ex_p)"

lemmas ex_contract = ssgen.delta_store_axioms [of "\<lambda>_. 0" 3]

lemma ex_access:
  "generateAccessToMemory ex_env ex_ctx ex_p 4 = Ok [1, 2, 3, 4]"
proof -
  have "getpartB (ssgen_api (\<lambda>_. 0) 3) (snd ex_db) (fst ex_db) 0 4 = Some (bytes_at 0 4 [1, 2, 3, 4, 5, 6, 7, 8])"
    by (rule vector_store.getpart [OF delta_store.axioms(1) [OF ex_contract] ex_store(1,3)]) simp
  then show ?thesis
    using ex_memory by (simp add: generateAccessToMemory_eq of_option_def bytes_at_def)
qed

lemma ex_types:
  "aligned ex_env (IntTy 8) = 4" "dl_store dmc_layout (IntTy 8) = 1"
  "dl_elem dmc_layout [IntTy 8, IntTy 1] (Suc 0) = 4"
  by (simp_all add: aligned_def generateAlignedSizeOf_def dmc_layout_def round_up_def dmc_elem_def dmc_end_def)

lemma ex_loads:
  "generateLoad ex_env ex_ctx ex_p (IntTy 32) = Ok [1, 2, 3, 4]"
  "generateLoad ex_env ex_ctx ex_p (IntTy 8) = Ok [1]"
  using ex_access ex_memory ex_types by (simp_all add: generateLoad_def)

lemma ex_add: "rmw_value env RMW_Add t [1, 2, 3, 4] [1, 0, 0, 0] = Ok [2, 2, 3, 4]"
proof -
  have "add_bytes [1, 2, 3, 4] [1, 0, 0, 0] = [2, 2, 3, 4]"
    by (simp add: add_bytes_def)
  then show ?thesis
    by (simp add: rmw_value_def)
qed

definition ex_rmw :: instruction where
  "ex_rmw = \<lparr>i_id = 13, i_ty = IntTy 32,
     i_op = AtomicRMW RMW_Add ex_ptr (ConstV (IntTy 32) [1, 0, 0, 0]) (IntTy 32)\<rparr>"

theorem atomic_rmw_effect_witness:
  "\<exists>gc'. generateNextStateForInstruction ex_env inc_func ex_rmw ex_ctx = Ok gc'
    \<and> generateLoad ex_env gc' ex_p (IntTy 32) = Ok [2, 2, 3, 4]"
  using atomic_rmw_effect [of ex_env "ssgen_inv 3" "ssgen_room 3" "ssgen_content 3" ex_ctx 1000 ex_rmw RMW_Add
      ex_ptr "ConstV (IntTy 32) [1, 0, 0, 0]" "IntTy 32" ex_p "[1, 2, 3, 4, 5, 6, 7, 8]" "[1, 2, 3, 4]"
      "[1, 0, 0, 0]" "[2, 2, 3, 4]" inc_func]
    ex_contract ex_store ex_memory ex_loads ex_add
  by (auto simp: ex_rmw_def vGetMemOffset_def)

lemma rmw_value_numbers_witness:
  "\<exists>r. rmw_value ex_env RMW_Add (IntTy 16) [0xFF, 0xFF] [2, 0] = Ok r \<and> le_nat r = 1"
  using rmw_value_numbers [of "[0xFF, 0xFF]" 2 "[2, 0]" ex_env "IntTy 16"] by auto

lemma store_fills_slots_witness:
  "\<exists>gc'. generateStore ex_env ex_p [9] (IntTy 8) ex_ctx = Ok gc'
    \<and> generateAccessToMemory ex_env gc' ex_p 4 = Ok [9, 0, 0, 0]"
  using store_fills_slots [of ex_env "ssgen_inv 3" "ssgen_room 3" "ssgen_content 3" ex_ctx 1000
      ex_p "[1, 2, 3, 4, 5, 6, 7, 8]" "[9]" "IntTy 8"]
    ex_contract ex_store ex_memory ex_types by (simp add: eval_nat_numeral)

section \<open>Compare and exchange\<close>

text \<open>A context whose register area has room for the result struct of a \<open>cmpxchg\<close>.\<close>

definition ex_wide_ctx :: "tree_store gctx" where
  "ex_wide_ctx = ex_ctx\<lparr>gc_svout := ex_sv\<lparr>sv_processes := replicate MAX_THREADS (ex_process\<lparr>p_r := replicate 16 0\<rparr>)\<rparr>\<rparr>"

definition ex_cas :: instruction where
  "ex_cas = \<lparr>i_id = 11, i_ty = StructTy [IntTy 8, IntTy 1],
     i_op = AtomicCmpXchg ex_ptr (ConstV (IntTy 8) [1]) (ConstV (IntTy 8) [7]) (IntTy 8)\<rparr>"

lemma ex_wide_simps [simp]:
  "gc_thread ex_wide_ctx = 0" "gc_store ex_wide_ctx = snd ex_db" "threads ex_wide_ctx = 6"
  "t < 6 \<Longrightarrow> sv_processes (gc_svout ex_wide_ctx) ! t = ex_process\<lparr>p_r := replicate 16 0\<rparr>"
  by (simp_all add: ex_wide_ctx_def)

lemma ex_wide_access: "generateAccessToMemory ex_env ex_wide_ctx p n = generateAccessToMemory ex_env ex_ctx p n"
  by (cases "owner p < 6") (simp_all add: generateAccessToMemory_def proc_at_def)

lemma ex_vReg_inst: "vReg ex_env (InstV ''inc'' 11) = Ok (4, IntTy 32)"
  using vReg_register_of(1) [of ex_env "InstV ''inc'' 11" "''inc''" 1] dmc_inc_layout
  by (simp add: register_of_def dmc_layout_def)

theorem cmpxchg_effect_witness:
  "\<exists>gc'. generateNextStateForInstruction ex_env inc_func ex_cas ex_wide_ctx = Ok gc'
    \<and> generateLoad ex_env gc' ex_p (IntTy 8) = Ok [7]"
proof -
  have load: "generateLoad ex_env ex_wide_ctx ex_p (IntTy 8) = Ok [1]"
    using ex_loads(2) by (simp add: generateLoad_def ex_wide_access)
  obtain gc1 where 1: "store_reg 4 [1] ex_wide_ctx = Ok gc1"
    by (simp add: store_reg_def store_reg_of_def proc_at_def)
  note r1 = store_reg_Ok(1) [OF 1]
  have g1: "threads gc1 = 6" "gc_store gc1 = snd ex_db" "mem gc1 0 = fst ex_db" "gc_thread gc1 = 0"
    "length (regs gc1 0) = 16"
    by (simp_all add: r1 ex_process_def length_put_at)
  have "owner ex_p < threads gc1"
    using ex_memory g1 by simp
  then obtain gc2 where 2: "generateStore ex_env ex_p [7] (IntTy 8) gc1 = Ok gc2"
    by (rule generateStore_succeeds)
  have g2: "threads gc2 = 6" "gc_thread gc2 = 0" "length (regs gc2 0) = 16"
    using generateStore_regs [OF 2] g1 by simp_all
  then obtain gc' where 3: "store_reg 8 [1] gc2 = Ok gc'"
    by (simp add: store_reg_def store_reg_of_def proc_at_def)
  have run: "generateNextStateForInstruction ex_env inc_func ex_cas ex_wide_ctx = Ok gc'"
    using 1 2 3 load ex_vReg_inst ex_types(3)
    by (simp add: generateNextStateForInstruction_def ex_cas_def generateNextStateForAtomicCmpXchg_def
        vGetMemOffset_def Let_def)
  with cmpxchg_effect [of ex_env "ssgen_inv 3" "ssgen_room 3" "ssgen_content 3" ex_wide_ctx 1000 ex_cas
      ex_ptr "ConstV (IntTy 8) [1]" "ConstV (IntTy 8) [7]" "IntTy 8" ex_p "[1, 2, 3, 4, 5, 6, 7, 8]" "[1]" "[7]"
      "[1]" inc_func 4 "IntTy 32" gc']
    ex_contract ex_store ex_memory ex_types ex_vReg_inst load
  show ?thesis
    by (auto simp: ex_cas_def vGetMemOffset_def ex_process_def)
qed

section \<open>Branches and calls\<close>

theorem branch_takes_successor_witness:
  "\<exists>gc'. generateNextStateForBranch ex_env inc_func 0 (Some (ConstV (IntTy 1) [1])) [0, 0] ex_ctx = Ok gc'
    \<and> p_pc (sv_processes (gc_svout gc') ! 0) = 1"
proof -
  have F: "f_blocks inc_func = [inc_insts]" "phis_of inc_insts = []"
    by (simp_all add: inc_func_def inc_insts_def)
  have "generateNextStateForBranch ex_env inc_func 0 (Some (ConstV (IntTy 1) [1])) [0, 0] ex_ctx
      = Ok (set_pc 0 1 ex_ctx)"
    by (simp add: generateNextStateForBranch_def block_location_def F phi_plan_def phi_dependencies_def
        generateStoresForPHINodes_def of_option_def phi_schedule.simps)
      (simp add: inc_insts_def)
  with branch_takes_successor [of ex_env inc_func 0 "ConstV (IntTy 1) [1]" 0 0 ex_ctx "set_pc 0 1 ex_ctx" "[1]" 0]
  show ?thesis
    by (auto simp: F inc_insts_def)
qed

text \<open>A function of two integers that may call itself, and a state in which they are 1 and 2.\<close>

definition swap_func :: func where
  "swap_func = \<lparr>f_name = ''swap'', f_params = [IntTy 32, IntTy 32], f_vararg = False, f_decl = False,
     f_blocks = [[\<lparr>i_id = 21, i_ty = VoidTy, i_op = Ret None\<rparr>]]\<rparr>"

definition swap_env :: "tree_store env" where
  "swap_env = ex_env\<lparr>en_gen := createRegisterMapping (createTransitionGroups
     (generator_new \<lparr>m_globals = [], m_functions = [swap_func]\<rparr> False))\<rparr>"

definition swap_ctx :: "tree_store gctx" where
  "swap_ctx = ex_ctx\<lparr>gc_svout := ex_sv\<lparr>sv_processes := replicate MAX_THREADS (ex_process\<lparr>p_r := [1, 0, 0, 0, 2, 0, 0, 0]\<rparr>)\<rparr>\<rparr>"

lemma swap_gen:
  "gn_registerTypes (en_gen swap_env) = (\<lambda>_. [])(''swap'' := [IntTy 32, IntTy 32])"
  "reg_index (en_gen swap_env) ''swap'' (ArgReg 0) = Some 0"
  "reg_index (en_gen swap_env) ''swap'' (ArgReg (Suc 0)) = Some (Suc 0)"
  "gn_programLocations (en_gen swap_env) 21 = 1" "en_dl swap_env = dmc_layout" "en_regs swap_env = 8"
  by (simp_all add: swap_env_def createTransitionGroups_def createDefaultTransitionGroups_def swap_func_def
      generator_new_def addTransitionGroup_def createTransitionGroupsForFunction_def
      createTransitionGroupsForBasicBlock.simps createTransitionGroupsForInstruction_def
      isFrontCollapsableInstruction_def assignLocation_def upt_rec fun_eq_iff
      createRegisterMapping_def createRegisterMappingForFunction_def args_of_def regs_of_def f_insts_def
      newmap_def reg_index_def)

lemma swap_ctx_simps [simp]:
  "gc_thread swap_ctx = 0" "threads swap_ctx = 6" "sv_processes (gc_svout swap_ctx) \<noteq> []"
  "t < 6 \<Longrightarrow> sv_processes (gc_svout swap_ctx) ! t = ex_process\<lparr>p_r := [1, 0, 0, 0, 2, 0, 0, 0]\<rparr>"
  by (simp_all add: swap_ctx_def)

lemma swap_args:
  "register_of swap_env (ArgV ''swap'' 0) = Some (''swap'', 0)"
  "register_of swap_env (ArgV ''swap'' (Suc 0)) = Some (''swap'', Suc 0)"
  by (simp_all add: register_of_def swap_gen)

lemma swap_store [simp]: "dl_store (en_dl swap_env) (IntTy 32) = 4"
  by (simp add: swap_gen dmc_layout_def)

lemma swap_vReg:
  "vReg swap_env (ArgV ''swap'' 0) = Ok (0, IntTy 32)" "vReg swap_env (ArgV ''swap'' (Suc 0)) = Ok (4, IntTy 32)"
  "vMap swap_env gc (ArgV ''swap'' 0) = load_reg gc 0 4" "vMap swap_env gc (ArgV ''swap'' (Suc 0)) = load_reg gc 4 4"
proof -
  show v: "vReg swap_env (ArgV ''swap'' 0) = Ok (0, IntTy 32)"
    "vReg swap_env (ArgV ''swap'' (Suc 0)) = Ok (4, IntTy 32)"
    using vReg_register_of(1) [OF swap_args(1)] vReg_register_of(1) [OF swap_args(2)]
    by (simp_all add: swap_gen dmc_layout_def)
  show "vMap swap_env gc (ArgV ''swap'' 0) = load_reg gc 0 4"
    "vMap swap_env gc (ArgV ''swap'' (Suc 0)) = load_reg gc 4 4"
    by (simp_all add: v swap_gen dmc_layout_def)
qed

theorem exchanged_arguments_clobbered_witness:
  "\<exists>gc'. pushStackFrame swap_env swap_func [ArgV ''swap'' 1, ArgV ''swap'' 0] None 0 swap_ctx = Ok gc'
    \<and> vMap swap_env gc' (ArgV ''swap'' 1) = Ok [2, 0, 0, 0]"
proof -
  obtain gc' where push: "pushStackFrame swap_env swap_func [ArgV ''swap'' 1, ArgV ''swap'' 0] None 0 swap_ctx = Ok gc'"
    using swap_gen(4,5)
    by (simp add: pushStackFrame_def saveCaller_def proc_at_def swap_vReg ex_memory load_reg_def store_reg_of_def
        length_put_at bytes_at_def entry_location_def of_option_def swap_func_def)
  moreover have "vMap swap_env swap_ctx (ArgV ''swap'' 0) = Ok [1, 0, 0, 0]"
    "vMap swap_env swap_ctx (ArgV ''swap'' 1) = Ok [2, 0, 0, 0]"
    by (simp_all add: swap_vReg load_reg_def proc_at_def bytes_at_def)
  moreover have "regs_fit swap_env swap_ctx"
    by (simp add: regs_fit_def swap_gen)
  ultimately show ?thesis
    using exchanged_arguments_clobbered [of swap_env swap_ctx swap_func "IntTy 32" "[]" "[1, 0, 0, 0]"
        "[2, 0, 0, 0]" None gc'] swap_args
    by (simp add: swap_gen swap_func_def)
qed

section \<open>Threads\<close>

definition ex_create :: call_inst where
  "ex_create = \<lparr>c_asm = None, c_callee = FunctionV ''pthread_create'', c_fty = VoidTy,
     c_args = [(ex_ptr, PtrTy (IntTy 64)), (ConstV (PtrTy (IntTy 8)) (replicate 8 0), PtrTy (IntTy 8)),
       (FunctionV ''inc'', PtrTy (IntTy 8)), (ConstV (IntTy 32) [5, 0, 0, 0], IntTy 32)]\<rparr>"

text \<open>Process 1 calls; process 0 is the first free slot.\<close>

definition ex_caller_ctx :: "tree_store gctx" where
  "ex_caller_ctx = ex_ctx\<lparr>gc_thread := 1, gc_svout := ex_sv\<lparr>sv_processes :=
     (replicate MAX_THREADS ex_process)[1 := ex_process\<lparr>p_pc := 9\<rparr>]\<rparr>\<rparr>"

lemma ex_caller_simps [simp]:
  "gc_thread ex_caller_ctx = 1" "gc_store ex_caller_ctx = snd ex_db" "threads ex_caller_ctx = 6"
  "sv_processes (gc_svout ex_caller_ctx) ! 0 = ex_process"
  "sv_processes (gc_svout ex_caller_ctx) ! 1 = ex_process\<lparr>p_pc := 9\<rparr>"
  "sv_processes (gc_svout ex_caller_ctx) ! Suc 0 = ex_process\<lparr>p_pc := 9\<rparr>"
  "sv_threadsStarted (gc_svout ex_caller_ctx) = 1"
  by (simp_all add: ex_caller_ctx_def ex_sv_def)

theorem pthread_create_slot_witness:
  "\<exists>gc'. call_pthread_create ex_env 13 ex_create ex_caller_ctx = Ok gc'
    \<and> p_pc (sv_processes (gc_svout gc') ! 0) = 1 \<and> p_tid (sv_processes (gc_svout gc') ! 0) = 2
    \<and> sv_processes (gc_svout gc') ! 1 = ex_process\<lparr>p_pc := 9\<rparr>"
proof -
  have g: "getFunction inc_module ''inc'' = Some inc_func"
    by (simp add: getFunction_def inc_module_def inc_func_def)
  have pc: "p_pc ex_process = 0" "p_tid ex_process = 0" "p_r ex_process = [41, 0, 0, 0, 0, 0, 0, 0]"
    by (simp_all add: ex_process_def)
  have first: "find (\<lambda>t. p_pc (sv_processes (gc_svout ex_caller_ctx) ! t) = 0) [0..<MAX_THREADS] = Some 0"
    by (simp add: upt_rec pc)
  have F: "vReg ex_env (ArgV ''inc'' 0) = Ok (0, IntTy 32)" "entry_location ex_gen inc_func = Some 1"
    using vReg_register_of(1) [of ex_env "ArgV ''inc'' 0" "''inc''" 0] dmc_inc_layout ex_vReg
    by (simp_all add: register_of_def dmc_layout_def)
  let ?gc1 = "upd_proc 0 (\<lambda>p. p\<lparr>p_stk := getEmptyStack, p_r := put_at 0 [5, 0, 0, 0] (p_r p), p_pc := 1\<rparr>) ex_caller_ctx"
  have start: "start_thread ex_env ex_create 0 ex_caller_ctx = Ok ?gc1"
    using F g pc
    by (simp add: start_thread_def ex_create_def arg_def of_option_def pushStackFrame_def saveCaller_def
        proc_at_def store_reg_of_def set_pc_def) (simp add: inc_func_def)
  let ?gc2 = "upd_sv (\<lambda>sv. sv\<lparr>sv_threadsStarted := 2\<rparr>) (upd_proc 0 (\<lambda>p. p\<lparr>p_tid := 2\<rparr>) ?gc1)"
  have "owner ex_p < threads ?gc2"
    using ex_memory by simp
  then obtain gc' where st: "generateStore ex_env ex_p (bytes_u64 2) (IntTy 64) ?gc2 = Ok gc'"
    by (rule generateStore_succeeds)
  have "register_thread ex_env ex_create 0 ?gc1 = Ok gc'"
    using st by (simp add: register_thread_def Let_def arg_pointer_def arg_def ex_create_def vGetMemOffset_def)
  with start first create_in_slot_find [of "[0..<MAX_THREADS]" ex_caller_ctx ex_env 13 ex_create]
  have run: "call_pthread_create ex_env 13 ex_create ex_caller_ctx = Ok gc'"
    by (simp add: call_pthread_create_def)
  have args: "arg ex_create 2 = Ok (FunctionV ''inc'')" "arg_pointer ex_env ex_caller_ctx ex_create 0 = Ok ex_p"
    by (simp_all add: arg_def arg_pointer_def ex_create_def vGetMemOffset_def)
  have other: "p\<lparr>p_m := p_m p\<rparr> = p" for p :: process
    by simp
  from pthread_create_slot [OF run _ args(1) _ _ args(2), of inc_func] first g F
  have r: "p_pc (sv_processes (gc_svout gc') ! 0) = 1" "p_tid (sv_processes (gc_svout gc') ! 0) = 2"
    "list_all (\<lambda>u. u = 0 \<or> (\<exists>m. sv_processes (gc_svout gc') ! u = (sv_processes (gc_svout ex_caller_ctx) ! u)\<lparr>p_m := m\<rparr>
       \<and> (u \<noteq> owner ex_p \<longrightarrow> m = mem ex_caller_ctx u))) [0..<MAX_THREADS]"
    by (auto simp: Let_def)
  have "sv_processes (gc_svout gc') ! 1 = ex_process\<lparr>p_pc := 9\<rparr>"
    using r(3) ex_memory by (auto simp: list_all_iff dest!: bspec [of _ _ 1])
  with r(1,2) run show ?thesis by blast
qed

text \<open>
  No thread has ended yet.  Slot 0 runs the thread with number 2 and returns 5; then slot 1, which runs the thread
  with number 3, returns 7; then slot 2, which holds the number 2 in its first register, joins it with a pointer to
  the memory of process 0.  The store is the chunk store with the empty vector at 0.
\<close>

definition ex_zero_env :: "tree_store env" where
  "ex_zero_env = ex_env\<lparr>en_api := zero_api (ssgen_api (\<lambda>_. 0) 3)\<rparr>"

lemma ex_zero_env_simps [simp]:
  "en_gen ex_zero_env = ex_gen" "en_dl ex_zero_env = dmc_layout" "en_regs ex_zero_env = 8"
  "en_api ex_zero_env = zero_api (ssgen_api (\<lambda>_. 0) 3)" "vReg ex_zero_env v = vReg ex_env v"
  by (simp_all add: ex_zero_env_def vReg_def split: val.split option.split)

lemmas ex_zero_contract = zero_ssgen.delta_store_axioms [of "\<lambda>_. 0" 3]

abbreviation ex_zero_content :: "tree_store \<Rightarrow> u64 \<Rightarrow> bytes option" where
  "ex_zero_content \<equiv> zero_content (ssgen_content 3)"

definition ex_thread :: "u32 \<Rightarrow> process" where
  "ex_thread tid = ex_process\<lparr>p_tid := tid, p_r := [2, 0, 0, 0, 0, 0, 0, 0]\<rparr>"

definition ex_thread_sv :: statevector where
  "ex_thread_sv = ex_sv\<lparr>sv_tres := 0, sv_processes := map ex_thread [2, 3, 1, 0, 0, 0]\<rparr>"

definition ex_thread_ctx :: "tree_store gctx" where
  "ex_thread_ctx = ex_ctx\<lparr>gc_src := ex_thread_sv, gc_svout := ex_thread_sv\<rparr>"

definition ex_join :: call_inst where
  "ex_join = \<lparr>c_asm = None, c_callee = FunctionV ''pthread_join'', c_fty = VoidTy,
     c_args = [(ArgV ''inc'' 0, IntTy 64), (ex_ptr, PtrTy (IntTy 8))]\<rparr>"

abbreviation ex_ret :: "byte \<Rightarrow> (val \<times> ty) option" where
  "ex_ret n \<equiv> Some (ConstV (IntTy 32) [n, 0, 0, 0], IntTy 32)"

lemma ex_thread_simps [simp]:
  "gc_thread ex_thread_ctx = 0" "gc_src ex_thread_ctx = ex_thread_sv" "gc_svout ex_thread_ctx = ex_thread_sv"
  "gc_store ex_thread_ctx = snd ex_db" "sv_processes ex_thread_sv = map ex_thread [2, 3, 1, 0, 0, 0]"
  "sv_tres ex_thread_sv = 0" "p_stk (ex_thread tid) = getEmptyStack" "p_tid (ex_thread tid) = tid"
  "p_r (ex_thread tid) = [2, 0, 0, 0, 0, 0, 0, 0]" "p_m (ex_thread tid) = fst ex_db"
  by (simp_all add: ex_thread_ctx_def ex_thread_sv_def ex_sv_def ex_thread_def ex_process_def getEmptyStack_def)

lemma nat_le_numeral [simp]:
  "nat_le (numeral k) v = word_of_nat (v mod 256) # nat_le (pred_numeral k) (v div 256)"
  unfolding numeral_eq_Suc [of k] by (rule nat_le.simps)

lemma bytes_u64_2: "bytes_u64 2 = [2, 0, 0, 0, 0, 0, 0, 0]"
  by (simp add: bytes_u64_def)

text \<open>The end of one of the threads, in any state of which the list and the stack are known.\<close>

lemma ex_thread_ends:
  assumes "gc_thread gc = t" and "t < threads gc" and "t < length (sv_processes (gc_src gc))"
    and "p_stk (sv_processes (gc_svout gc) ! t) = getEmptyStack"
    and "ssgen_inv 3 (gc_store gc)" and "ssgen_room 3 (Suc k) (gc_store gc)"
    and "ex_zero_content (gc_store gc) (sv_tres (gc_svout gc)) = Some x"
  obtains i s where "popStackFrame ex_zero_env (ex_ret n) gc = Ok (upd_sv (\<lambda>sv. sv\<lparr>sv_tres := i\<rparr>) ((upd_proc t
      (\<lambda>p. p\<lparr>p_pc := 0, p_r := put_at 0 (replicate 8 0) (p_r p)\<rparr>) gc)\<lparr>gc_store := s\<rparr>))"
    and "ssgen_inv 3 s" and "ssgen_room 3 k s" and "\<exists>y. ex_zero_content s i = Some y"
    and "\<And>j y. ex_zero_content (gc_store gc) j = Some y \<Longrightarrow> ex_zero_content s j = Some y"
proof -
  let ?tid = "p_tid (sv_processes (gc_src gc) ! t)"
  let ?entry = "bytes_u64 (ucast ?tid) @ as_voidp (IntTy 32) [n, 0, 0, 0]"
  obtain i s where d: "deltaB (zero_api (ssgen_api (\<lambda>_. 0) 3)) (gc_store gc) (sv_tres (gc_svout gc))
      (unat (16 * ?tid)) ?entry = (i, s)"
    by (metis prod.exhaust)
  have "popStackFrame ex_zero_env (ex_ret n) gc = Ok (upd_sv (\<lambda>sv. sv\<lparr>sv_tres := i\<rparr>) ((upd_proc t
      (\<lambda>p. p\<lparr>p_pc := 0, p_r := put_at 0 (replicate 8 0) (p_r p)\<rparr>) gc)\<lparr>gc_store := s\<rparr>))"
    using d assms(1-4) by (simp add: popStackFrame_def storeThreadResult_def deltaBytes_def proc_at_def Let_def)
  moreover have "ssgen_inv 3 s" "ssgen_room 3 k s"
    using delta_store.delta_inv [OF ex_zero_contract assms(5-7), of "unat (16 * ?tid)" ?entry]
      delta_store.delta_room [OF ex_zero_contract assms(5-7), of "unat (16 * ?tid)" ?entry] d by simp_all
  moreover have "\<exists>y. ex_zero_content s i = Some y"
    using delta_store.delta_range_same [OF ex_zero_contract assms(5-7) d] by blast
  moreover have "ex_zero_content s j = Some y" if "ex_zero_content (gc_store gc) j = Some y" for j y
    using delta_store.delta_frame [OF ex_zero_contract assms(5-7) that, of "unat (16 * ?tid)" ?entry] d by simp
  ultimately show thesis
    by (rule that)
qed

theorem join_delivers_result_witness:
  "\<exists>gc1 gc2 gc'. popStackFrame ex_zero_env (ex_ret 5) ex_thread_ctx = Ok gc1
    \<and> popStackFrame ex_zero_env (ex_ret 7) (gc1\<lparr>gc_thread := 1\<rparr>) = Ok gc2
    \<and> call_pthread_join ex_zero_env (InstV ''inc'' 11) (IntTy 32) ex_join (gc2\<lparr>gc_thread := 2\<rparr>) = Ok gc'
    \<and> generateLoad ex_zero_env gc' ex_p (PtrTy (IntTy 8)) = Ok [5, 0, 0, 0, 0, 0, 0, 0]"
proof -
  have s0: "ex_zero_content (snd ex_db) 0 = Some []" "ex_zero_content (snd ex_db) (fst ex_db) = Some [1, 2, 3, 4, 5, 6, 7, 8]"
    using ex_store by (simp_all add: zero_content_def)
  obtain i1 s1 where pop1: "popStackFrame ex_zero_env (ex_ret 5) ex_thread_ctx = Ok (upd_sv (\<lambda>sv. sv\<lparr>sv_tres := i1\<rparr>)
      ((upd_proc 0 (\<lambda>p. p\<lparr>p_pc := 0, p_r := put_at 0 (replicate 8 0) (p_r p)\<rparr>) ex_thread_ctx)\<lparr>gc_store := s1\<rparr>))"
    and s1: "ssgen_inv 3 s1" "ssgen_room 3 1000 s1" "\<exists>y. ex_zero_content s1 i1 = Some y"
      "\<And>j y. ex_zero_content (snd ex_db) j = Some y \<Longrightarrow> ex_zero_content s1 j = Some y"
    by (rule ex_thread_ends [of ex_thread_ctx 0 1000 "[]" 5]) (use ex_store(1,2) s0 in simp_all)
  let ?gc1 = "upd_sv (\<lambda>sv. sv\<lparr>sv_tres := i1\<rparr>)
      ((upd_proc 0 (\<lambda>p. p\<lparr>p_pc := 0, p_r := put_at 0 (replicate 8 0) (p_r p)\<rparr>) ex_thread_ctx)\<lparr>gc_store := s1\<rparr>)"
  let ?g1 = "?gc1\<lparr>gc_thread := 1\<rparr>"
  obtain y where y: "ex_zero_content s1 i1 = Some y"
    using s1(3) by blast
  have room: "ssgen_room 3 (Suc 999) s1"
    using s1(2) by simp
  obtain i2 s2 where pop2: "popStackFrame ex_zero_env (ex_ret 7) ?g1 = Ok (upd_sv (\<lambda>sv. sv\<lparr>sv_tres := i2\<rparr>)
      ((upd_proc 1 (\<lambda>p. p\<lparr>p_pc := 0, p_r := put_at 0 (replicate 8 0) (p_r p)\<rparr>) ?g1)\<lparr>gc_store := s2\<rparr>))"
    and s2: "ssgen_inv 3 s2" "ssgen_room 3 999 s2"
      "\<And>j y. ex_zero_content s1 j = Some y \<Longrightarrow> ex_zero_content s2 j = Some y"
    by (rule ex_thread_ends [of ?g1 1 999 y 7]) (use s1(1) room y in simp_all)
  let ?gc2 = "upd_sv (\<lambda>sv. sv\<lparr>sv_tres := i2\<rparr>)
      ((upd_proc 1 (\<lambda>p. p\<lparr>p_pc := 0, p_r := put_at 0 (replicate 8 0) (p_r p)\<rparr>) ?g1)\<lparr>gc_store := s2\<rparr>)"
  let ?g2 = "?gc2\<lparr>gc_thread := 2\<rparr>"
  have later: "results_later ex_zero_env (ssgen_inv 3) (ssgen_room 3) ex_zero_content 2 ?gc1 ?g2"
  proof (rule results_later.other)
    show "results_later ex_zero_env (ssgen_inv 3) (ssgen_room 3) ex_zero_content 2 ?gc1 ?gc2"
    proof (rule results_later.ends [OF _ _ _ _ _ _ _ pop2])
      show "results_later ex_zero_env (ssgen_inv 3) (ssgen_room 3) ex_zero_content 2 ?gc1 ?g1"
        by (rule results_later.other [OF results_later.now]) simp_all
      show "ssgen_room 3 (Suc 999) (gc_store ?g1)"
        using room by simp
    qed (use s1(1) in simp_all)
  qed simp_all
  obtain gc3 where 3: "store_reg 4 [0, 0, 0, 0] ?g2 = Ok gc3"
    by (simp add: store_reg_def store_reg_of_def proc_at_def)
  note r3 = store_reg_Ok(1) [OF 3]
  have res: "store_result ex_zero_env (InstV ''inc'' 11) (replicate (dl_store (en_dl ex_zero_env) (IntTy 32)) 0) ?g2 = Ok gc3"
    using 3 ex_vReg_inst ex_memory by (simp add: store_result_def numeral_eq_Suc)
  have load: "load_reg gc3 0 8 = Ok (bytes_u64 (ucast (2 :: u32)))"
    by (simp add: r3 load_reg_def proc_at_def put_at_def bytes_at_def bytes_u64_2)
  have th: "vReg ex_zero_env (ArgV ''inc'' 0) = Ok (0, IntTy 32)"
    using vReg_register_of(1) [of ex_env "ArgV ''inc'' 0" "''inc''" 0] dmc_inc_layout
    by (simp add: register_of_def dmc_layout_def)
  have a: "arg ex_join 0 = Ok (ArgV ''inc'' 0)" "arg_pointer ex_zero_env gc3 ex_join 1 = Ok ex_p"
    by (simp_all add: arg_pointer_def arg_def ex_join_def vGetMemOffset_def)
  have join: "call_pthread_join ex_zero_env (InstV ''inc'' 11) (IntTy 32) ex_join ?g2
    = (if ex_p = 0 then Ok gc3 else generateStore ex_zero_env ex_p (as_voidp (IntTy 32) [5, 0, 0, 0]) (PtrTy (IntTy 8)) gc3)"
    by (rule join_delivers_result [OF ex_zero_contract [folded ex_zero_env_simps(4)], where gc = ex_thread_ctx and k = 1000
        and v = "ConstV (IntTy 32) [5, 0, 0, 0]" and x = "[]" and tid = 2 and th = "ArgV ''inc'' 0"])
      (use pop1 later s2(1) res load th a ex_store(1,2) s0 in \<open>simp_all\<close>)
  have g3: "gc_store gc3 = s2" "mem gc3 0 = fst ex_db" "threads gc3 = 6"
    by (simp_all add: r3)
  have "owner ex_p < threads gc3"
    using ex_memory g3 by simp
  then obtain gc' where st: "generateStore ex_zero_env ex_p (as_voidp (IntTy 32) [5, 0, 0, 0]) (PtrTy (IntTy 8)) gc3 = Ok gc'"
    by (rule generateStore_succeeds)
  have "generateLoad ex_zero_env gc' ex_p (PtrTy (IntTy 8)) = Ok (as_voidp (IntTy 32) [5, 0, 0, 0])"
  proof (rule generateLoad_generateStore [OF _ _ _ _ _ _ st])
    show "delta_store (en_api ex_zero_env) (ssgen_inv 3) (ssgen_room 3) ex_zero_content"
      using ex_zero_contract by simp
    show "ssgen_room 3 (Suc 998) (gc_store gc3)"
      using s2(2) g3 by simp
    show "ex_zero_content (gc_store gc3) (mem gc3 (owner ex_p)) = Some [1, 2, 3, 4, 5, 6, 7, 8]"
      using s2(3) [OF s1(4) [OF s0(2)]] ex_memory g3 by simp
  qed (use s2(1) g3 in \<open>simp_all add: as_voidp_def zpad_def dmc_layout_def aligned_def generateAlignedSizeOf_def round_up_def\<close>)
  then have "generateLoad ex_zero_env gc' ex_p (PtrTy (IntTy 8)) = Ok [5, 0, 0, 0, 0, 0, 0, 0]"
    by (simp add: as_voidp_def zpad_def numeral_eq_Suc)
  moreover have "call_pthread_join ex_zero_env (InstV ''inc'' 11) (IntTy 32) ex_join ?g2 = Ok gc'"
    using join st by simp
  ultimately show ?thesis
    using pop1 pop2 by blast
qed

end
