(* ===== verification/Next_Examples.thy ===== *)
theory Next_Examples
  imports Isolation Private_Groups Handler_Examples
begin

text \<open>
  The properties of the next-state function at concrete inputs: a module whose \<open>main\<close> is the
  empty infinite loop \<open>0: br label 0\<close>, and a module whose \<open>main\<close> returns at once.
\<close>

section \<open>The empty loop\<close>

definition spin_insts :: "instruction list" where
  "spin_insts = [\<lparr>i_id = 31, i_ty = VoidTy, i_op = Br None [0]\<rparr>]"

definition spin_func :: func where
  "spin_func = \<lparr>f_name = ''main'', f_params = [], f_vararg = False, f_decl = False, f_blocks = [spin_insts]\<rparr>"

definition spin_env :: "tree_store env" where
  "spin_env = ex_env\<lparr>en_gen := createRegisterMapping (createTransitionGroups
     (generator_new \<lparr>m_globals = [], m_functions = [spin_func]\<rparr> False))\<rparr>"

text \<open>The status selects the start of \<open>main\<close>; all processes are at the location \<open>pc\<close>.\<close>

definition spin_sv :: "u32 \<Rightarrow> u32 \<Rightarrow> statevector" where
  "spin_sv status pc = ex_sv\<lparr>sv_status := status,
     sv_processes := replicate MAX_THREADS (ex_process\<lparr>p_pc := pc\<rparr>)\<rparr>"

lemma spin_gen:
  "gn_programLocations (en_gen spin_env) 31 = 1" "en_dl spin_env = dmc_layout" "en_regs spin_env = 8"
  "en_api spin_env = ssgen_api (\<lambda>_. 0) 3" "en_order spin_env = rev"
  "gn_module (en_gen spin_env) = \<lparr>m_globals = [], m_functions = [spin_func]\<rparr>"
  "gn_assumeNonAtomicCollapsable (en_gen spin_env) = False"
  "gn_transitionGroups (en_gen spin_env) = [TGLambda ConstructorsGroup, TGLambda MainGroup]
     @ map (\<lambda>t. TGInstructions t spin_insts False) [0..<MAX_THREADS]"
  by (simp_all add: spin_env_def createTransitionGroups_def createDefaultTransitionGroups_def spin_func_def
      spin_insts_def generator_new_def addTransitionGroup_def createTransitionGroupsForFunction_def
      createTransitionGroupsForBasicBlock.simps createTransitionGroupsForInstruction_def
      isFrontCollapsableInstruction_def assignLocation_def upt_rec fun_eq_iff
      createRegisterMapping_def createRegisterMappingForFunction_def args_of_def regs_of_def f_insts_def
      newmap_def reg_index_def)

lemma spin_sv_wf: "sv_wf spin_env (spin_sv status pc)"
  by (simp add: sv_wf_def spin_gen spin_sv_def ex_process_def)

lemma spin_group: "group_at (en_gen spin_env) 1 = Some spin_insts" "\<not> emitter (en_gen spin_env) spin_insts"
  by (simp_all add: group_at_def group_case_def spin_gen upt_rec map_filter_simps spin_insts_def
      emitter_def isRuntimeCollapsableInstruction_def)

lemma spin_step:
  assumes "pc_of gc = 1" and "gc_thread gc < length (sv_processes (gc_svout gc))"
  shows "generateNextStateForGroup spin_env spin_insts gc = Continue gc"
proof -
  have F: "function_of \<lparr>m_globals = [], m_functions = [spin_func]\<rparr> 31 = Some spin_func"
    "block_of spin_func 31 = Some 0" "f_blocks spin_func = [spin_insts]" "f_name spin_func = ''main''"
    by (simp_all add: function_of_def spin_func_def f_insts_def spin_insts_def block_of_def)
  have "block_location (en_gen spin_env) spin_func 0 = Ok 1"
    by (simp add: block_location_def F spin_gen) (simp add: spin_insts_def spin_gen)
  moreover have "generateStoresForPHINodes spin_env fn 0 spin_insts gc = Ok gc" for fn and gc :: "tree_store gctx"
    by (simp add: generateStoresForPHINodes_def phi_plan_def phi_dependencies_def spin_insts_def spin_gen
        phi_schedule.simps of_option_def)
  moreover have "location_after (en_gen spin_env) 31 = 0"
    by (simp add: location_after_def spin_gen F) (simp add: spin_insts_def)
  moreover have "set_pc (gc_thread gc) 1 (set_pc (gc_thread gc) 0 gc) = gc"
    using assms by (simp add: set_pc_def upd_proc_def upd_sv_def pc_of_def list_update_same_conv)
  moreover have "gc_thread (set_pc t pc gc) = gc_thread gc" for t pc
    by (simp add: set_pc_def upd_proc_def)
  ultimately show ?thesis
    by (simp add: generateNextStateForGroup_def spin_gen)
      (simp add: spin_insts_def spin_gen F generateNextStateForInstruction_def generateNextStateForBranch_def
        of_option_def)
qed

theorem silent_loop_diverges_witness:
  "generateGetNextAllDMC spin_env (spin_sv (status_code RUNNING_MAIN) 1) (snd ex_db) = None"
proof -
  let ?sv = "spin_sv (status_code RUNNING_MAIN) 1"
  let ?gc = "generateContextAndSetupCode 0 ?sv (snd ex_db)"
  have pc: "pc_of ?gc = 1" "gc_thread ?gc < length (sv_processes (gc_svout ?gc))"
    by (simp_all add: pc_of_def generateContextAndSetupCode_def spin_sv_def)
  have "endless spin_env False ?gc"
    by (rule endless_same [OF _ _ spin_group(2) spin_step [OF pc]]) (use pc spin_group(1) in simp_all)
  moreover have "process_loop spin_env ?sv [0..<0] (snd ex_db) = Some (Next [] (snd ex_db))"
    by simp
  ultimately show ?thesis
    using silent_loop_diverges [of ?sv spin_env "snd ex_db"]
    by (fastforce simp: spin_sv_def)
qed

text \<open>The jump in a state vector in which the program has ended, with another list of results and the other
  processes elsewhere.\<close>

theorem collapsed_group_private_witness:
  "generateNextStateForGroup spin_env spin_insts (carry False (spin_sv (status_code ENDED) 7)
      (generateContextAndSetupCode 0 (spin_sv (status_code RUNNING_MAIN) 1) (snd ex_db)))
   = Continue (carry False (spin_sv (status_code ENDED) 7)
      (generateContextAndSetupCode 0 (spin_sv (status_code RUNNING_MAIN) 1) (snd ex_db)))"
proof -
  let ?gc = "generateContextAndSetupCode 0 (spin_sv (status_code RUNNING_MAIN) 1) (snd ex_db)"
  have gc: "pc_of ?gc = 1" "gc_thread ?gc < length (sv_processes (gc_svout ?gc))"
    "gc_thread ?gc < length (sv_processes (spin_sv (status_code ENDED) 7))"
    by (simp_all add: pc_of_def generateContextAndSetupCode_def spin_sv_def)
  have "\<not> gn_assumeNonAtomicCollapsable (en_gen spin_env)"
    by (simp add: spin_gen)
  moreover have "list_all (\<lambda>I. \<not> copies_memory (en_gen spin_env) I) spin_insts"
    by (simp add: copies_memory_def spin_insts_def)
  moreover have "\<not> group_reports_result spin_env spin_insts ?gc"
    by (simp add: group_reports_result_def ends_with_result_def spin_insts_def split: outcome.split)
  ultimately show ?thesis
    using collapsed_group_private [OF spin_group(2) _ _ gc(2) _ gc(3)] spin_step [OF gc(1,2)]
    by (simp add: carry_run_def)
qed

section \<open>The start of main\<close>

text \<open>Process 0 is idle; the only next state has it at the first instruction of \<open>main\<close>.\<close>

definition spin_started :: statevector where
  "spin_started = (spin_sv (status_code RUNNING_MAIN) 0)
     \<lparr>sv_processes := (replicate MAX_THREADS (ex_process\<lparr>p_pc := 0\<rparr>))[0 := ex_process\<lparr>p_pc := 1\<rparr>]\<rparr>"

lemma spin_starts:
  "generateGetNextAllDMC spin_env (spin_sv (status_code STARTING_MAIN) 0) (snd ex_db)
   = Some (Next [sv_bytes spin_started] (snd ex_db))"
proof -
  have F: "getFunction \<lparr>m_globals = [], m_functions = [spin_func]\<rparr> ''main'' = Some spin_func"
    by (simp add: getFunction_def spin_func_def)
  have l: "entry_location (en_gen spin_env) spin_func = Some 1"
    by (simp add: entry_location_def spin_func_def spin_insts_def spin_gen)
  have "generateMainStart spin_env (spin_sv 2 0) (snd ex_db)
      = Ok (set_pc 0 1 (generateContextAndSetupCode 0 (spin_sv 2 0) (snd ex_db)))"
    using F l by (simp add: generateMainStart_def spin_gen pushStackFrame_def saveCaller_def proc_at_def
        generateContextAndSetupCode_def spin_sv_def ex_process_def of_option_def getEmptyStack_def
        set_pc_def upd_proc_def upd_sv_def spin_func_def)
  then show ?thesis
    by (simp add: generateGetNextAllDMC_def report_started_def generateContextAndSetupCode_def uploadTransition_succeeds
        set_pc_def upd_proc_def upd_sv_def spin_started_def spin_sv_def ex_sv_def)
qed

theorem successors_until_ended_witness:
  "([sv_bytes spin_started] \<noteq> []) = (sv_status (spin_sv 2 0) \<in>
    {status_code START, status_code RUNNING_CONSTRUCTORS, status_code STARTING_MAIN, status_code RUNNING_MAIN})"
  using successors_until_ended [OF spin_starts] by simp

section \<open>Six threads that return\<close>

definition quit_insts :: "instruction list" where
  "quit_insts = [\<lparr>i_id = 41, i_ty = VoidTy, i_op = Ret None\<rparr>]"

definition quit_func :: func where
  "quit_func = \<lparr>f_name = ''main'', f_params = [], f_vararg = False, f_decl = False, f_blocks = [quit_insts]\<rparr>"

definition quit_env :: "tree_store env" where
  "quit_env = ex_env\<lparr>en_gen := createRegisterMapping (createTransitionGroups
     (generator_new \<lparr>m_globals = [], m_functions = [quit_func]\<rparr> False))\<rparr>"

abbreviation quit_sv :: statevector where
  "quit_sv \<equiv> spin_sv 3 1"

definition quit_after :: "nat \<Rightarrow> statevector" where
  "quit_after t = quit_sv\<lparr>sv_processes := (sv_processes quit_sv)[t := ex_process\<lparr>p_pc := 0, p_r := replicate 8 0\<rparr>]\<rparr>"

lemma quit_gen:
  "gn_programLocations (en_gen quit_env) 41 = 1" "en_regs quit_env = 8"
  "gn_assumeNonAtomicCollapsable (en_gen quit_env) = False"
  "gn_module (en_gen quit_env) = \<lparr>m_globals = [], m_functions = [quit_func]\<rparr>"
  "gn_transitionGroups (en_gen quit_env) = [TGLambda ConstructorsGroup, TGLambda MainGroup]
     @ map (\<lambda>t. TGInstructions t quit_insts False) [0..<MAX_THREADS]"
  by (simp_all add: quit_env_def ex_env_def createTransitionGroups_def createDefaultTransitionGroups_def quit_func_def
      quit_insts_def generator_new_def addTransitionGroup_def createTransitionGroupsForFunction_def
      createTransitionGroupsForBasicBlock.simps createTransitionGroupsForInstruction_def
      isFrontCollapsableInstruction_def assignLocation_def upt_rec fun_eq_iff
      createRegisterMapping_def createRegisterMappingForFunction_def args_of_def regs_of_def f_insts_def
      newmap_def reg_index_def)

lemma quit_sv_wf: "sv_wf quit_env quit_sv"
  by (simp add: sv_wf_def quit_gen spin_sv_def ex_process_def)

lemma quit_step:
  assumes "t < MAX_THREADS"
  shows "generateStepProcess quit_env t quit_sv s = Some (Continue
    \<lparr>gc_thread = t, gc_src = quit_sv, gc_svout = quit_after t, gc_store = s\<rparr>)"
proof -
  let ?gc = "generateContextAndSetupCode t quit_sv s"
  have gc: "gc_thread ?gc = t" "sv_processes (gc_svout ?gc) ! t = ex_process\<lparr>p_pc := 1\<rparr>" "pc_of ?gc = 1"
    "length (sv_processes (gc_svout ?gc)) = MAX_THREADS"
    using assms by (simp_all add: generateContextAndSetupCode_def spin_sv_def pc_of_def)
  have F: "function_of \<lparr>m_globals = [], m_functions = [quit_func]\<rparr> 41 = Some quit_func"
    by (simp add: function_of_def quit_func_def f_insts_def quit_insts_def)
  have group: "group_at (en_gen quit_env) 1 = Some quit_insts"
    by (simp add: group_at_def group_case_def quit_gen upt_rec map_filter_simps) (simp add: quit_insts_def quit_gen)
  let ?gc' = "\<lparr>gc_thread = t, gc_src = quit_sv, gc_svout = quit_after t, gc_store = s\<rparr>"
  have "location_after (en_gen quit_env) 41 = 0"
    by (simp add: location_after_def quit_gen F)
      (simp add: quit_func_def quit_insts_def block_of_def)
  then have "generateNextStateForGroup quit_env quit_insts ?gc = Continue ?gc'"
    using assms gc
    by (simp add: generateNextStateForGroup_def quit_insts_def F quit_gen generateNextStateForInstruction_def of_option_def
        popStackFrame_def proc_at_def getEmptyStack_def set_pc_def upd_proc_def upd_sv_def quit_after_def)
      (simp add: generateContextAndSetupCode_def spin_sv_def ex_process_def put_at_def getEmptyStack_def)
  moreover have "pc_of ?gc' = 0"
    using assms by (simp add: pc_of_def quit_after_def spin_sv_def)
  ultimately show ?thesis
    using gc(3) group by (simp add: generateStepProcess_def Let_def step_loop.simps)
qed

lemma quit_next:
  "generateGetNextAllDMC quit_env quit_sv s = Some (Next (map (\<lambda>t. sv_bytes (quit_after t)) [0..<MAX_THREADS]) s)"
proof -
  have "process_loop quit_env quit_sv ts s = Some (Next (map (\<lambda>t. sv_bytes (quit_after t)) ts) s)"
    if "\<forall>t \<in> set ts. t < MAX_THREADS" for ts
    using that by (induction ts) (simp_all add: quit_step uploadTransition_succeeds)
  from this [of "[0..<MAX_THREADS]"] show ?thesis
    by (simp add: generateGetNextAllDMC_def spin_sv_def upt_rec)
qed

theorem next_state_one_process_witness:
  "\<exists>t < MAX_THREADS. \<exists>sv. sv_bytes (quit_after 2) = sv_bytes sv \<and> sv_wf quit_env sv \<and> step_of t quit_sv sv"
  by (rule next_state_one_process [OF quit_sv_wf quit_next]) simp

lemma quit_no_copies: "no_copies quit_env"
  by (auto simp: group_at_def group_case_def quit_gen upt_rec map_filter_simps)
    (simp add: quit_insts_def copies_memory_def)

theorem step_has_one_visible_group_witness:
  "let gc = generateContextAndSetupCode 2 quit_sv (snd ex_db);
       gc' = \<lparr>gc_thread = 2, gc_src = quit_sv, gc_svout = quit_after 2, gc_store = snd ex_db\<rparr>
   in private_run quit_env False gc gc' \<or> (\<exists>gcA gcB. private_run quit_env False gc gcA
     \<and> visible_group quit_env gcA gcB \<and> private_run quit_env True gcB gc')"
proof -
  have "\<not> gn_assumeNonAtomicCollapsable (en_gen quit_env)"
    by (simp add: quit_gen)
  from step_has_one_visible_group [OF quit_step _ this quit_no_copies, of 2 "snd ex_db"] show ?thesis
    by (simp add: Let_def spin_sv_def)
qed

end
