(* ===== verification/State_Space.thy ===== *)
theory State_Space
  imports Initial_State Next_Examples
begin

text \<open>
  The state space of the generated model: what the model checker finds from the initial state
  by calling \<open>dmc_nextstates\<close> on states found before, in any order, over one store.
\<close>

section \<open>Byte vectors determine states\<close>

lemma bytes_word_inject:
  "bytes_u32 a = bytes_u32 b \<longleftrightarrow> a = b" "bytes_u64 c = bytes_u64 d \<longleftrightarrow> c = d"
  by (metis u32_of_bytes_u32, metis u64_of_bytes_u64)

lemma process_bytes_inject:
  assumes "length (p_r p) = length (p_r q)" and "process_bytes p = process_bytes q"
  shows "p = q"
  using assms by (simp add: process_bytes_def append_eq_append_conv bytes_word_inject process.equality)

lemma length_process_bytes_eq:
  "length (process_bytes p) = 32 + (length (p_r p) + (8 - length (p_r p) mod 8) mod 8)"
  by (simp add: process_bytes_def)

lemma concat_process_bytes_inject:
  assumes "length ps = length qs" and "\<forall>p \<in> set ps \<union> set qs. length (p_r p) = n"
    and "concat (map process_bytes ps) = concat (map process_bytes qs)"
  shows "ps = qs"
  using assms
proof (induction ps qs rule: list_induct2)
  case (Cons p ps q qs)
  have "process_bytes p = process_bytes q \<and> concat (map process_bytes ps) = concat (map process_bytes qs)"
    using Cons.prems by (simp add: append_eq_append_conv length_process_bytes_eq)
  with Cons show ?case
    by (auto intro: process_bytes_inject)
qed simp

lemma sv_bytes_eqD:
  assumes "sv_wf env a" and "sv_wf env b" and "sv_bytes a = sv_bytes b"
  shows "a = b"
proof -
  have "sv_processes a = sv_processes b"
    by (rule concat_process_bytes_inject [of _ _ "en_regs env"])
      (use assms in \<open>auto simp: sv_wf_def sv_bytes_def\<close>)
  with assms(3) show ?thesis
    by (simp add: sv_bytes_def bytes_word_inject statevector.equality)
qed

text \<open>
  The bytes of a state vector determine the state: two different states of the right shape
  are never taken for the same by the search, which compares bytes.
\<close>

lemma sv_bytes_inj: "inj_on sv_bytes {sv. sv_wf env sv}"
  by (rule inj_onI) (simp add: sv_bytes_eqD)

section \<open>Exploration\<close>

text \<open>
  \<open>explored D s\<close>: the search has found the states \<open>D\<close> and the store is \<open>s\<close>.  A state is
  expanded by the source state its bytes stand for.
\<close>

inductive explored :: "'s env \<Rightarrow> u64 \<Rightarrow> 's \<Rightarrow> bytes set \<Rightarrow> 's \<Rightarrow> bool" for env start s0 where
  initial: "dmc_initialstate env start s0 = Ok (sv, s) \<Longrightarrow> explored env start s0 {sv_bytes sv} s"
| expand: "explored env start s0 D s \<Longrightarrow> sv_bytes sv \<in> D \<Longrightarrow> sv_wf env sv \<Longrightarrow>
    generateGetNextAllDMC env sv s = Some (Next ds s') \<Longrightarrow> explored env start s0 (D \<union> set ds) s'"

inductive_cases explored_cases: "explored env start s0 D s"

lemma dmc_initialstate_wf:
  assumes "dmc_initialstate env start s0 = Ok (sv, s)"
  shows "sv_wf env sv" and "sv_status sv = 0" and "p_pc (sv_processes sv ! 0) = 0"
proof -
  from assms obtain buf where b: "store_initializers env start (m_globals (gn_module (en_gen env)))
      (replicate (unat (globals_aligned_size env)) 0) = Ok buf"
    by (auto simp: dmc_initialstate_def Let_def outcome_simps)
  obtain i s' where "insertB (en_api env) s0 buf = (i, s')"
    by (metis prod.exhaust)
  with assms b have "sv = \<lparr>sv_status = 0, sv_threadsStarted = 1, sv_tres = 0,
     sv_processes = (replicate MAX_THREADS \<lparr>p_status = 0, p_tid = 0, p_pc = 0, p_msize = 0,
       p_stk = getEmptyStack, p_r = replicate (en_regs env) 0, p_m = 0\<rparr>)
       [0 := \<lparr>p_status = 0, p_tid = 0, p_pc = 0, p_msize = globals_aligned_size env,
         p_stk = getEmptyStack, p_r = replicate (en_regs env) 0, p_m = i\<rparr>]\<rparr>"
    by (auto simp: dmc_initialstate_def generateInitialState_def Let_def)
  then show "sv_status sv = 0" and "p_pc (sv_processes sv ! 0) = 0" and "sv_wf env sv"
    by (auto simp: sv_wf_def simp del: list_update_code dest!: subsetD [OF set_update_subset_insert])
qed

lemma explored_states:
  assumes "explored env start s0 D s" and "d \<in> D"
  shows "\<exists>sv. d = sv_bytes sv \<and> sv_wf env sv
    \<and> sv_status sv \<in> status_code ` {START, RUNNING_CONSTRUCTORS, STARTING_MAIN, RUNNING_MAIN, ENDED}"
  using assms
proof (induction arbitrary: d rule: explored.induct)
  case (initial sv s)
  with dmc_initialstate_wf [OF initial(1)] show ?case by auto
next
  case (expand D s sv ds s')
  show ?case
  proof (cases "d \<in> D")
    case True
    with expand.IH show ?thesis .
  next
    case False
    with expand.prems have d: "d \<in> set ds" by simp
    from expand.IH [OF expand.hyps(2)] sv_bytes_eqD [OF expand.hyps(3)]
    have st: "sv_status sv \<in> {0, 1, 2, 3, 4}" by auto
    have "sv_status sv \<noteq> 4"
      using expand.hyps(4) d by (auto simp: generateGetNextAllDMC_def)
    with st next_states_well_formed [OF expand.hyps(3,4) d] show ?thesis by auto
  qed
qed

text \<open>
  C3: every state the search can find is a state vector of the right shape whose status is one
  of START, RUNNING_CONSTRUCTORS, STARTING_MAIN, RUNNING_MAIN and ENDED.  In particular the
  status ENDED_FAILURE is never found, whatever the program does: neither \<open>__assert_fail\<close> nor
  \<open>__LLMCOS_Fatal\<close> is visible in the state space.
\<close>

theorem failure_never_found:
  assumes "explored env start s0 D s" and "d \<in> D"
  shows "\<exists>sv. d = sv_bytes sv \<and> sv_wf env sv
    \<and> sv_status sv \<in> status_code ` {START, RUNNING_CONSTRUCTORS, STARTING_MAIN, RUNNING_MAIN, ENDED}
    \<and> sv_status sv \<noteq> status_code ENDED_FAILURE"
  using explored_states [OF assms] by auto

text \<open>The loop program: its initial state and the next one, in which the constructors run.\<close>

theorem failure_never_found_witness:
  "\<exists>D s sv. explored spin_env 4096 tree_store_new D s \<and> sv_bytes (sv\<lparr>sv_status := 1\<rparr>) \<in> D
    \<and> sv_status sv = 0 \<and> (\<exists>sv'. sv_bytes (sv\<lparr>sv_status := 1\<rparr>) = sv_bytes sv' \<and> sv_status sv' \<noteq> status_code ENDED_FAILURE)"
proof -
  obtain sv s where init: "dmc_initialstate spin_env 4096 tree_store_new = Ok (sv, s)"
    by (cases "insertB (en_api spin_env) tree_store_new (replicate (unat (globals_aligned_size spin_env)) 0)")
      (auto simp: dmc_initialstate_def spin_gen Let_def)
  note wf = dmc_initialstate_wf [OF init]
  have no: "getFunction \<lparr>m_globals = [], m_functions = [spin_func]\<rparr> ''_GLOBAL__sub_I_test.cpp'' = None"
    by (simp add: getFunction_def spin_func_def)
  have "generateGetNextAllDMC spin_env sv s = Some (Next [sv_bytes (sv\<lparr>sv_status := 1\<rparr>)] s)"
    using wf(2) no by (simp add: generateGetNextAllDMC_def report_started_def generateConstructorStart_def
        generateContextAndSetupCode_def spin_gen uploadTransition_succeeds)
  from explored.expand [OF explored.initial [OF init] _ wf(1) this]
  have "explored spin_env 4096 tree_store_new ({sv_bytes sv} \<union> {sv_bytes (sv\<lparr>sv_status := 1\<rparr>)}) s"
    by simp
  with failure_never_found [OF this, of "sv_bytes (sv\<lparr>sv_status := 1\<rparr>)"] wf(2) show ?thesis
    by blast
qed

end
