(* ===== verification/End_States.thy ===== *)
theory End_States
  imports Main_Program State_Space
begin

text \<open>
  The report on the end states that \<open>goDMC\<close> prints, and what it says about the program: slot 6 of
  a state vector is the program counter of process 0.
\<close>

section \<open>The report\<close>

text \<open>The model checker's states are vectors of 32-bit slots; a state without slot 6 is read out of bounds.\<close>

fun count_end_states :: "u32 list list \<Rightarrow> nat \<Rightarrow> nat outcome" where
  "count_end_states [] endStatesError = Ok endStatesError"
| "count_end_states (buffer # endStates) endStatesError =
     (if length buffer \<le> 6 then Fail BadAccess
      else count_end_states endStates (if buffer ! 6 \<noteq> 0 then endStatesError + 1 else endStatesError))"

text \<open>The numbers of end states that are OK and with issues.\<close>

definition goDMC_end_states :: "u32 list list \<Rightarrow> (nat \<times> nat) outcome" where
  "goDMC_end_states endStates =
     obind (count_end_states endStates 0) (\<lambda>endStatesError. Ok (length endStates - endStatesError, endStatesError))"

lemma count_end_states_filter:
  "\<forall>b \<in> set es. 6 < length b \<Longrightarrow> count_end_states es n = Ok (n + length (filter (\<lambda>b. b ! 6 \<noteq> 0) es))"
  by (induction es arbitrary: n) auto

lemma goDMC_end_states_filter:
  assumes "\<forall>b \<in> set es. 6 < length b"
  shows "goDMC_end_states es = Ok (length (filter (\<lambda>b. b ! 6 = 0) es), length (filter (\<lambda>b. b ! 6 \<noteq> 0) es))"
  using count_end_states_filter [OF assms, of 0] sum_length_filter_compl [of "\<lambda>b. b ! 6 = 0" es]
  by (simp add: goDMC_end_states_def)

section \<open>Slots of a state vector\<close>

definition slots_of :: "bytes \<Rightarrow> u32 list" where
  "slots_of bs = map (\<lambda>i. u32_of (bytes_at (4 * i) 4 bs)) [0..<length bs div 4]"

abbreviation first_pc :: "statevector \<Rightarrow> u32" where
  "first_pc sv \<equiv> p_pc (sv_processes sv ! 0)"

lemma slot_6:
  assumes "sv_wf env sv"
  shows "6 < length (slots_of (sv_bytes sv))" and "slots_of (sv_bytes sv) ! 6 = first_pc sv"
proof -
  obtain p ps where ps: "sv_processes sv = p # ps"
    using assms by (cases "sv_processes sv") (auto simp: sv_wf_def)
  let ?rest = "bytes_u32 (p_msize p) @ bytes_u64 (p_stk p) @ p_r p
     @ replicate ((8 - length (p_r p) mod 8) mod 8) 0 @ bytes_u64 (p_m p) @ concat (map process_bytes ps)"
  have bytes: "sv_bytes sv = (bytes_u32 (sv_status sv) @ bytes_u32 (sv_threadsStarted sv) @ bytes_u64 (sv_tres sv)
      @ bytes_u32 (p_status p) @ bytes_u32 (p_tid p)) @ bytes_u32 (p_pc p) @ ?rest"
    by (simp add: sv_bytes_def ps process_bytes_def)
  have "28 \<le> length (sv_bytes sv)"
    unfolding bytes by simp
  then have "7 \<le> length (sv_bytes sv) div 4"
    using div_le_mono [of 28 "length (sv_bytes sv)" 4] by simp
  then show "6 < length (slots_of (sv_bytes sv))"
    by (simp add: slots_of_def)
  have "bytes_at 24 4 (sv_bytes sv) = bytes_u32 (p_pc p)"
    unfolding bytes by (simp add: bytes_at_def)
  then show "slots_of (sv_bytes sv) ! 6 = first_pc sv"
    using \<open>7 \<le> length (sv_bytes sv) div 4\<close> by (simp add: slots_of_def ps)
qed

text \<open>
  C40: for states the search has found, the report counts as OK exactly the end states in which process 0 has
  terminated, and as states with issues those in which it still has a program counter.
\<close>

theorem end_states_report:
  assumes "explored env start s0 D s" and "set es \<subseteq> D"
  shows "\<exists>svs. es = map sv_bytes svs \<and> (\<forall>sv \<in> set svs. sv_wf env sv)
    \<and> goDMC_end_states (map slots_of es)
      = Ok (length (filter (\<lambda>sv. first_pc sv = 0) svs), length (filter (\<lambda>sv. first_pc sv \<noteq> 0) svs))"
proof -
  have "\<forall>d \<in> set es. \<exists>sv. d = sv_bytes sv \<and> sv_wf env sv"
    using explored_states [OF assms(1)] assms(2) by blast
  then obtain f where f: "\<forall>d \<in> set es. d = sv_bytes (f d) \<and> sv_wf env (f d)" by metis
  then have "es = map sv_bytes (map f es)" and "\<forall>sv \<in> set (map f es). sv_wf env sv"
    by (simp_all add: map_idI)
  then obtain svs where es: "es = map sv_bytes svs" and wf: "\<forall>sv \<in> set svs. sv_wf env sv" by blast
  have slots: "length (filter (\<lambda>b. P (b ! 6)) (map slots_of (map sv_bytes svs))) = length (filter (\<lambda>sv. P (first_pc sv)) svs)"
    for P
    using wf by (induction svs) (auto simp: slot_6)
  have "\<forall>b \<in> set (map slots_of es). 6 < length b"
    using wf slot_6(1) by (auto simp: es)
  from goDMC_end_states_filter [OF this] slots [of "\<lambda>x. x = 0"] slots [of "\<lambda>x. x \<noteq> 0"]
  have "goDMC_end_states (map slots_of es)
      = Ok (length (filter (\<lambda>sv. first_pc sv = 0) svs), length (filter (\<lambda>sv. first_pc sv \<noteq> 0) svs))"
    by (simp add: es)
  with es wf show ?thesis by blast
qed

text \<open>The report on the initial state of the loop program, whose process 0 has not started.\<close>

theorem end_states_report_witness:
  "\<exists>D s d. explored spin_env 4096 tree_store_new D s \<and> d \<in> D \<and> goDMC_end_states (map slots_of [d]) = Ok (1, 0)"
proof -
  obtain sv s where init: "dmc_initialstate spin_env 4096 tree_store_new = Ok (sv, s)"
    by (cases "insertB (en_api spin_env) tree_store_new (replicate (unat (globals_aligned_size spin_env)) 0)")
      (auto simp: dmc_initialstate_def spin_gen Let_def)
  note found = explored.initial [OF init] and wf = dmc_initialstate_wf [OF init]
  have "set [sv_bytes sv] \<subseteq> {sv_bytes sv}" by simp
  from end_states_report [OF found this] obtain svs where svs: "[sv_bytes sv] = map sv_bytes svs"
    "\<forall>sv \<in> set svs. sv_wf spin_env sv" and report: "goDMC_end_states (map slots_of [sv_bytes sv])
      = Ok (length (filter (\<lambda>sv. first_pc sv = 0) svs), length (filter (\<lambda>sv. first_pc sv \<noteq> 0) svs))"
    by (elim exE conjE) (rule that)
  from svs obtain sv' where "svs = [sv']" "sv_bytes sv = sv_bytes sv'" "sv_wf spin_env sv'" by auto
  with sv_bytes_eqD [OF wf(1)] have "svs = [sv]" by blast
  with report wf(3) found show ?thesis
    by (intro exI [of _ "{sv_bytes sv}"] exI [of _ s] exI [of _ "sv_bytes sv"]) simp
qed

end
