(* ===== verification/Default_Groups.thy ===== *)
theory Default_Groups
  imports Next_Examples
begin

text \<open>
  The two default transition groups of \<open>createDefaultTransitionGroups\<close>, given by code instead of instructions: the
  start of the constructors and the start of \<open>main\<close>.  The switch of \<open>model_step\<close> has no case for them
  (\<open>group_case\<close>); \<open>dmc_nextstates\<close> uses \<open>generateConstructorStart\<close> and \<open>generateMainStart\<close>.  Here the code of the
  groups is compared with these.
\<close>

section \<open>The code of the groups\<close>

text \<open>The check that the program is before the given stage and no process runs.\<close>

definition default_group_cond :: "u32 \<Rightarrow> statevector \<Rightarrow> bool" where
  "default_group_cond status src \<longleftrightarrow> sv_status src = status
     \<and> list_all (\<lambda>i. p_pc (sv_processes src ! i) = 0) [0..<MAX_THREADS]"

definition default_group_start :: "lambda_group \<Rightarrow> 's env \<Rightarrow> 's gctx \<Rightarrow> 's gctx outcome" where
  "default_group_start l env gc =
     (case l of
        ConstructorsGroup \<Rightarrow>
          (case getFunction (gn_module (en_gen env)) ''_GLOBAL__sub_I_test.cpp'' of
             Some F \<Rightarrow> pushStackFrame env F [] None 0 gc | None \<Rightarrow> Ok gc)
      | MainGroup \<Rightarrow>
          obind (of_option BadAccess (getFunction (gn_module (en_gen env)) ''main''))
            (\<lambda>F. pushStackFrame env F [] None 0 gc))"

definition createDefaultTransitionGroups_run :: "lambda_group \<Rightarrow> 's env \<Rightarrow> statevector \<Rightarrow> 's \<Rightarrow> 's run" where
  "createDefaultTransitionGroups_run l env src s =
     (let (before, after) = (case l of ConstructorsGroup \<Rightarrow> (0, 1) | MainGroup \<Rightarrow> (1, 2));
          gc = \<lparr>gc_thread = 0, gc_src = src, gc_svout = src, gc_store = s\<rparr>
      in if \<not> default_group_cond before src then Quiet s
         else case default_group_start l env gc of
             Ok gc \<Rightarrow> Continue (upd_sv (\<lambda>sv. sv\<lparr>sv_status := after\<rparr>) gc)
           | NoReport \<Rightarrow> Quiet s
           | Fail e \<Rightarrow> Broken e)"

section \<open>Comparison with the starts that are used\<close>

text \<open>In a state in which no process runs, the first group does what \<open>dmc_nextstates\<close> does at START.\<close>

lemma constructors_group_agrees:
  assumes "default_group_cond (status_code START) src"
  shows "generateGetNextAllDMC env src s = Some
    (case createDefaultTransitionGroups_run ConstructorsGroup env src s of
       Continue gc \<Rightarrow> Next [sv_bytes (gc_svout gc)] (gc_store gc)
     | Quiet s' \<Rightarrow> Next [] s' | Broken e \<Rightarrow> Crash e)"
proof -
  have "default_group_start ConstructorsGroup env (generateContextAndSetupCode 0 src s) = generateConstructorStart env src s"
    by (simp add: default_group_start_def generateConstructorStart_def Let_def)
  with assms show ?thesis
    by (cases "generateConstructorStart env src s")
      (simp_all add: generateGetNextAllDMC_def default_group_cond_def report_started_def uploadTransition_succeeds
        createDefaultTransitionGroups_run_def generateContextAndSetupCode_def)
qed

lemma process_loop_idle:
  assumes "\<forall>t \<in> set ts. p_pc (sv_processes src ! t) = 0"
  shows "process_loop env src ts s = Some (Next [] s)"
  using assms by (induction ts) (simp_all add: generateStepProcess_def generateContextAndSetupCode_def pc_of_def)

lemma default_group_cond_idle:
  "default_group_cond st src \<longleftrightarrow> sv_status src = st \<and> (\<forall>t < MAX_THREADS. p_pc (sv_processes src ! t) = 0)"
  by (auto simp: default_group_cond_def list_all_iff)

text \<open>
  The constants of the second group are those of an enumeration without STARTING_MAIN.  It runs in the state in
  which the constructors have ended, calls \<open>main\<close> and sets the status STARTING_MAIN.  There \<open>dmc_nextstates\<close> sets the
  same status without a call, and in the state of the group it would call \<open>main\<close> once more.
\<close>

lemma main_group_differs:
  assumes "default_group_cond (status_code RUNNING_CONSTRUCTORS) src"
    and "createDefaultTransitionGroups_run MainGroup env src s = Continue gc"
  shows "generateGetNextAllDMC env src s = Some (Next [sv_bytes (src\<lparr>sv_status := status_code STARTING_MAIN\<rparr>)] s)"
    and "\<exists>F loc. getFunction (gn_module (en_gen env)) ''main'' = Some F \<and> entry_location (en_gen env) F = Some loc
      \<and> p_pc (sv_processes (gc_svout gc) ! 0) = word_of_nat loc"
    and "generateGetNextAllDMC env (gc_svout gc) (gc_store gc)
      = Some (report_started RUNNING_MAIN (generateMainStart env (gc_svout gc) (gc_store gc)) (gc_store gc))"
proof -
  show "generateGetNextAllDMC env src s = Some (Next [sv_bytes (src\<lparr>sv_status := status_code STARTING_MAIN\<rparr>)] s)"
    using assms(1) by (simp add: generateGetNextAllDMC_def default_group_cond_idle process_loop_idle put_status)
  from assms obtain F gc' where F: "getFunction (gn_module (en_gen env)) ''main'' = Some F"
    and push: "pushStackFrame env F [] None 0 (generateContextAndSetupCode 0 src s) = Ok gc'"
    and gc: "gc = upd_sv (\<lambda>sv. sv\<lparr>sv_status := 2\<rparr>) gc'"
    by (auto simp: createDefaultTransitionGroups_run_def default_group_start_def Let_def outcome_simps
        generateContextAndSetupCode_def split: if_splits outcome.splits)
  from push obtain loc where "entry_location (en_gen env) F = Some loc"
    and "p_pc (sv_processes (gc_svout gc') ! 0) = word_of_nat loc"
    by (auto simp: pushStackFrame_def saveCaller_def outcome_simps set_pc_def split: if_splits)
  with F gc show "\<exists>F loc. getFunction (gn_module (en_gen env)) ''main'' = Some F
      \<and> entry_location (en_gen env) F = Some loc \<and> p_pc (sv_processes (gc_svout gc) ! 0) = word_of_nat loc"
    by auto
  show "generateGetNextAllDMC env (gc_svout gc) (gc_store gc)
      = Some (report_started RUNNING_MAIN (generateMainStart env (gc_svout gc) (gc_store gc)) (gc_store gc))"
    by (simp add: gc generateGetNextAllDMC_def)
qed

end
