(* ===== verification/String_Builder.thy ===== *)
theory String_Builder
  imports Prelude
begin

text \<open>
  \<open>IRStringBuilder\<close> of libllmc/include/llmc/llvmgen.h: the code it generates prints pieces of text into a buffer
  of a fixed size with \<open>snprintf\<close>, here run on the buffer.  A piece is the text its format gives.
\<close>

record string_builder =
  sb_out :: bytes
  sb_written :: u64
  sb_max :: u64

definition IRStringBuilder_new :: "(nat \<Rightarrow> byte) \<Rightarrow> nat \<Rightarrow> string_builder" where
  "IRStringBuilder_new junk max_chars =
     \<lparr>sb_out = map junk [0..<max_chars], sb_written = 0, sb_max = word_of_nat max_chars\<rparr>"

text \<open>
  \<open>snprintf\<close> of the C library: at most \<open>n\<close> bytes with the final zero are written at \<open>p\<close>, and the length of the whole
  text is returned; with \<open>n = 0\<close> nothing is written.
\<close>

definition snprintf_at :: "nat \<Rightarrow> nat \<Rightarrow> bytes \<Rightarrow> bytes \<Rightarrow> (u32 \<times> bytes) outcome" where
  "snprintf_at p n s out =
     (if n = 0 then Ok (word_of_nat (length s), out)
      else (let tx = take (n - 1) s @ [0]
        in if length out < p + length tx then Fail BadAccess
           else Ok (word_of_nat (length s), put_at p tx out)))"

definition IRStringBuilder_append :: "bytes \<Rightarrow> string_builder \<Rightarrow> string_builder outcome" where
  "IRStringBuilder_append s sb =
     (let remaining = sb_max sb - sb_written sb
      in obind (snprintf_at (unat (sb_written sb)) (unat remaining) s (sb_out sb)) (\<lambda>(written_here, out).
           Ok (sb\<lparr>sb_out := out, sb_written := sb_written sb + ucast written_here\<rparr>)))"

fun IRStringBuilder_appends :: "bytes list \<Rightarrow> string_builder \<Rightarrow> string_builder outcome" where
  "IRStringBuilder_appends [] sb = Ok sb"
| "IRStringBuilder_appends (s # ss) sb = obind (IRStringBuilder_append s sb) (IRStringBuilder_appends ss)"

section \<open>Numbers\<close>

text \<open>
  The operators for a constant and for a value of the generated code print a number with the format \<open>%i\<close>; both make an
  integer of 32 bits of it first.
\<close>

fun decimal :: "nat \<Rightarrow> string" where
  "decimal n = (if n < 10 then [char_of (48 + n)] else decimal (n div 10) @ [char_of (48 + n mod 10)])"

declare decimal.simps [simp del]

definition decimal_int :: "int \<Rightarrow> string" where
  "decimal_int i = (if i < 0 then ''-'' @ decimal (nat (- i)) else decimal (nat i))"

definition c_text :: "string \<Rightarrow> bytes" where
  "c_text s = map of_char s"

definition IRStringBuilder_append_value :: "u32 \<Rightarrow> string_builder \<Rightarrow> string_builder outcome" where
  "IRStringBuilder_append_value value = IRStringBuilder_append (c_text (decimal_int (sint value)))"

definition IRStringBuilder_append_int :: "int \<Rightarrow> string_builder \<Rightarrow> string_builder outcome" where
  "IRStringBuilder_append_int i = IRStringBuilder_append_value (word_of_int i)"

definition printable :: "string \<Rightarrow> bool" where
  "printable s \<longleftrightarrow> CHR 0x00 \<notin> set s"

lemma length_decimal: "n < 10 ^ Suc k \<Longrightarrow> length (decimal n) \<le> Suc k"
proof (induction k arbitrary: n)
  case (Suc k)
  show ?case
  proof (cases "n < 10")
    case False
    have "n div 10 < 10 ^ Suc k"
      using Suc.prems by (simp add: div_less_iff_less_mult)
    from Suc.IH [OF this] False show ?thesis
      by (simp add: decimal.simps [of n])
  qed (simp add: decimal.simps)
qed (simp add: decimal.simps)

lemma of_char_nonzero: "c \<noteq> CHR 0x00 \<Longrightarrow> (of_char c :: byte) \<noteq> 0"
proof
  assume c: "c \<noteq> CHR 0x00" and "(of_char c :: byte) = 0"
  then have "word_of_nat (of_char c) = (0 :: byte)"
    by (simp only: of_nat_of_char)
  then have "(of_char c :: nat) mod 256 = 0"
    by (simp only: word_of_nat_eq_0_iff) (simp del: of_char_mod_256)
  then have "of_char c = (0 :: nat)"
    by (simp only: of_char_mod_256)
  then have "of_char c = (of_char (CHR 0x00) :: nat)"
    by simp
  with c show False
    by (simp only: of_char_eq_iff)
qed

lemma c_text_nonzero: "printable s \<Longrightarrow> 0 \<notin> set (c_text s)"
  unfolding printable_def c_text_def set_map by (metis imageE of_char_nonzero)

lemma printable_digit: "d < 10 \<Longrightarrow> char_of (48 + d :: nat) \<noteq> CHR 0x00"
proof
  assume d: "d < 10" and "char_of (48 + d) = CHR 0x00"
  then have "of_char (char_of (48 + d)) = (of_char (CHR 0x00) :: nat)" by simp
  with d show False by (simp only: of_char_of) simp
qed

lemma printable_decimal: "printable (decimal n)"
proof (induction n rule: decimal.induct)
  case (1 n)
  show ?case
  proof (cases "n < 10")
    case True
    then show ?thesis
      using printable_digit [of n] by (simp add: printable_def decimal.simps [of n] del: char_of_nat)
  next
    case False
    then show ?thesis
      using 1 printable_digit [of "n mod 10"] by (simp add: printable_def decimal.simps [of n] del: char_of_nat)
  qed
qed

lemma decimal_value: "n < 2 ^ 31 \<Longrightarrow> decimal_int (sint (word_of_nat n :: u32)) = decimal n"
  by (simp add: decimal_int_def signed_of_nat signed_take_bit_int_eq_self)

section \<open>Text that fits\<close>

definition holds_text :: "nat \<Rightarrow> bytes \<Rightarrow> string_builder \<Rightarrow> bool" where
  "holds_text n tx sb \<longleftrightarrow> length (sb_out sb) = n \<and> sb_max sb = word_of_nat n \<and> sb_written sb = word_of_nat (length tx)
     \<and> take (length tx) (sb_out sb) = tx \<and> length tx \<le> n \<and> n < 2 ^ 31"

lemma append_fits:
  assumes "holds_text n tx sb" and "length tx + length s < n"
  obtains sb' where "IRStringBuilder_append s sb = Ok sb'" and "holds_text n (tx @ s) sb'"
    and "sb_out sb' ! (length tx + length s) = 0"
proof -
  have small: "length tx < 2 ^ 31" "length s < 2 ^ 31" "n < 2 ^ 31"
    using assms by (auto simp: holds_text_def)
  have w: "unat (sb_written sb) = length tx"
    using assms(1) small by (simp add: holds_text_def unat_of_nat)
  have r: "unat (sb_max sb - sb_written sb) = n - length tx"
    using assms small by (simp add: holds_text_def unat_sub word_le_nat_alt unat_of_nat)
  have c: "ucast (word_of_nat (length s) :: u32) = (word_of_nat (length s) :: u64)"
    using small by (simp add: word_unat_eq_iff unat_of_nat unsigned_ucast_eq take_bit_eq_mod)
  let ?out = "put_at (length tx) (s @ [0]) (sb_out sb)"
  have "take (n - length tx - 1) s = s"
    using assms(2) by simp
  then have "snprintf_at (length tx) (n - length tx) s (sb_out sb) = Ok (word_of_nat (length s), ?out)"
    using assms by (simp add: snprintf_at_def holds_text_def)
  then have run: "IRStringBuilder_append s sb
      = Ok (sb\<lparr>sb_out := ?out, sb_written := sb_written sb + word_of_nat (length s)\<rparr>)"
    by (simp add: IRStringBuilder_append_def w r c)
  have out: "?out = tx @ s @ [0] @ drop (length tx + length s + 1) (sb_out sb)"
    using assms(1) by (simp add: put_at_def holds_text_def)
  with assms have "holds_text n (tx @ s) (sb\<lparr>sb_out := ?out, sb_written := sb_written sb + word_of_nat (length s)\<rparr>)"
    by (simp add: holds_text_def)
  moreover have "?out ! (length tx + length s) = 0"
    by (simp add: out nth_append)
  ultimately show thesis
    using run that by simp
qed

text \<open>Pieces that fit together with the final zero are found in the buffer one behind the other.\<close>

lemma appends_fit:
  assumes "holds_text n tx sb" and "length tx + length (concat ss) < n"
  shows "\<exists>sb'. IRStringBuilder_appends ss sb = Ok sb' \<and> holds_text n (tx @ concat ss) sb'"
  using assms
proof (induction ss arbitrary: tx sb)
  case (Cons s ss)
  then have "length tx + length s < n" by simp
  then obtain sb' where "IRStringBuilder_append s sb = Ok sb'" and "holds_text n (tx @ s) sb'"
    using append_fits [OF Cons.prems(1)] by metis
  with Cons.IH [of "tx @ s" sb'] Cons.prems(2) show ?case by simp
qed simp

text \<open>
  A piece that was cut off counts with its whole length, so what remains wraps around: the next piece is
  written behind the buffer.
\<close>

lemma append_overflows:
  assumes "holds_text n tx sb" and "n \<le> length tx + length s" and "length s < 2 ^ 31" and "n \<noteq> length tx + length s"
    and "length tx < n"
  shows "\<exists>sb'. IRStringBuilder_append s sb = Ok sb' \<and> IRStringBuilder_append s' sb' = Fail BadAccess"
proof -
  have small: "length tx < 2 ^ 31" "n < 2 ^ 31"
    using assms by (auto simp: holds_text_def)
  have w: "unat (sb_written sb) = length tx"
    using assms(1) small by (simp add: holds_text_def unat_of_nat)
  have r: "unat (sb_max sb - sb_written sb) = n - length tx"
    using assms small by (simp add: holds_text_def unat_sub word_le_nat_alt unat_of_nat)
  have c: "ucast (word_of_nat (length s) :: u32) = (word_of_nat (length s) :: u64)"
    using assms(3) by (simp add: word_unat_eq_iff unat_of_nat unsigned_ucast_eq take_bit_eq_mod)
  let ?tx = "take (n - length tx - 1) s @ [0]"
  let ?sb = "sb\<lparr>sb_out := put_at (length tx) ?tx (sb_out sb), sb_written := sb_written sb + word_of_nat (length s)\<rparr>"
  have len: "length ?tx = n - length tx"
    using assms(2,5) by simp
  have "snprintf_at (length tx) (n - length tx) s (sb_out sb)
      = Ok (word_of_nat (length s), put_at (length tx) ?tx (sb_out sb))"
    using assms(1,5) len by (simp add: snprintf_at_def holds_text_def)
  then have run: "IRStringBuilder_append s sb = Ok ?sb"
    by (simp add: IRStringBuilder_append_def w r c)
  have w': "unat (sb_written ?sb) = length tx + length s"
  proof -
    have "sb_written ?sb = word_of_nat (length tx + length s)"
      using assms(1) by (simp add: holds_text_def)
    then show ?thesis
      using assms(3) small by (simp only: unat_of_nat) simp
  qed
  moreover have "unat (sb_max ?sb) = n"
    using assms(1) small by (simp add: holds_text_def unat_of_nat)
  ultimately have "sb_max ?sb - sb_written ?sb \<noteq> 0"
    using assms(4) by (metis right_minus_eq)
  then have "unat (sb_max ?sb - sb_written ?sb) \<noteq> 0"
    by (simp add: unat_eq_0)
  moreover have "length (sb_out ?sb) = n"
    using assms(1,5) len by (simp add: holds_text_def length_put_at)
  ultimately have "IRStringBuilder_append s' ?sb = Fail BadAccess"
    using assms(2) by (simp only: IRStringBuilder_append_def snprintf_at_def w' Let_def) simp
  with run show ?thesis by blast
qed

end
