(* ===== verification/LTS_Slots.thy ===== *)
theory LTS_Slots
  imports State_Layout String_Builder
begin

text \<open>
  The description of the state vector for LTSmin: \<open>generateLTSTypeCallsForSVTree\<close> and \<open>generateLTSType\<close> of
  LLDMCModelGenerator.h flatten the tree of variables into slots of four bytes and give every slot a type and a name.
  No other function calls them any more.  What is described here is compared with the layout of the state vector
  that the model uses (\<open>State_Layout\<close>).
\<close>

section \<open>Names of variables\<close>

text \<open>A node is given with its ancestors, from the node up to the root.\<close>

fun getFullName :: "svtree list \<Rightarrow> string" where
  "getFullName (n # parent # up) =
     (let pname = getFullName (parent # up)
      in if sn_name n = '''' then pname @ ''['' @ decimal (sn_index n) @ '']''
         else if pname = '''' then sn_name n
         else pname @ ''_'' @ sn_name n)"
| "getFullName path = ''''"

fun leaf_paths :: "svtree list \<Rightarrow> svtree \<Rightarrow> svtree list list" where
  "leaf_paths up (SVNode name tn i type a dyn cs) =
     (if cs = [] then [SVNode name tn i type a dyn cs # up]
      else concat (map (leaf_paths (SVNode name tn i type a dyn cs # up)) cs))"

lemma executeLeaves_paths: "map hd (leaf_paths up t) = executeLeaves t"
proof (induction t arbitrary: up)
  case (SVNode name tn i type a dyn cs)
  then have "map hd (concat (map (leaf_paths x) cs)) = concat (map executeLeaves cs)" for x
    by (induction cs) auto
  then have "map hd (leaf_paths up (SVNode name tn i type a dyn cs)) = concat (map executeLeaves cs)" if "cs \<noteq> []"
    using that by (simp del: concat.simps list.map)
  then show ?case by (cases cs) simp_all
qed

section \<open>The calls for a tree\<close>

text \<open>
  The code built for a leaf writes the name and, behind it, the number of the slot within the variable into a buffer
  of 256 bytes; a variable of one slot has the plain name.
\<close>

definition slot_name :: "svtree list \<Rightarrow> nat \<Rightarrow> bytes \<Rightarrow> (bytes \<times> bytes) outcome" where
  "slot_name path tg buf =
     obind (IRStringBuilder_append (c_text (getFullName path)) \<lparr>sb_out = buf, sb_written = 0, sb_max = 256\<rparr>) (\<lambda>irs.
     obind (IRStringBuilder_append_value (word_of_nat tg) irs) (\<lambda>irs.
       Ok (if getSizeValueInSlots (hd path) = 1 then c_text (getFullName path) else takeWhile (\<lambda>b. b \<noteq> 0) (sb_out irs),
           sb_out irs)))"

text \<open>A call sets the type and the name of a slot; the loop of a leaf runs over the slots of the variable.\<close>

type_synonym slot_call = "u32 \<times> nat \<times> bytes"

fun leaf_calls :: "svtree list \<Rightarrow> nat \<Rightarrow> nat list \<Rightarrow> u32 \<Rightarrow> bytes \<Rightarrow> (slot_call list \<times> u32) outcome" where
  "leaf_calls path typeno [] slot buf = Ok ([], slot)"
| "leaf_calls path typeno (tg # tgs) slot buf =
     obind (slot_name path tg buf) (\<lambda>(name, buf).
     obind (leaf_calls path typeno tgs (slot + 1) buf) (\<lambda>(calls, slot').
       Ok ((slot, typeno, name) # calls, slot')))"

text \<open>A type that is not known to LTSmin ends the generator with \<open>exit(-1)\<close>.\<close>

fun tree_calls :: "(string \<Rightarrow> nat option) \<Rightarrow> svtree list list \<Rightarrow> u32 \<Rightarrow> (slot_call list \<times> u32) outcome" where
  "tree_calls pinsTypes [] slot = Ok ([], slot)"
| "tree_calls pinsTypes (path # paths) slot =
     (if svtree_isEmpty (hd path) then tree_calls pinsTypes paths slot
      else obind (getType (hd path)) (\<lambda>(t, _).
        case pinsTypes (st_name t) of
          None \<Rightarrow> Fail AbortCall
        | Some typeno \<Rightarrow>
            obind (leaf_calls path typeno [0..<unat (getSizeValueInSlots (hd path))] slot (replicate 256 0)) (\<lambda>(cs, slot).
            obind (tree_calls pinsTypes paths slot) (\<lambda>(cs', slot'). Ok (cs @ cs', slot')))))"

definition generateLTSTypeCallsForSVTree :: "(string \<Rightarrow> nat option) \<Rightarrow> svtree \<Rightarrow> (slot_call list \<times> u32) outcome" where
  "generateLTSTypeCallsForSVTree pinsTypes root = tree_calls pinsTypes (leaf_paths [] root) 0"

text \<open>
  \<open>generateLTSType\<close>: the number of slots of a state, the calls for the state, the number of slots of an edge label and
  the calls for it.  The loop that would enter the types into \<open>pinsTypes\<close> is commented out.
\<close>

definition slots_of_root :: "ty \<Rightarrow> u32" where
  "slots_of_root t = generateAlignedSizeOf dmc_layout t div 4"

definition generateLTSType ::
  "u32 \<Rightarrow> lts_type \<Rightarrow> (u32 \<times> slot_call list \<times> u32 \<times> slot_call list) outcome" where
  "generateLTSType statevector_size l =
     (let pinsTypes = (\<lambda>_. None)
      in obind (of_option Assertion (lts_sv l)) (\<lambda>sv.
         obind (generateLTSTypeCallsForSVTree pinsTypes sv) (\<lambda>(sv_calls, _).
         obind (of_option Assertion (lts_edgeLabels l)) (\<lambda>edges.
         obind (generateLTSTypeCallsForSVTree pinsTypes edges) (\<lambda>(edge_calls, _).
           if lts_labels l \<noteq> None then Fail Assertion
           else Ok (statevector_size div 4, sv_calls, slots_of_root (getLLVMType edges), edge_calls))))))"

section \<open>Names that fit into the buffer\<close>

text \<open>The name of slot \<open>tg\<close> of a variable.\<close>

definition pure_name :: "svtree list \<Rightarrow> nat \<Rightarrow> bytes" where
  "pure_name path tg = (if getSizeValueInSlots (hd path) = 1 then c_text (getFullName path)
     else c_text (getFullName path @ decimal tg))"

lemma takeWhile_terminated:
  assumes "take (length tx) out = tx" and "out ! length tx = 0" and "length tx < length out" and "0 \<notin> set tx"
  shows "takeWhile (\<lambda>b. b \<noteq> (0 :: byte)) out = tx"
proof -
  have "out = tx @ 0 # drop (Suc (length tx)) out"
    using assms(1-3) by (metis append_take_drop_id Cons_nth_drop_Suc)
  moreover have "takeWhile (\<lambda>b. b \<noteq> 0) (tx @ 0 # xs) = tx" for xs
    using assms(4) by (subst takeWhile_append2) auto
  ultimately show ?thesis by metis
qed

lemma slot_name_fits:
  assumes "length buf = 256" and "length (getFullName path) + length (decimal tg) < 256" and "printable (getFullName path)"
    and "tg < 2 ^ 31"
  shows "\<exists>buf'. slot_name path tg buf = Ok (pure_name path tg, buf') \<and> length buf' = 256"
proof -
  let ?full = "c_text (getFullName path)" and ?tg = "c_text (decimal tg)"
  let ?sb = "\<lparr>sb_out = buf, sb_written = 0, sb_max = 256\<rparr>"
  have sb: "holds_text 256 [] ?sb"
    using assms(1) by (simp add: holds_text_def)
  have len: "length ?full = length (getFullName path)" "length ?tg = length (decimal tg)"
    by (simp_all add: c_text_def)
  obtain sb1 where 1: "IRStringBuilder_append ?full ?sb = Ok sb1" "holds_text 256 ?full sb1"
    using append_fits [OF sb, of ?full] assms(2) len by auto
  obtain sb2 where 2: "IRStringBuilder_append ?tg sb1 = Ok sb2" "holds_text 256 (?full @ ?tg) sb2"
      "sb_out sb2 ! (length ?full + length ?tg) = 0"
    using append_fits [OF 1(2), of ?tg] assms(2) len by auto
  have "takeWhile (\<lambda>b. b \<noteq> 0) (sb_out sb2) = ?full @ ?tg"
    using 2(2,3) assms(2) len c_text_nonzero [OF assms(3)] c_text_nonzero [OF printable_decimal]
    by (intro takeWhile_terminated) (simp_all add: holds_text_def)
  moreover have "length (sb_out sb2) = 256"
    using 2(2) by (simp add: holds_text_def)
  moreover have "c_text (getFullName path @ decimal tg) = ?full @ ?tg"
    by (simp add: c_text_def)
  ultimately show ?thesis
    by (simp add: slot_name_def IRStringBuilder_append_value_def decimal_value [OF assms(4)] 1 2 pure_name_def)
qed

section \<open>All calls for a tree\<close>

abbreviation slots_of :: "svtree list \<Rightarrow> nat" where
  "slots_of path \<equiv> unat (getSizeValueInSlots (hd path))"

lemma leaf_calls_eq:
  assumes "\<forall>tg \<in> set tgs. length (getFullName path) + length (decimal tg) < 256 \<and> tg < 2 ^ 31" and "printable (getFullName path)"
    and "length buf = 256"
  shows "leaf_calls path typeno tgs slot buf
    = Ok (map (\<lambda>(k, tg). (slot + word_of_nat k, typeno, pure_name path tg)) (enumerate 0 tgs),
        slot + word_of_nat (length tgs))"
  using assms
proof (induction tgs arbitrary: slot buf)
  case (Cons tg tgs)
  obtain buf' where "slot_name path tg buf = Ok (pure_name path tg, buf')" "length buf' = 256"
    using slot_name_fits [of buf path tg] Cons.prems by auto
  moreover have "enumerate 0 (tg # tgs) = (0, tg) # map (\<lambda>(k, x). (Suc k, x)) (enumerate 0 tgs)"
    by (auto simp: enumerate_Suc_eq)
  ultimately show ?case
    using Cons.IH [of buf' "slot + 1"] Cons.prems(1,2) by (simp add: case_prod_unfold algebra_simps comp_def)
qed simp

text \<open>What a leaf needs: a type that LTSmin knows and a name that fits.\<close>

definition named_leaf :: "(string \<Rightarrow> nat option) \<Rightarrow> svtree list \<Rightarrow> bool" where
  "named_leaf pinsTypes path \<longleftrightarrow> \<not> svtree_isEmpty (hd path) \<and> printable (getFullName path)
     \<and> length (getFullName path) < 240 \<and> slots_of path < 2 ^ 31
     \<and> (\<exists>t n. getType (hd path) = Ok (t, n) \<and> pinsTypes (st_name t) \<noteq> None)"

lemma map_slot_shift:
  fixes slot :: u32
  shows "map (\<lambda>k. slot + word_of_nat n + word_of_nat k) [0..<m] = map (\<lambda>k. slot + word_of_nat k) [n..<n + m]"
  by (induction m) (simp_all add: add.assoc)

lemma tree_calls_eq:
  assumes "\<forall>path \<in> set paths. named_leaf pinsTypes path"
  shows "\<exists>calls. tree_calls pinsTypes paths slot = Ok (calls, slot + word_of_nat (sum_list (map slots_of paths)))
    \<and> map fst calls = map (\<lambda>k. slot + word_of_nat k) [0..<sum_list (map slots_of paths)]
    \<and> map (snd \<circ> snd) calls = concat (map (\<lambda>path. map (pure_name path) [0..<slots_of path]) paths)"
  using assms
proof (induction paths arbitrary: slot)
  case (Cons path paths)
  then obtain t n typeno where leaf: "\<not> svtree_isEmpty (hd path)" "getType (hd path) = Ok (t, n)"
      "pinsTypes (st_name t) = Some typeno" "printable (getFullName path)"
    and short: "length (getFullName path) < 240" "slots_of path < 2 ^ 31"
    by (auto simp: named_leaf_def)
  have fits: "length (getFullName path) + length (decimal tg) < 256 \<and> tg < 2 ^ 31" if "tg < slots_of path" for tg
    using length_decimal [of tg 9] short that by simp
  let ?n = "slots_of path"
  have calls: "leaf_calls path typeno [0..<?n] slot (replicate 256 0)
    = Ok (map (\<lambda>(k, tg). (slot + word_of_nat k, typeno, pure_name path tg)) (enumerate 0 [0..<?n]), slot + word_of_nat ?n)"
    using leaf_calls_eq [of "[0..<?n]" path "replicate 256 0"] fits leaf(4) by simp
  have prems: "\<forall>path \<in> set paths. named_leaf pinsTypes path"
    using Cons.prems by simp
  obtain cs where rest: "tree_calls pinsTypes paths (slot + word_of_nat ?n)
      = Ok (cs, slot + word_of_nat ?n + word_of_nat (sum_list (map slots_of paths)))"
    "map fst cs = map (\<lambda>k. slot + word_of_nat ?n + word_of_nat k) [0..<sum_list (map slots_of paths)]"
    "map (snd \<circ> snd) cs = concat (map (\<lambda>path. map (pure_name path) [0..<slots_of path]) paths)"
    using Cons.IH [OF prems, of "slot + word_of_nat ?n"] by (elim conjE exE) (rule that)
  have upt: "[0..<?n + m] = [0..<?n] @ [?n..<?n + m]" for m
    by (rule upt_add_eq_append) simp
  have idx: "enumerate 0 [0..<m] = map (\<lambda>k. (k, k)) [0..<m]" for m
    by (simp add: enumerate_eq_zip map_upt_eqI zip_same_conv_map)
  have "tree_calls pinsTypes (path # paths) slot
      = Ok (map (\<lambda>(k, tg). (slot + word_of_nat k, typeno, pure_name path tg)) (enumerate 0 [0..<?n]) @ cs,
          slot + word_of_nat (sum_list (map slots_of (path # paths))))"
    using leaf(1-3) calls rest(1) by (simp add: add.assoc)
  moreover have "map fst (map (\<lambda>(k, tg). (slot + word_of_nat k, typeno, pure_name path tg)) (enumerate 0 [0..<?n]) @ cs)
      = map (\<lambda>k. slot + word_of_nat k) [0..<sum_list (map slots_of (path # paths))]"
    by (simp only: map_append rest(2) list.map sum_list.Cons upt map_slot_shift) (simp add: idx)
  moreover have "map (snd \<circ> snd) (map (\<lambda>(k, tg). (slot + word_of_nat k, typeno, pure_name path tg)) (enumerate 0 [0..<?n]) @ cs)
      = concat (map (\<lambda>path. map (pure_name path) [0..<slots_of path]) (path # paths))"
    by (simp only: map_append rest(3) list.map concat.simps) (simp add: idx)
  ultimately show ?case by blast
qed simp

section \<open>The slots of the state vector\<close>

definition proc_vars :: "nat \<Rightarrow> svtree list" where
  "proc_vars slots = sn_children (proc_node slots None)"

abbreviation proc_up :: "nat \<Rightarrow> svtree list" where
  "proc_up slots \<equiv> [proc_node slots (Some (proc_type slots)),
     procs_node slots 3 (Some (procs_type slots)) (Some (proc_type slots)), typed_sv slots]"

lemma leaf_paths_var: "leaf_paths up (var n i tn t) = [var n i tn t # up]"
  by (simp add: var_def)

lemma leaf_paths_sv:
  "leaf_paths [] (typed_sv slots) =
     [[var ''status'' 0 ''status'' (IntTy 32), typed_sv slots], [var ''threadsStarted'' 1 ''tid'' (IntTy 32), typed_sv slots],
      [var ''tres'' 2 ''threadresults'' (IntTy 64), typed_sv slots]]
     @ concat (replicate MAX_THREADS (map (\<lambda>v. v # proc_up slots) (proc_vars slots)))"
proof -
  have p: "leaf_paths up (proc_node slots t) = map (\<lambda>v. v # proc_node slots t # up) (proc_vars slots)" for up t
    by (simp add: proc_node_def proc_vars_def leaf_paths_var)
  have a: "leaf_paths up (procs_node slots i t tp)
      = concat (replicate MAX_THREADS (leaf_paths (procs_node slots i t tp # up) (proc_node slots tp)))" for up i t tp
    by (simp add: procs_node_def)
  have "leaf_paths up (sv_node slots t ta tp) = leaf_paths (sv_node slots t ta tp # up) (var ''status'' 0 ''status'' (IntTy 32))
      @ leaf_paths (sv_node slots t ta tp # up) (var ''threadsStarted'' 1 ''tid'' (IntTy 32))
      @ leaf_paths (sv_node slots t ta tp # up) (var ''tres'' 2 ''threadresults'' (IntTy 64))
      @ leaf_paths (sv_node slots t ta tp # up) (procs_node slots 3 ta tp)" for up t ta tp
    by (simp add: sv_node_def)
  then show ?thesis
    by (simp add: leaf_paths_var a p)
qed

lemma slots_of_var:
  assumes "slots < 2 ^ 20"
  shows "slots_of (var n i tn (IntTy 32) # up) = 1" "slots_of (var n i tn (IntTy 64) # up) = 2"
    "slots_of (var n i tn (ArrayTy slots (IntTy 32)) # up) = slots"
proof -
  have "dmc_alloc (ArrayTy slots (IntTy 32)) = 4 * slots"
    by (simp add: round_up_def)
  moreover have "dl_alloc dmc_layout t = dmc_alloc t" for t
    by (simp add: dmc_layout_def)
  moreover have "unat (word_of_nat (4 * slots) :: u32) = 4 * slots"
    using assms by (simp add: unat_of_nat del: of_nat_mult)
  ultimately show "slots_of (var n i tn (ArrayTy slots (IntTy 32)) # up) = slots"
    by (simp add: getSizeValueInSlots_def getSizeValue_def generateSizeOf_def unat_div del: dmc_alloc.simps of_nat_mult)
  show "slots_of (var n i tn (IntTy 32) # up) = 1" "slots_of (var n i tn (IntTy 64) # up) = 2"
    by (simp_all add: getSizeValueInSlots_def getSizeValue_def generateSizeOf_def dmc_layout_def round_up_def unat_div)
qed

lemma full_names:
  "sn_name v \<noteq> '''' \<Longrightarrow> getFullName [v, typed_sv slots] = sn_name v"
  "sn_name v \<noteq> '''' \<Longrightarrow> getFullName (v # proc_up slots) = ''processes_proc_'' @ sn_name v"
  by (simp_all add: sv_node_def procs_node_def proc_node_def var_def Let_def)

lemma named_leaf_var:
  assumes "slots < 2 ^ 20" and "t \<in> {IntTy 32, IntTy 64, ArrayTy slots (IntTy 32)}" and "\<forall>n. pinsTypes n \<noteq> None"
    and "printable (getFullName (var n i tn t # up))" and "length (getFullName (var n i tn t # up)) < 240"
  shows "named_leaf pinsTypes (var n i tn t # up)"
proof -
  have "slots_of (var n i tn t # up) < 2 ^ 31"
    using assms(1,2) slots_of_var [OF assms(1)] by auto
  moreover have "getType (var n i tn t) = Ok (plain tn t, var n i tn t)" "\<not> svtree_isEmpty (var n i tn t)"
    by (simp_all add: var_def svtree_isEmpty_def)
  ultimately show ?thesis
    using assms(3-5) by (simp add: named_leaf_def)
qed

lemma proc_vars_eq:
  "proc_vars slots = [var ''status'' 0 ''status'' (IntTy 32), var ''tid'' 1 ''tid'' (IntTy 32), var ''pc'' 2 ''pc'' (IntTy 32),
      var ''msize'' 3 ''msize'' (IntTy 32), var ''stk'' 4 ''stack'' (IntTy 64),
      var ''r'' 5 ''register'' (ArrayTy slots (IntTy 32)), var ''m'' 6 ''memory'' (IntTy 64)]"
  by (simp add: proc_vars_def proc_node_def)

lemma sn_name_var [simp]: "sn_name (var n i tn t) = n"
  by (simp add: var_def)

lemma named_leaves_sv:
  assumes "slots < 2 ^ 20" and "\<forall>n. pinsTypes n \<noteq> None"
  shows "\<forall>path \<in> set (leaf_paths [] (typed_sv slots)). named_leaf pinsTypes path"
proof -
  have "\<forall>v \<in> set (proc_vars slots). named_leaf pinsTypes (v # proc_up slots)"
    unfolding proc_vars_eq list.set ball_simps
    by (intro conjI named_leaf_var [OF assms(1)] TrueI assms(2)) (simp_all add: full_names printable_def del: getFullName.simps)
  moreover have "named_leaf pinsTypes [var n i tn t, typed_sv slots]"
    if "(n, t) \<in> {(''status'', IntTy 32), (''threadsStarted'', IntTy 32), (''tres'', IntTy 64)}" for n i tn t
    using that by (intro named_leaf_var [OF assms(1)] assms(2)) (auto simp: full_names printable_def simp del: getFullName.simps)
  ultimately show ?thesis
    unfolding leaf_paths_sv by auto
qed

lemma slots_of_sv:
  assumes "slots < 2 ^ 20"
  shows "sum_list (map slots_of (leaf_paths [] (typed_sv slots))) = 52 + 6 * slots"
proof -
  have "sum_list (map slots_of (map (\<lambda>v. v # proc_up slots) (proc_vars slots))) = 8 + slots"
    by (simp only: proc_vars_eq list.map sum_list.Cons sum_list.Nil slots_of_var [OF assms])
  moreover have "sum_list (map f (concat (replicate n xs))) = n * sum_list (map f xs)" for f :: "svtree list \<Rightarrow> nat" and n xs
    by (induction n) simp_all
  ultimately show ?thesis
    unfolding leaf_paths_sv map_append sum_list_append
    by (simp only: list.map sum_list.Cons sum_list.Nil slots_of_var [OF assms]) simp
qed

lemma slots_of_root_sv:
  assumes "slots < 2 ^ 20"
  shows "unat (slots_of_root (sv_ty slots)) = 52 + 6 * slots + (if even slots then 0 else 6)"
proof -
  have "4 * slots mod 8 = (if even slots then 0 else 4)"
    by (cases "even slots") (auto elim!: evenE oddE)
  then have "dl_alloc dmc_layout (sv_ty slots) = 4 * (52 + 6 * slots + (if even slots then 0 else 6))"
    by (simp add: dmc_layout_def sv_layout(2))
  with assms unat_generateAlignedSizeOf [of dmc_layout "sv_ty slots"] show ?thesis
    by (simp add: slots_of_root_def unat_div split: if_splits)
qed

lemma repeated_not_distinct: "xs \<noteq> [] \<Longrightarrow> 2 \<le> n \<Longrightarrow> \<not> distinct (ys @ concat (replicate n xs))"
  by (cases n; cases "n - 1"; cases xs) auto

text \<open>
  What LTSmin would be told about the state vector, if it knew the types: the calls name the slots from 0 on without a gap, 4 for the
  status, the number of threads and the results and 8 and the registers for each process.  These are all
  slots of the state vector exactly if the number of register slots is even; otherwise the padding of the register
  areas is not counted, and the slots behind the first process get the names of others.  The processes
  share one node of the tree, so the slots of two processes have the same names.
\<close>

lemma lts_slots_of_statevector:
  assumes "generateTypes slots = Ok mt" and "lts_sv (mt_lts mt) = Some sv" and "slots < 2 ^ 20"
    and "\<forall>n. pinsTypes n \<noteq> None"
  shows "\<exists>calls. generateLTSTypeCallsForSVTree pinsTypes sv = Ok (calls, word_of_nat (52 + 6 * slots))
    \<and> map fst calls = map word_of_nat [0..<52 + 6 * slots]
    \<and> (unat (slots_of_root (getLLVMType sv)) = length calls) = even slots
    \<and> \<not> distinct (map (snd \<circ> snd) calls)"
proof -
  have sv: "sv = typed_sv slots"
    using generateTypes_sv(1) [OF assms(1)] assms(2) by simp
  obtain calls where calls: "tree_calls pinsTypes (leaf_paths [] sv) 0 = Ok (calls, word_of_nat (52 + 6 * slots))"
    "map fst calls = map word_of_nat [0..<52 + 6 * slots]"
    and names: "map (snd \<circ> snd) calls = concat (map (\<lambda>path. map (pure_name path) [0..<slots_of path]) (leaf_paths [] sv))"
    using tree_calls_eq [OF named_leaves_sv [OF assms(3,4)], of 0] slots_of_sv [OF assms(3)] unfolding sv by auto
  have "length calls = 52 + 6 * slots"
    using arg_cong [OF calls(2), of length] by simp
  moreover have "getLLVMType sv = sv_ty slots"
    by (simp add: sv sv_node_def)
  ultimately have even: "(unat (slots_of_root (getLLVMType sv)) = length calls) = even slots"
    using slots_of_root_sv [OF assms(3)] by simp
  let ?names = "\<lambda>paths. concat (map (\<lambda>path. map (pure_name path) [0..<slots_of path]) paths)"
  have "?names (map (\<lambda>v. v # proc_up slots) (proc_vars slots)) \<noteq> []"
    unfolding proc_vars_eq by (simp only: list.map slots_of_var [OF assms(3)]) simp
  moreover have rep: "?names (concat (replicate n xs)) = concat (replicate n (?names xs))" for n xs
    by (induction n) simp_all
  have "\<exists>pre. ?names (leaf_paths [] sv)
      = pre @ concat (replicate MAX_THREADS (?names (map (\<lambda>v. v # proc_up slots) (proc_vars slots))))"
    unfolding sv leaf_paths_sv map_append concat_append rep by (rule exI) (rule refl)
  ultimately have same: "\<not> distinct (map (snd \<circ> snd) calls)"
    unfolding names
    by (elim exE) (erule ssubst, rule repeated_not_distinct, assumption, simp)
  show ?thesis
    unfolding generateLTSTypeCallsForSVTree_def
    by (rule exI [of _ calls]) (intro conjI calls even same)
qed

text \<open>As no type is entered into \<open>pinsTypes\<close>, the description ends the generator at its first leaf.\<close>

lemma generateLTSType_exits:
  assumes "generateTypes slots = Ok mt"
  shows "generateLTSType (mt_statevector_size mt) (mt_lts mt) = Fail AbortCall"
proof -
  have "tree_calls (\<lambda>_. None) (leaf_paths [] (typed_sv slots)) 0 = Fail AbortCall"
    unfolding leaf_paths_sv by (simp add: var_def svtree_isEmpty_def)
  then show ?thesis
    by (simp add: generateLTSType_def generateLTSTypeCallsForSVTree_def generateTypes_sv(1) [OF assms] of_option_def)
qed

end
