(* ===== verification/LLMC_OS.thy ===== *)
theory LLMC_OS
  imports Prelude
begin

text \<open>
  The hooks of libllmcos.c: functions of the C library that are replaced, for programs linked with it, by calls of
  the weak functions \<open>__LLMCOS_...\<close>.  These are supplied by whoever runs the program and are the record \<open>os_api\<close>,
  over a state of type \<open>'s\<close>.  A model of LLMC does not contain the hooks, as the generator treats the calls itself.
\<close>

section \<open>The functions behind the hooks\<close>

record 's os_api =
  Object_New :: "u64 \<Rightarrow> 's \<Rightarrow> u64 \<times> 's"
  Warning :: "bool \<Rightarrow> string \<Rightarrow> 's \<Rightarrow> 's"
  Fatal :: "u64 \<Rightarrow> u64 \<Rightarrow> u32 \<Rightarrow> u64 \<Rightarrow> 's \<Rightarrow> 's"
  Thread_New :: "u64 \<Rightarrow> u64 \<Rightarrow> u64 \<Rightarrow> 's \<Rightarrow> u32 \<times> 's"
  Thread_Join :: "u64 \<Rightarrow> u64 \<Rightarrow> 's \<Rightarrow> u32 \<times> 's"
  Annotate :: "u64 \<Rightarrow> u64 \<Rightarrow> 's \<Rightarrow> u32 \<times> 's"

section \<open>The hooks\<close>

definition os_malloc :: "'s os_api \<Rightarrow> u64 \<Rightarrow> 's \<Rightarrow> u64 \<times> 's" where
  "os_malloc api n = Object_New api n"

definition os_calloc :: "'s os_api \<Rightarrow> u64 \<Rightarrow> u64 \<Rightarrow> 's \<Rightarrow> u64 \<times> 's" where
  "os_calloc api num n = Object_New api (num * n)"

definition os_assert_fail :: "'s os_api \<Rightarrow> u64 \<Rightarrow> u64 \<Rightarrow> u32 \<Rightarrow> u64 \<Rightarrow> 's \<Rightarrow> 's" where
  "os_assert_fail api assertion file line function = Fatal api assertion file line function"

text \<open>Attributes of a thread are ignored with a warning.\<close>

definition os_pthread_create :: "'s os_api \<Rightarrow> u64 \<Rightarrow> u64 \<Rightarrow> u64 \<Rightarrow> u64 \<Rightarrow> 's \<Rightarrow> u32 \<times> 's" where
  "os_pthread_create api thread attr start_routine arg s =
     (let s = (if attr \<noteq> 0 then Warning api True ''pthread_create called with attr, ignoring'' s else s)
      in Thread_New api thread start_routine arg s)"

definition os_pthread_join :: "'s os_api \<Rightarrow> u64 \<Rightarrow> u64 \<Rightarrow> 's \<Rightarrow> u32 \<times> 's" where
  "os_pthread_join api thread retval = Thread_Join api thread retval"

text \<open>The list of arguments is handed on as a single argument.\<close>

definition os_printf :: "'s os_api \<Rightarrow> u64 \<Rightarrow> u64 \<Rightarrow> 's \<Rightarrow> u32 \<times> 's" where
  "os_printf api format argptr = Annotate api format argptr"

section \<open>The size of an array\<close>

text \<open>\<open>calloc\<close> asks for an object of the size of the array exactly if the product fits into 64 bits; otherwise for less.\<close>

lemma os_calloc_size:
  "\<exists>n. os_calloc api num m s = Object_New api n s \<and> unat n \<le> unat num * unat m
     \<and> (unat n = unat num * unat m \<longleftrightarrow> unat num * unat m < 2 ^ 64)"
proof (intro exI conjI)
  show "os_calloc api num m s = Object_New api (num * m) s"
    by (simp add: os_calloc_def)
  have eq: "unat (num * m) = unat num * unat m mod 2 ^ 64"
    by (simp add: unat_word_ariths)
  then show "unat (num * m) \<le> unat num * unat m"
    by simp
  show "unat (num * m) = unat num * unat m \<longleftrightarrow> unat num * unat m < 2 ^ 64"
    unfolding eq by (metis mod_less mod_less_divisor zero_less_numeral zero_less_power)
qed

end
