(* ===== verification/Thread_Steps.thy ===== *)
theory Thread_Steps
  imports Isolation Thread_Laws
begin

text \<open>
  A step of a process that calls \<open>pthread_create\<close> while every slot is taken.  The call sets the
  program counter back to its own location, but the switch of \<open>model_step\<close> has a case for the
  first instruction of a group only.
\<close>

lemma run_instructions_append:
  "run_instructions env As gc = Continue gc1 \<Longrightarrow> run_instructions env (As @ Bs) gc = run_instructions env Bs gc1"
  by (induction As arbitrary: gc) (auto split: outcome.splits)

lemma create_without_slot:
  assumes "i_op I = Call c" and "c_asm c = None" and "getCalledFunction (gn_module (en_gen env)) c = Some P"
    and "f_decl P" and "f_name P = ''pthread_create''"
    and "threads gc = MAX_THREADS" and "\<forall>t < MAX_THREADS. p_pc (sv_processes (gc_svout gc) ! t) \<noteq> 0"
  shows "generateNextStateForInstruction env F I gc
      = Ok (set_pc (gc_thread gc) (word_of_nat (gn_programLocations (en_gen env) (i_id I))) gc)"
    and "emitter (en_gen env) (As @ [I])"
proof -
  have "\<not> isIntrinsic P"
    using assms(5) by (simp add: isIntrinsic_def)
  moreover have "find (\<lambda>t. p_pc (sv_processes (gc_svout gc) ! t) = 0) [0..<MAX_THREADS] = None"
    using assms(7) by (auto simp: find_None_iff)
  ultimately show "generateNextStateForInstruction env F I gc
      = Ok (set_pc (gc_thread gc) (word_of_nat (gn_programLocations (en_gen env) (i_id I))) gc)"
    "emitter (en_gen env) (As @ [I])"
    using assms create_in_slot_find [of "[0..<MAX_THREADS]" gc env "i_id I" c]
    by (simp_all add: generateNextStateForInstruction_def generateNextStateForCall_def call_declaration_def
        call_pthread_create_def emitter_def isRuntimeCollapsableInstruction_def isRuntimeCollapsableCall_def)
qed

text \<open>
  When the call is the only instruction of its group, the step ends in the state before the group: the process is at
  the call, and tries it again in its next step.  When the call comes behind other instructions of its group, its
  location is no case of the switch, and the step is not reported: the process stays where its step began, and what
  it did on the way to the call is lost.
\<close>

lemma pthread_create_tried_again:
  assumes at: "pc_of gc \<noteq> 0" "group_at (en_gen env) (pc_of gc) = Some (As @ [I])" and "\<not> e"
    and call: "i_op I = Call c" "c_asm c = None" "getCalledFunction (gn_module (en_gen env)) c = Some P"
      "f_decl P" "f_name P = ''pthread_create''" and "function_of (gn_module (en_gen env)) (i_id I) = Some F"
    and "gc_thread gc < threads gc"
    and before: "run_instructions env As
      (set_pc (gc_thread gc) (word_of_nat (location_after (en_gen env) (i_id I))) gc) = Continue gc1"
    and slots: "threads gc1 = MAX_THREADS" "\<forall>t < MAX_THREADS. p_pc (sv_processes (gc_svout gc1) ! t) \<noteq> 0"
  shows "As = [] \<Longrightarrow> step_loop env e gc = Some (Continue gc)"
    and "word_of_nat (gn_programLocations (en_gen env) (i_id I)) \<noteq> (0 :: u32) \<Longrightarrow>
      group_at (en_gen env) (word_of_nat (gn_programLocations (en_gen env) (i_id I))) = None \<Longrightarrow>
      step_loop env e gc = Some (Quiet (gc_store gc1))"
proof -
  let ?loc = "word_of_nat (gn_programLocations (en_gen env) (i_id I)) :: u32"
  let ?gc0 = "set_pc (gc_thread gc) (word_of_nat (location_after (en_gen env) (i_id I))) gc"
  let ?gc2 = "set_pc (gc_thread gc1) ?loc gc1"
  note create = create_without_slot(1) [OF call slots, of F] create_without_slot(2) [OF call slots, of As]
  have "touches UNIV ?gc0 gc1"
    using touches_run_instructions [OF before] by simp
  then have t: "gc_thread gc1 = gc_thread gc" "threads gc1 = threads gc"
    by (simp_all add: touches_def set_pc_def)
  have "run_instructions env (As @ [I]) ?gc0 = Continue ?gc2"
    unfolding run_instructions_append [OF before] using assms(9) create(1) by (simp add: of_option_def)
  then have "generateNextStateForGroup env (As @ [I]) gc = Continue ?gc2"
    by (simp add: generateNextStateForGroup_def)
  with at \<open>\<not> e\<close> create(2) have step: "step_loop env e gc = step_loop env True ?gc2"
    by (subst step_loop.simps) simp
  have pc: "pc_of ?gc2 = ?loc" "gc_store ?gc2 = gc_store gc1"
    using t assms(10) by (simp_all add: pc_of_def set_pc_def)
  show "step_loop env e gc = Some (Continue gc)" if "As = []"
  proof -
    have "gc1 = ?gc0"
      using before that by simp
    obtain tg where "group_case (en_gen env) tg = Some (pc_of gc, As @ [I])"
      using at(2) by (auto simp: group_at_def map_filter_def dest!: map_of_SomeD)
    then have "pc_of gc = ?loc"
      using that by (auto simp: group_case_def split: tgroup.splits if_splits)
    then have "?gc2 = gc"
      using assms(10) unfolding \<open>gc1 = ?gc0\<close>
      by (simp add: set_pc_def upd_proc_def upd_sv_def pc_of_def list_update_same_conv)
    moreover have "step_loop env True gc = Some (Continue gc)"
      using at create(2) that by (subst step_loop.simps) simp
    ultimately show ?thesis
      using step by simp
  qed
  show "step_loop env e gc = Some (Quiet (gc_store gc1))"
    if "?loc \<noteq> 0" "group_at (en_gen env) ?loc = None"
    unfolding step using pc that by (subst step_loop.simps) simp
qed

end
