(* ===== verification/Spec2Isabelle.thy ===== *)
theory Spec2Isabelle
  imports Explorer_MT Explorer_2 Control_Flow End_States Default_Groups LTS_Slots LLMC_OS Thread_Steps
begin

text \<open>
  LLMC, a model checker for LLVM IR: a verification development of the program.

  \<^bold>\<open>The program.\<close>  LLMC (llmc/main.cpp) translates a program in LLVM IR into a model, an LLVM module that implements the
  interface of the model checker DMC, compiles and links the model, and has DMC explore it.  The translation is the
  generator libllmc/include/llmc/LLDMCModelGenerator.h with the helpers under libllmc/generation.  The model consists of a
  function for the initial state and of one for the next states of a state; a state is a vector of bytes with a status, the
  number of threads started, the list of thread results and, for each of six processes, its program counter, its
  stack, its registers and its memory.  Stacks, register areas and memories are byte vectors in the store of the
  model checker; the state vector holds their identifiers.  The repository also has searches of its own
  (include/llmc/ssgen.h) over stores of its own (include/llmc/treestore.h).

  \<^bold>\<open>The two levels.\<close>  The generator runs at translation time and writes code; the code runs when the model is explored.
  Definitions named after the functions of the generator describe what the code they write does when it runs
  (\<open>generateLoad\<close> is the load); where the generator itself decides something, that is, transition groups,
  program counters, register numbers, the types of the state vector, the schedule of PHI nodes, the blocks of a
  branch, the definition describes the generator.  An assertion or an abort of either is \<open>Fail\<close>; \<open>NoReport\<close> is the
  branch to the block that gives the step up.

  \<^bold>\<open>Stores and searches.\<close>
  \<^item> \<open>Type_Store\<close>: \<open>TypeInstance\<close>, \<open>TypeStore\<close> and \<open>TreeStore\<close> of treestore.h with their invariant: a vector has one number,
    numbers stay valid.
  \<^item> \<open>Hash_Table\<close>, \<open>Hash_Table_Laws\<close>: the slabs, buckets and tables of \<open>TreeStore_2\<close>.  Records of one length are
    found by identifier, and records of different lengths overwrite each other.  The search goes by addresses of 64 bits,
    as the code does, and may run for ever; an insertion returns exactly when the search does and two records fit into a
    slab; equal data is inserted again.
  \<^item> \<open>Vector_Store\<close>: the functions of DMC that the model calls, as a record of operations, and what the model relies on as the
    locales \<open>vector_store\<close> and \<open>delta_store\<close>; the chunk operations of \<open>ssgen_st\<close> are the provider.  \<open>Sized_Store\<close> adds
    the length in the identifier that \<open>StateManager::getLength\<close> reads, and a vector with the identifier 0: the list of
    thread results starts with that identifier, for which \<open>ssgen_st\<close> has none and asserts.
  \<^item> \<open>Explorer\<close>, \<open>Explorer_MT\<close>, \<open>Explorer_2\<close>: \<open>ssgen_st\<close>, which finds exactly the reachable states whenever they are
    finitely many; \<open>ssgen_mt\<close> as a step relation of four workers with the mutex of their queue; \<open>ssgen_st_2\<close>
    over the hash tables, whose chunk identifiers survive as integers only for half of the buckets.

  \<^bold>\<open>The generator.\<close>
  \<^item> \<open>IR\<close>: the input program and the tables of the generator.  \<open>Transition_Groups\<close>: \<open>createTransitionGroups\<close> cuts the
    instructions into groups that start at a program counter.
  \<^item> \<open>Model_State\<close>, \<open>Register_File\<close>: sizes, register numbers, the state vector and its bytes, \<open>vReg\<close> and \<open>vMap\<close>; the
    layout of register structs is the locale \<open>register_layout\<close>, interpreted for the layout string of the generator.
  \<^item> \<open>SV_Tree\<close>, \<open>Tree_Positions\<close>, \<open>State_Layout\<close>: the tree of variables, accessors, the type manager and
    \<open>generateTypes\<close>; variables never overlap, and every access path denotes its place in the bytes of the state.
  \<^item> \<open>Model_Memory\<close>: model pointers, loads, stores and allocations over any store with the contract.
  \<^item> \<open>Process_Stack\<close>: frames, \<open>pushStackFrame\<close> and \<open>popStackFrame\<close>.  \<open>Phi_Nodes\<close>: the stores for PHI nodes.
  \<^item> \<open>Instructions\<close>, \<open>Dispatch\<close>: the handlers of instructions and library calls and the functions that select them, with the
    shape of the state they keep.  \<open>Handler_Laws\<close> has their properties, \<open>Thread_Laws\<close> those of a
    thread from its creation to the join, \<open>Handler_Examples\<close> the witnesses; \<open>Thread_Steps\<close> is a step that finds no free slot.
  \<^item> \<open>Next_State\<close>, \<open>Next_Examples\<close>: \<open>model_step\<close>, the starts of the constructors and of main, and \<open>dmc_nextstates\<close>;
    \<open>Initial_State\<close>: \<open>dmc_initialstate\<close> with the global variables; \<open>State_Space\<close>: what a search can find.
  \<^item> \<open>Isolation\<close>: a next state is a step of one process.  \<open>Private_Groups\<close>: groups without a visible instruction neither read
    nor change what is shared, which is why they may be run in one step.  Exceptions are \<open>llvm.memcpy\<close> and a \<open>ret\<close> that
    ends its thread, which adds to the shared list of results: where this may happen, the list counts as the own of
    the process, and the statement says so.
  \<^item> \<open>Default_Groups\<close>, \<open>LTS_Slots\<close>: the transition groups of the starts and the description of the state for LTSmin, which
    the generator has but no longer uses.
  \<^item> \<open>LLMC_VM\<close>, \<open>LLMC_OS\<close>: the runtime functions and the hooks under libllmcos.
  \<^item> \<open>Control_Flow\<close>, \<open>String_Builder\<close>: the helpers of llvmgen.h.

  \<^bold>\<open>The programs.\<close>
  \<^item> \<open>Front_End\<close>: \<open>getopt\<close>, the options of llmc and ll2dmc, and the choice of search, store and printer.
  \<^item> \<open>Main_Program\<close>: the way from the input to the explored library, with the stages of \<open>pinsify\<close> that set up the
    generator.  \<open>End_States\<close>: the report on end states, composed with the state space of the model.

  \<^bold>\<open>Loops.\<close>  Loops that may run forever are \<open>partial_function (option)\<close>: the levels of a search, the steps of a
  process, the search of a slab, the insertion into a bucket.  It is proved that a search over finitely many states, the
  workers of \<open>ssgen_mt\<close> included, and an insertion that has room and whose search ends return, and that the next-state
  function does not return exactly when a process has an endless run of groups within a step.  Other loops are structural or have a measure.
  The one bound is the number of steps along the chain of slabs of a bucket, which is the number of its slabs, as each
  is linked once.

  \<^bold>\<open>Parameters.\<close>  Not in the repository, and therefore parameters with named hypotheses where anything is needed of
  them: the storage of DMC (\<open>dmc_api\<close>); the functions behind the hooks (\<open>os_api\<close>); sizes and offsets of LLVM
  types (\<open>layout\<close>); the results of instructions that are cloned into the model and of constant expressions
  (\<open>en_exec\<close>, \<open>en_expr\<close>); the order of an unordered map (\<open>en_order\<close>); the contents of
  fresh memory and its addresses (\<open>mem\<close>, \<open>stack\<close>); the hash function of the C++ library; the loaded model of a search; the settings, files,
  messages and processes of libfrugi, and the reader, writer and verifier of LLVM (\<open>settings_api\<close>, \<open>platform\<close>).

  \<^bold>\<open>Choices.\<close>  A step that gives up (\<open>Quiet\<close>) keeps what was inserted into the store before: vectors are never
  removed.  In \<open>ssgen_mt\<close> the pop from the queue is under a mutex and the push is not; both take time.  A run
  ends where two workers are inside the queue at once, because what the program does then is undefined; such a
  configuration is reached whenever the initial state has another successor.  The insertion into the store is one step.  Operations on a
  bucket hold its lock, so they are modelled one at a time.  A null pointer that is dereferenced, and a read or write
  outside an object, is \<open>Fail BadAccess\<close>.

  \<^bold>\<open>Not modelled.\<close>  \<open>generateConditionForInstruction\<close> and \<open>generateConditionForCall\<close>, which nothing calls, and
  \<open>ChunkMapper\<close>, which is not in the build and uses members that no longer exist; debug information, dumps, names of
  nodes, labels of edges and other printing; the chunk operations of \<open>ssgen_mt\<close>, which cast their context to \<open>ssgen_st\<close>;
  DMC, dtree and libfrugi, whose sources are not here.
\<close>

end
